(* ===== verification/Prelude.thy ===== *)
theory Prelude
  imports Main "HOL-Library.Word"
begin

text \<open>
  Shared vocabulary of the development: the Go integer and byte types, string literals and the
  part of \<^verbatim>\<open>fmt\<close> the packets use, the sum type as a result type, and the generic lemmas on
  lists, sums and machine words that the component theories rest on.
\<close>

unbundle bit_operations_syntax

section \<open>Go types\<close>

text \<open>
  A Go \<^verbatim>\<open>byte\<close> is an 8 bit word. A Go \<^verbatim>\<open>string\<close> is an immutable sequence of bytes, so it is
  modelled by the same lists as \<^verbatim>\<open>[]byte\<close>; conversions between the two are identities.
  The nil slice and the empty slice are both the empty list: no modelled code tells them apart.
\<close>

type_synonym byte = "8 word"
type_synonym uint16 = "16 word"
type_synonym uint32 = "32 word"
type_synonym bytes = "byte list"
type_synonym gostring = "byte list"

text \<open>A result: an error on the left, a value on the right.\<close>

primrec andThen :: "'e + 'a \<Rightarrow> ('a \<Rightarrow> 'e + 'b) \<Rightarrow> 'e + 'b" where
  "andThen (Inl e) k = Inl e"
| "andThen (Inr v) k = k v"

text \<open>
  The collections of the development: \<open>flat_simps\<close> evaluates readers and decoders on a
  stream given by its bytes, \<open>decoder_intros\<close> shows that a decoder sees only the bytes of
  its stream, \<open>wire_simps\<close> unfolds the encoders to the bytes they produce.
\<close>

named_theorems flat_simps
named_theorems decoder_intros
named_theorems wire_simps

section \<open>Literals and formatting\<close>

definition lit :: "string \<Rightarrow> gostring" where
  "lit s = map of_char s"

text \<open>The verbs \<^verbatim>\<open>%d\<close> and \<^verbatim>\<open>%x\<close> on unsigned values and \<^verbatim>\<open>%t\<close> on booleans.\<close>

definition digit_char :: "nat \<Rightarrow> byte" where
  "digit_char d = (if d < 10 then of_nat (48 + d) else of_nat (87 + d))"

fun fmt_d :: "nat \<Rightarrow> gostring" where
  "fmt_d n = (if n < 10 then [digit_char n] else fmt_d (n div 10) @ [digit_char (n mod 10)])"

fun fmt_x :: "nat \<Rightarrow> gostring" where
  "fmt_x n = (if n < 16 then [digit_char n] else fmt_x (n div 16) @ [digit_char (n mod 16)])"

declare fmt_d.simps [simp del] fmt_x.simps [simp del]

definition fmt_int :: "int \<Rightarrow> gostring" where
  "fmt_int i = (if i < 0 then lit ''-'' @ fmt_d (nat (- i)) else fmt_d (nat i))"

definition fmt_t :: "bool \<Rightarrow> gostring" where
  "fmt_t b = (if b then lit ''true'' else lit ''false'')"

section \<open>Lemmas on results and lists\<close>

lemma andThen_Inr_conv: "andThen x k = Inr v \<longleftrightarrow> (\<exists>u. x = Inr u \<and> k u = Inr v)"
  by (cases x) auto

lemma andThen_Inl_conv: "andThen x k = Inl e \<longleftrightarrow> x = Inl e \<or> (\<exists>u. x = Inr u \<and> k u = Inl e)"
  by (cases x) auto

lemma length_one_conv: "length xs = Suc 0 \<longleftrightarrow> (\<exists>x. xs = [x])"
  by (auto simp: length_Suc_conv)

lemma length_two_conv: "length xs = 2 \<longleftrightarrow> (\<exists>x y. xs = [x, y])"
  by (auto simp: numeral_2_eq_2 length_Suc_conv)

lemma take_eq_append_drop: "n \<le> length xs \<Longrightarrow> \<exists>ys zs. xs = ys @ zs \<and> length ys = n"
  by (rule exI [of _ "take n xs"], rule exI [of _ "drop n xs"]) simp

section \<open>Lemmas on words\<close>

lemma uint16_split_join:
  "push_bit 8 (ucast (ucast (drop_bit 8 w) :: byte)) OR ucast (ucast w :: byte) = (w :: uint16)"
  by (rule bit_word_eqI) (auto simp: bit_simps)

lemma uint16_join_split_high:
  "ucast (drop_bit 8 (push_bit 8 (ucast a) OR ucast b :: uint16)) = (a :: byte)"
  for b :: byte
  by (rule bit_word_eqI) (auto simp: bit_simps dest: bit_imp_le_length)

lemma uint16_join_split_low:
  "ucast (push_bit 8 (ucast a) OR ucast b :: uint16) = (b :: byte)"
  for a :: byte
  by (rule bit_word_eqI) (auto simp: bit_simps)

lemma unat_uint16_of_nat: "n \<le> 65535 \<Longrightarrow> unat (of_nat n :: uint16) = n"
  by (simp add: unat_of_nat)

text \<open>Equality of bytes bit by bit, and the bits a small byte does not have.\<close>

lemma all_less_8:
  "(\<forall>n<8. P n) \<longleftrightarrow> P 0 \<and> P (Suc 0) \<and> P 2 \<and> P 3 \<and> P 4 \<and> P 5 \<and> P 6 \<and> P (7::nat)"
  by (simp add: eval_nat_numeral All_less_Suc) blast

lemma byte_eq_bits:
  "x = y \<longleftrightarrow> bit x 0 = bit y 0 \<and> bit x (Suc 0) = bit y (Suc 0) \<and> bit x 2 = bit y 2 \<and>
     bit x 3 = bit y 3 \<and> bit x 4 = bit y 4 \<and> bit x 5 = bit y 5 \<and> bit x 6 = bit y 6 \<and>
     bit x 7 = bit y 7" for x y :: byte
proof -
  have "x = y \<longleftrightarrow> (\<forall>n<8. bit x n = bit y n)"
    using bit_word_eqI [of x y] by auto
  then show ?thesis by (simp only: all_less_8)
qed

lemma high_bits:
  assumes "unat (x :: byte) < 2 ^ k" and "k \<le> n"
  shows "\<not> bit x n"
proof -
  have "take_bit k (unat x) = unat x"
    using assms(1) by (simp add: take_bit_nat_eq_self)
  then have "\<not> bit (unat x) n"
    using assms(2) by (metis bit_take_bit_iff linorder_not_less)
  then show ?thesis by (simp add: bit_unsigned_iff)
qed

lemma high_bits_4: "x < 4 \<Longrightarrow> \<not> bit x 2 \<and> \<not> bit x 3 \<and> \<not> bit x 4 \<and> \<not> bit x 5 \<and> \<not> bit x 6 \<and> \<not> bit x 7"
  for x :: byte
  using high_bits [of x 2] by (simp add: word_less_nat_alt)

lemma high_bits_16: "x < 16 \<Longrightarrow> \<not> bit x 4 \<and> \<not> bit x 5 \<and> \<not> bit x 6 \<and> \<not> bit x 7"
  for x :: byte
  using high_bits [of x 4] by (simp add: word_less_nat_alt)

lemma high_bits_128: "x < 128 \<Longrightarrow> \<not> bit x 7"
  for x :: byte
  using high_bits [of x 7] by (simp add: word_less_nat_alt)

lemma bit_byte_double: "bit (x * 2) n \<longleftrightarrow> 0 < n \<and> n < 8 \<and> bit x (n - 1)" for x :: byte
  by (simp add: mult.commute [of x] bit_double_iff) blast

lemmas byte_bit_simps = bit_simps bit_byte_double numeral_2_eq_2 [symmetric]

end
