(* ===== verification/Errors.thy ===== *)
theory Errors
  imports Prelude
begin

text \<open>
  The error values of the program: the sentinels of the packet codec (\<^verbatim>\<open>packets.go\<close>,
  \<^verbatim>\<open>errors.go\<close>), the ones of \<^verbatim>\<open>io\<close> and \<^verbatim>\<open>net\<close> the code compares with, the
  clause-tagged \<^verbatim>\<open>PacketError\<close>, plain errors made by \<^verbatim>\<open>fmt.Errorf\<close>
  (\<open>NewError\<close>), and errors that wrap another one with the verb \<^verbatim>\<open>%w\<close> (\<open>Wrap\<close>).
  \<open>Error\<close> is the message of an error, \<open>errors_Is\<close> is \<^verbatim>\<open>errors.Is\<close>.
\<close>

datatype error =
    EOF
  | ErrUnexpectedEOF
  | ErrClosed
  | ErrDeadlineExceeded
  | ErrPacketTooLarge
  | ErrMalformedRemainingLength
  | ErrInvalidFixedHeaderFlags
  | ErrFieldTooLong
  | ErrTrailingBytes
  | ErrShortRemainingLength
  | ErrInvalidQoS
  | ErrInvalidWildcardTopic
  | ErrInvalidTopicEmptyString
  | ErrInvalidTopicMultilevel
  | ErrInvalidTopicSinglelevel
  | ErrInvalidTopicTooLong
  | ErrInvalidTopicUTF8
  | ErrorRefusedBadProtocolVersion
  | ErrorRefusedIDRejected
  | ErrorRefusedServerUnavailable
  | ErrorRefusedBadUsernameOrPassword
  | ErrorRefusedNotAuthorised
  | ErrorNetworkError
  | ErrorProtocolViolation
  | PacketError (Code: gostring) (Desc: gostring)
  | NewError gostring
  | Wrap error gostring

text \<open>\<^verbatim>\<open>NewPacketError\<close> and the message of a \<^verbatim>\<open>PacketError\<close>.\<close>

definition NewPacketError :: "string \<Rightarrow> gostring \<Rightarrow> error" where
  "NewPacketError code desc = PacketError (lit code) desc"

definition PacketError_Error :: "gostring \<Rightarrow> gostring \<Rightarrow> gostring" where
  "PacketError_Error code desc = lit ''mqtt: ['' @ code @ lit ''] '' @ desc"

primrec Error :: "error \<Rightarrow> gostring" where
  "Error EOF = lit ''EOF''"
| "Error ErrUnexpectedEOF = lit ''unexpected EOF''"
| "Error ErrClosed = lit ''use of closed network connection''"
| "Error ErrDeadlineExceeded = lit ''i/o timeout''"
| "Error ErrPacketTooLarge = lit ''mqtt: packet exceeds maximum remaining length''"
| "Error ErrMalformedRemainingLength = lit ''mqtt: malformed remaining length''"
| "Error ErrInvalidFixedHeaderFlags = lit ''mqtt: invalid fixed header flags''"
| "Error ErrFieldTooLong = lit ''mqtt: string or bytes field exceeds 65535 bytes''"
| "Error ErrTrailingBytes = lit ''mqtt: remaining length larger than packet content''"
| "Error ErrShortRemainingLength = lit ''mqtt: remaining length too small for packet content''"
| "Error ErrInvalidQoS = lit ''mqtt: invalid QoS''"
| "Error ErrInvalidWildcardTopic = lit ''invalid Topic; topic should not contain wildcard''"
| "Error ErrInvalidTopicEmptyString = lit ''invalid Topic; empty string''"
| "Error ErrInvalidTopicMultilevel =
     lit ''invalid Topic; multi-level wildcard must occupy the entire last level''"
| "Error ErrInvalidTopicSinglelevel =
     lit ''invalid Topic; single-level wildcard must occupy an entire level''"
| "Error ErrInvalidTopicTooLong = lit ''invalid Topic; longer than 65535 bytes''"
| "Error ErrInvalidTopicUTF8 =
     lit ''invalid Topic; not well-formed UTF-8 or contains U+0000''"
| "Error ErrorRefusedBadProtocolVersion = lit ''unacceptable protocol version''"
| "Error ErrorRefusedIDRejected = lit ''identifier rejected''"
| "Error ErrorRefusedServerUnavailable = lit ''server Unavailable''"
| "Error ErrorRefusedBadUsernameOrPassword = lit ''bad user name or password''"
| "Error ErrorRefusedNotAuthorised = lit ''not Authorized''"
| "Error ErrorNetworkError = lit ''network Error''"
| "Error ErrorProtocolViolation = lit ''protocol Violation''"
| "Error (PacketError code desc) = PacketError_Error code desc"
| "Error (NewError text) = text"
| "Error (Wrap e text) = Error e @ lit '': '' @ text"

primrec errors_Is :: "error \<Rightarrow> error \<Rightarrow> bool" where
  "errors_Is EOF t = (EOF = t)"
| "errors_Is ErrUnexpectedEOF t = (ErrUnexpectedEOF = t)"
| "errors_Is ErrClosed t = (ErrClosed = t)"
| "errors_Is ErrDeadlineExceeded t = (ErrDeadlineExceeded = t)"
| "errors_Is ErrPacketTooLarge t = (ErrPacketTooLarge = t)"
| "errors_Is ErrMalformedRemainingLength t = (ErrMalformedRemainingLength = t)"
| "errors_Is ErrInvalidFixedHeaderFlags t = (ErrInvalidFixedHeaderFlags = t)"
| "errors_Is ErrFieldTooLong t = (ErrFieldTooLong = t)"
| "errors_Is ErrTrailingBytes t = (ErrTrailingBytes = t)"
| "errors_Is ErrShortRemainingLength t = (ErrShortRemainingLength = t)"
| "errors_Is ErrInvalidQoS t = (ErrInvalidQoS = t)"
| "errors_Is ErrInvalidWildcardTopic t = (ErrInvalidWildcardTopic = t)"
| "errors_Is ErrInvalidTopicEmptyString t = (ErrInvalidTopicEmptyString = t)"
| "errors_Is ErrInvalidTopicMultilevel t = (ErrInvalidTopicMultilevel = t)"
| "errors_Is ErrInvalidTopicSinglelevel t = (ErrInvalidTopicSinglelevel = t)"
| "errors_Is ErrInvalidTopicTooLong t = (ErrInvalidTopicTooLong = t)"
| "errors_Is ErrInvalidTopicUTF8 t = (ErrInvalidTopicUTF8 = t)"
| "errors_Is ErrorRefusedBadProtocolVersion t = (ErrorRefusedBadProtocolVersion = t)"
| "errors_Is ErrorRefusedIDRejected t = (ErrorRefusedIDRejected = t)"
| "errors_Is ErrorRefusedServerUnavailable t = (ErrorRefusedServerUnavailable = t)"
| "errors_Is ErrorRefusedBadUsernameOrPassword t = (ErrorRefusedBadUsernameOrPassword = t)"
| "errors_Is ErrorRefusedNotAuthorised t = (ErrorRefusedNotAuthorised = t)"
| "errors_Is ErrorNetworkError t = (ErrorNetworkError = t)"
| "errors_Is ErrorProtocolViolation t = (ErrorProtocolViolation = t)"
| "errors_Is (PacketError c d) t = (PacketError c d = t)"
| "errors_Is (NewError s) t = (NewError s = t)"
| "errors_Is (Wrap e s) t = (Wrap e s = t \<or> errors_Is e t)"

lemma errors_Is_refl [simp]: "errors_Is e e"
  by (cases e) simp_all

lemma errors_Is_Wrap [simp]: "errors_Is (Wrap e s) e"
  by simp

end
