(* ===== verification/Readers.thy ===== *)
theory Readers
  imports Errors "HOL-Library.Sublist"
begin

text \<open>
  \<^verbatim>\<open>io.Reader\<close> and the reading functions of \<^verbatim>\<open>io\<close> and \<^verbatim>\<open>bytes\<close> the codec calls.
  A reader is what its \<^verbatim>\<open>Read\<close> calls will return: a list of chunks, one per call unless the
  caller's buffer is shorter, followed by an error that every later call repeats (\<open>EOF\<close> for
  a stream closed by its peer, a deadline or connection error otherwise). A \<^verbatim>\<open>Read\<close> that
  returns bytes together with an error is the chunk followed by that error: the callers modelled
  here keep the bytes first. \<open>byteReader\<close> says whether the value also implements
  \<^verbatim>\<open>io.ByteReader\<close>, as \<^verbatim>\<open>bufio.Reader\<close> and \<^verbatim>\<open>bytes.Buffer\<close> do.

  The theory ends with the interface \<open>stream_decoder\<close>: a decoder whose result depends on the
  bytes of the stream only, not on how the network cuts them into chunks.
\<close>

section \<open>Readers\<close>

record reader =
  chunks :: "bytes list"
  final :: error
  byteReader :: bool

definition data :: "reader \<Rightarrow> bytes" where
  "data r = concat (chunks r)"

text \<open>A decoder: a step on a reader that gives a value or an error, and the reader after it.\<close>

type_synonym 'a decoder = "reader \<Rightarrow> (error + 'a) \<times> reader"

definition Read :: "nat \<Rightarrow> bytes decoder" where
  "Read n r = (case chunks r of
      [] \<Rightarrow> (Inl (final r), r)
    | c # cs \<Rightarrow>
        (if length c \<le> n then (Inr c, r\<lparr>chunks := cs\<rparr>)
         else (Inr (take n c), r\<lparr>chunks := drop n c # cs\<rparr>)))"

text \<open>
  The loop of \<^verbatim>\<open>io.ReadAtLeast\<close> and of \<^verbatim>\<open>io.Copy\<close> on a limited source: read until
  \<open>n\<close> bytes are there or the reader fails; the bytes so far, the failure, the reader.
\<close>

function fill :: "nat \<Rightarrow> bytes \<Rightarrow> reader \<Rightarrow> bytes \<times> error option \<times> reader" where
  "fill n acc r =
     (if n \<le> length acc then (acc, None, r)
      else case Read (n - length acc) r of
        (Inl e, r') \<Rightarrow> (acc, Some e, r')
      | (Inr b, r') \<Rightarrow> fill n (acc @ b) r')"
  by pat_completeness auto
termination
  by (relation "measure (\<lambda>(n, acc, r). length (concat (chunks r)) + length (chunks r))")
    (auto simp: Read_def split: list.splits if_splits)

declare fill.simps [simp del]

definition ReadFull :: "nat \<Rightarrow> bytes decoder" where
  "ReadFull n r = (case fill n [] r of
      (b, None, r') \<Rightarrow> (Inr b, r')
    | (b, Some e, r') \<Rightarrow> (Inl (if b \<noteq> [] \<and> e = EOF then ErrUnexpectedEOF else e), r'))"

definition CopyN :: "nat \<Rightarrow> bytes decoder" where
  "CopyN n r = (case fill n [] r of
      (b, None, r') \<Rightarrow> (Inr b, r')
    | (b, Some e, r') \<Rightarrow> (Inl e, r'))"

text \<open>\<^verbatim>\<open>ReadByte\<close> of \<^verbatim>\<open>bytes.Buffer\<close> and \<^verbatim>\<open>bufio.Reader\<close>; an empty chunk is skipped.\<close>

fun readByte_chunks :: "bytes list \<Rightarrow> (byte \<times> bytes list) option" where
  "readByte_chunks [] = None"
| "readByte_chunks ([] # cs) = readByte_chunks cs"
| "readByte_chunks ((b # c) # cs) = Some (b, if c = [] then cs else c # cs)"

definition ReadByte :: "byte decoder" where
  "ReadByte r = (case readByte_chunks (chunks r) of
      None \<Rightarrow> (Inl (final r), r\<lparr>chunks := []\<rparr>)
    | Some (b, cs) \<Rightarrow> (Inr b, r\<lparr>chunks := cs\<rparr>))"

text \<open>\<^verbatim>\<open>(*bytes.Buffer).ReadFrom\<close>: everything up to the end of the stream; the end is no error.\<close>

definition ReadFrom :: "bytes decoder" where
  "ReadFrom r =
     (if final r = EOF then (Inr (data r), r\<lparr>chunks := []\<rparr>)
      else (Inl (final r), r\<lparr>chunks := []\<rparr>))"

text \<open>Sequencing: what \<^verbatim>\<open>if err != nil { return err }\<close> after each call amounts to.\<close>

definition rbind :: "'a decoder \<Rightarrow> ('a \<Rightarrow> 'b decoder) \<Rightarrow> 'b decoder" where
  "rbind m k r = (case m r of (Inl e, r') \<Rightarrow> (Inl e, r') | (Inr v, r') \<Rightarrow> k v r')"

definition rret :: "'a \<Rightarrow> 'a decoder" where
  "rret v r = (Inr v, r)"

definition rfail :: "error \<Rightarrow> 'a decoder" where
  "rfail e r = (Inl e, r)"

section \<open>The loop reads exactly the bytes asked for\<close>

lemma data_update [simp]: "data (r\<lparr>chunks := cs\<rparr>) = concat cs"
  by (simp add: data_def)

lemma fill_props:
  "fill n acc r = (b, e, r') \<Longrightarrow> length acc \<le> n \<Longrightarrow>
     final r' = final r \<and> byteReader r' = byteReader r \<and>
     (if n \<le> length acc + length (data r)
      then b = acc @ take (n - length acc) (data r) \<and> e = None \<and>
           data r' = drop (n - length acc) (data r)
      else b = acc @ data r \<and> e = Some (final r) \<and> chunks r' = [])"
proof (induction n acc r arbitrary: b e r' rule: fill.induct)
  case (1 n acc r)
  show ?case
  proof (cases "n \<le> length acc")
    case True
    with "1.prems" show ?thesis
      by (auto simp: fill.simps [of n acc r])
  next
    case more: False
    show ?thesis
    proof (cases "chunks r")
      case Nil
      with "1.prems" more show ?thesis
        by (auto simp: fill.simps [of n acc r] Read_def data_def)
    next
      case (Cons c cs)
      let ?k = "n - length acc"
      show ?thesis
      proof (cases "length c \<le> ?k")
        case True
        then have rd: "Read ?k r = (Inr c, r\<lparr>chunks := cs\<rparr>)"
          by (simp add: Read_def Cons)
        from "1.prems" more rd have "fill n (acc @ c) (r\<lparr>chunks := cs\<rparr>) = (b, e, r')"
          by (simp add: fill.simps [of n acc r])
        from "1.IH" [OF more rd [symmetric] refl this] True more show ?thesis
          by (auto simp: data_def Cons split: if_splits)
      next
        case False
        then have rd: "Read ?k r = (Inr (take ?k c), r\<lparr>chunks := drop ?k c # cs\<rparr>)"
          by (simp add: Read_def Cons)
        from "1.prems" more rd False show ?thesis
          by (auto simp: fill.simps [of n acc r] fill.simps [of n "acc @ take ?k c"] data_def Cons)
      qed
    qed
  qed
qed


lemma fill_eq:
  shows "fst (fill n [] r) = take n (data r)"
    and "fst (snd (fill n [] r)) = (if n \<le> length (data r) then None else Some (final r))"
    and "data (snd (snd (fill n [] r))) = drop n (data r)"
    and "final (snd (snd (fill n [] r))) = final r"
proof -
  obtain b e r' where f: "fill n [] r = (b, e, r')"
    by (cases "fill n [] r")
  have "chunks r' = [] \<Longrightarrow> data r' = []"
    by (simp add: data_def)
  then show "fst (fill n [] r) = take n (data r)"
    and "fst (snd (fill n [] r)) = (if n \<le> length (data r) then None else Some (final r))"
    and "data (snd (snd (fill n [] r))) = drop n (data r)"
    and "final (snd (snd (fill n [] r))) = final r"
    using fill_props [OF f] by (simp_all add: f split: if_splits)
qed

lemma ReadFull_eq:
  shows "fst (ReadFull n r) =
      (if n \<le> length (data r) then Inr (take n (data r))
       else Inl (if data r \<noteq> [] \<and> final r = EOF then ErrUnexpectedEOF else final r))"
    and "data (snd (ReadFull n r)) = drop n (data r)"
    and "final (snd (ReadFull n r)) = final r"
  using fill_eq [of n r]
  by (cases "fill n [] r"; cases "n \<le> length (data r)"; cases "data r"; simp add: ReadFull_def)+

lemma ReadFull_Inr:
  assumes "ReadFull n r = (Inr b, r')"
  shows "length b = n \<and> data r = b @ data r'"
  using assms ReadFull_eq(1,2) [of n r] by (auto split: if_splits)

lemma CopyN_eq:
  shows "fst (CopyN n r) =
      (if n \<le> length (data r) then Inr (take n (data r)) else Inl (final r))"
    and "data (snd (CopyN n r)) = drop n (data r)"
    and "final (snd (CopyN n r)) = final r"
  using fill_eq [of n r]
  by (cases "fill n [] r"; cases "n \<le> length (data r)"; simp add: CopyN_def)+

lemma readByte_chunks_Some: "readByte_chunks cs = Some (b, cs') \<Longrightarrow> concat cs = b # concat cs'"
  by (induction cs rule: readByte_chunks.induct) (auto split: if_splits)

lemma readByte_chunks_None: "readByte_chunks cs = None \<Longrightarrow> concat cs = []"
  by (induction cs rule: readByte_chunks.induct) auto

lemma ReadByte_eq:
  shows "fst (ReadByte r) = (if data r = [] then Inl (final r) else Inr (hd (data r)))"
    and "data (snd (ReadByte r)) = drop 1 (data r)"
    and "final (snd (ReadByte r)) = final r"
  by (cases "readByte_chunks (chunks r)";
      auto simp: ReadByte_def data_def simp del: concat_eq_Nil_conv
        dest: readByte_chunks_None readByte_chunks_Some)+

section \<open>Streams given by their bytes\<close>

text \<open>
  The canonical reader with given bytes, all in one chunk. A \<^verbatim>\<open>bytes.Buffer\<close> holding
  \<open>bs\<close> is \<open>buffer bs\<close>.
\<close>

definition flat :: "bytes \<Rightarrow> error \<Rightarrow> bool \<Rightarrow> reader" where
  "flat bs fin br = \<lparr>chunks = (if bs = [] then [] else [bs]), final = fin, byteReader = br\<rparr>"

abbreviation buffer :: "bytes \<Rightarrow> reader" where
  "buffer bs \<equiv> flat bs EOF True"

lemma data_flat [simp]: "data (flat bs fin br) = bs"
  by (simp add: flat_def data_def)

lemma final_flat [simp]: "final (flat bs fin br) = fin"
  by (simp add: flat_def)

lemma byteReader_flat [simp]: "byteReader (flat bs fin br) = br"
  by (simp add: flat_def)

lemma chunks_flat_update [simp]: "(flat bs fin br)\<lparr>chunks := []\<rparr> = flat [] fin br"
  by (simp add: flat_def)

lemma flat_inject [simp]: "flat bs fin br = flat bs' fin' br' \<longleftrightarrow> bs = bs' \<and> fin = fin' \<and> br = br'"
  by (auto simp: flat_def)

lemma fill_flat:
  "fill n [] (flat bs fin br) =
     (if n \<le> length bs then (take n bs, None, flat (drop n bs) fin br)
      else (bs, Some fin, flat [] fin br))"
  by (cases "n = 0"; cases "bs = []")
    (auto simp: fill.simps [of n "[]"] fill.simps [of 0 "[]"] fill.simps [of n bs]
      fill.simps [of n "take n bs"] Read_def flat_def)

lemma ReadFull_flat [flat_simps]:
  "ReadFull n (flat bs fin br) =
     (if n \<le> length bs then (Inr (take n bs), flat (drop n bs) fin br)
      else (Inl (if bs \<noteq> [] \<and> fin = EOF then ErrUnexpectedEOF else fin), flat [] fin br))"
  by (simp add: ReadFull_def fill_flat)

lemma CopyN_flat [flat_simps]:
  "CopyN n (flat bs fin br) =
     (if n \<le> length bs then (Inr (take n bs), flat (drop n bs) fin br)
      else (Inl fin, flat [] fin br))"
  by (simp add: CopyN_def fill_flat)

lemma ReadByte_flat [flat_simps]:
  "ReadByte (flat bs fin br) =
     (case bs of [] \<Rightarrow> (Inl fin, flat [] fin br) | b # bs' \<Rightarrow> (Inr b, flat bs' fin br))"
  by (auto simp: ReadByte_def flat_def split: list.splits)

lemma ReadFrom_flat [flat_simps]:
  "ReadFrom (flat bs fin br) = (if fin = EOF then Inr bs else Inl fin, flat [] fin br)"
  by (simp add: ReadFrom_def)

lemma rret_app [flat_simps]: "rret v r = (Inr v, r)"
  by (simp add: rret_def)

lemma rfail_app [flat_simps]: "rfail e r = (Inl e, r)"
  by (simp add: rfail_def)

lemma rbind_app_Inr [flat_simps]: "m r = (Inr v, r') \<Longrightarrow> rbind m k r = k v r'"
  by (simp add: rbind_def)

lemma rbind_app_Inl [flat_simps]: "m r = (Inl e, r') \<Longrightarrow> rbind m k r = (Inl e, r')"
  by (simp add: rbind_def)

lemma rbind_Inr_conv:
  "rbind m k r = (Inr w, r'') \<longleftrightarrow> (\<exists>v r'. m r = (Inr v, r') \<and> k v r' = (Inr w, r''))"
  by (auto simp: rbind_def split: prod.splits sum.splits)

section \<open>Decoders see the bytes, not the chunks\<close>

definition same_stream :: "reader \<Rightarrow> reader \<Rightarrow> bool" where
  "same_stream r s \<longleftrightarrow> data r = data s \<and> final r = final s"

text \<open>
  What the callers of a decoder rely on: two readers with the same bytes and the same end give
  the same result and stay the same stream; a decoder only consumes from the front and does not
  change how the stream ends.
\<close>

locale stream_decoder =
  fixes dec :: "'a decoder"
  assumes respects: "same_stream r s \<Longrightarrow>
      fst (dec r) = fst (dec s) \<and> same_stream (snd (dec r)) (snd (dec s))"
    and consumes: "suffix (data (snd (dec r))) (data r)"
    and keeps_final: "final (snd (dec r)) = final r"
begin

lemma from_flat:
  assumes "dec (flat (data r) (final r) br) = (x, r')"
  shows "fst (dec r) = x \<and> data (snd (dec r)) = data r' \<and> final (snd (dec r)) = final r"
  using respects [of r "flat (data r) (final r) br"] keeps_final [of r] assms
  by (simp add: same_stream_def)

lemma on_flat:
  assumes "dec r = (x, r')"
  shows "fst (dec (flat (data r) (final r) br)) = x \<and>
    data (snd (dec (flat (data r) (final r) br))) = data r'"
  using respects [of r "flat (data r) (final r) br"] assms
  by (simp add: same_stream_def)

end

lemma same_stream_refl [simp]: "same_stream r r"
  by (simp add: same_stream_def)

text \<open>A decoder whose three results are functions of the bytes and the end is one.\<close>

lemma stream_decoderI:
  assumes "\<And>r. fst (dec r) = f (data r) (final r)"
    and "\<And>r. data (snd (dec r)) = drop (g (data r) (final r)) (data r)"
    and "\<And>r. final (snd (dec r)) = final r"
  shows "stream_decoder dec"
  by unfold_locales (simp_all add: assms same_stream_def suffix_drop)

lemma ReadFull_decoder [decoder_intros]: "stream_decoder (ReadFull n)"
  by (rule stream_decoderI) (rule ReadFull_eq)+

lemma CopyN_decoder [decoder_intros]: "stream_decoder (CopyN n)"
  by (rule stream_decoderI) (rule CopyN_eq)+

lemma ReadByte_decoder [decoder_intros]: "stream_decoder ReadByte"
  by (rule stream_decoderI) (rule ReadByte_eq)+

lemma ReadFrom_decoder [decoder_intros]: "stream_decoder ReadFrom"
  by (rule stream_decoderI [where f = "\<lambda>bs fin. if fin = EOF then Inr bs else Inl fin"
        and g = "\<lambda>bs fin. length bs"])
    (simp_all add: ReadFrom_def)

lemma rret_decoder [decoder_intros]: "stream_decoder (rret v)"
  by unfold_locales (simp_all add: rret_def)

lemma rfail_decoder [decoder_intros]: "stream_decoder (rfail e)"
  by unfold_locales (simp_all add: rfail_def)

lemma if_decoder [decoder_intros]:
  "stream_decoder f \<Longrightarrow> stream_decoder g \<Longrightarrow> stream_decoder (if b then f else g)"
  by simp

lemma rbind_decoder [decoder_intros]:
  assumes "stream_decoder m" and "\<And>v. stream_decoder (k v)"
  shows "stream_decoder (rbind m k)"
proof
  fix r s :: reader
  assume "same_stream r s"
  then have "fst (m r) = fst (m s)" and "same_stream (snd (m r)) (snd (m s))"
    using stream_decoder.respects [OF assms(1)] by blast+
  then show "fst (rbind m k r) = fst (rbind m k s) \<and>
      same_stream (snd (rbind m k r)) (snd (rbind m k s))"
    using stream_decoder.respects [OF assms(2)]
    by (auto simp: rbind_def split: prod.splits sum.splits)
next
  fix r :: reader
  have 1: "suffix (data (snd (m r))) (data r)" "final (snd (m r)) = final r"
    by (rule stream_decoder.consumes [OF assms(1)], rule stream_decoder.keeps_final [OF assms(1)])
  have 2: "suffix (data (snd (k v r'))) (data r')" "final (snd (k v r')) = final r'" for v r'
    by (rule stream_decoder.consumes [OF assms(2)], rule stream_decoder.keeps_final [OF assms(2)])
  show "suffix (data (snd (rbind m k r))) (data r)"
  proof (cases "m r")
    case (Pair x r')
    with 1(1) 2(1) [of _ r'] show ?thesis
      by (cases x) (auto simp: rbind_def intro: suffix_order.trans)
  qed
  show "final (snd (rbind m k r)) = final r"
  proof (cases "m r")
    case (Pair x r')
    with 1(2) 2(2) [of _ r'] show ?thesis
      by (cases x) (auto simp: rbind_def)
  qed
qed

end
