(* ===== verification/PacketFields.thy ===== *)
theory PacketFields
  imports Readers
begin

text \<open>
  The primitive fields of an MQTT packet (\<^verbatim>\<open>packets.go\<close>, lines 390 to 454): bytes, big endian
  16 bit integers and length prefixed strings, read from an \<^verbatim>\<open>io.Reader\<close> and appended to a
  \<^verbatim>\<open>bytes.Buffer\<close>. A write buffer is the list of the bytes written so far.

  The interface \<open>field_codec\<close> states what the packet theories use of a field: decoding
  what was encoded gives the value back and leaves the rest of the stream, and a successful
  decoding consumed exactly an encoding of its result.
\<close>

section \<open>Definitions\<close>

definition maxFieldLength :: nat where
  "maxFieldLength = 65535"

definition decodeByte :: "byte decoder" where
  "decodeByte b =
     (if byteReader b then ReadByte b
      else rbind (ReadFull 1) (\<lambda>num. rret (num ! 0)) b)"

definition decodeUint16 :: "uint16 decoder" where
  "decodeUint16 =
     rbind (ReadFull 2) (\<lambda>num. rret (push_bit 8 (ucast (num ! 0)) OR ucast (num ! 1)))"

definition decodeBytes :: "bytes decoder" where
  "decodeBytes = rbind decodeUint16 (\<lambda>fieldLength. ReadFull (unat fieldLength))"

definition decodeString :: "gostring decoder" where
  "decodeString = rbind decodeBytes rret"

definition writeUint16 :: "bytes \<Rightarrow> uint16 \<Rightarrow> bytes" where
  "writeUint16 buf num = (buf @ [ucast (drop_bit 8 num)]) @ [ucast num]"

definition writeString :: "bytes \<Rightarrow> gostring \<Rightarrow> error + bytes" where
  "writeString buf field =
     (if length field > maxFieldLength
      then Inl (Wrap ErrFieldTooLong (fmt_d (length field) @ lit '' bytes''))
      else Inr (writeUint16 buf (of_nat (length field)) @ field))"

definition writeBytes :: "bytes \<Rightarrow> bytes \<Rightarrow> error + bytes" where
  "writeBytes buf field =
     (if length field > maxFieldLength
      then Inl (Wrap ErrFieldTooLong (fmt_d (length field) @ lit '' bytes''))
      else Inr (writeUint16 buf (of_nat (length field)) @ field))"

section \<open>Encodings as functions of the value\<close>

definition uint16_bytes :: "uint16 \<Rightarrow> bytes" where
  "uint16_bytes num = [ucast (drop_bit 8 num), ucast num]"

definition field_bytes :: "bytes \<Rightarrow> bytes" where
  "field_bytes field = uint16_bytes (of_nat (length field)) @ field"

lemma writeUint16_eq [wire_simps]: "writeUint16 buf num = buf @ uint16_bytes num"
  by (simp add: writeUint16_def uint16_bytes_def)

lemma writeString_Inr [wire_simps]:
  "length field \<le> 65535 \<Longrightarrow> writeString buf field = Inr (buf @ field_bytes field)"
  by (simp add: writeString_def maxFieldLength_def field_bytes_def writeUint16_eq)

lemma writeBytes_Inr [wire_simps]:
  "length field \<le> 65535 \<Longrightarrow> writeBytes buf field = Inr (buf @ field_bytes field)"
  by (simp add: writeBytes_def maxFieldLength_def field_bytes_def writeUint16_eq)

lemma writeString_too_long:
  "65535 < length field \<Longrightarrow> \<exists>d. writeString buf field = Inl (Wrap ErrFieldTooLong d)"
  by (simp add: writeString_def maxFieldLength_def)

lemma writeString_Inr_conv:
  "writeString buf field = Inr b \<longleftrightarrow> length field \<le> 65535 \<and> b = buf @ field_bytes field"
  by (auto simp: writeString_def maxFieldLength_def field_bytes_def writeUint16_eq)

lemma writeBytes_Inr_conv:
  "writeBytes buf field = Inr b \<longleftrightarrow> length field \<le> 65535 \<and> b = buf @ field_bytes field"
  by (auto simp: writeBytes_def maxFieldLength_def field_bytes_def writeUint16_eq)

lemma length_uint16_bytes [simp]: "length (uint16_bytes n) = 2"
  by (simp add: uint16_bytes_def)

lemma length_field_bytes [simp]: "length (field_bytes s) = 2 + length s"
  by (simp add: field_bytes_def)

section \<open>The interface of a field\<close>

locale field_codec = stream_decoder dec for dec :: "'a decoder" +
  fixes enc :: "'a \<Rightarrow> bytes"
    and ok :: "'a \<Rightarrow> bool"
  assumes decode_encode:
      "ok v \<Longrightarrow> dec (flat (enc v @ rest) fin br) = (Inr v, flat rest fin br)"
    and encode_decode: "dec r = (Inr v, r') \<Longrightarrow> ok v \<and> data r = enc v @ data r'"
begin

text \<open>However the network cuts the stream, the field at its front is read back.\<close>

lemma decode_stream:
  assumes "ok v" and "data r = enc v @ rest"
  shows "\<exists>r'. dec r = (Inr v, r') \<and> data r' = rest \<and> final r' = final r"
proof -
  have "dec (flat (data r) (final r) True) = (Inr v, flat rest (final r) True)"
    using decode_encode assms by simp
  from from_flat [OF this] show ?thesis
    by (metis data_flat prod.collapse)
qed

text \<open>Encodings are prefix free, so fields can be concatenated without separators.\<close>

lemma prefix_free:
  assumes "ok v" and "ok w" and "enc v @ xs = enc w @ ys"
  shows "v = w \<and> xs = ys"
proof -
  have "(Inr v, flat xs EOF True) = (Inr w :: error + 'a, flat ys EOF True)"
    using decode_encode [OF assms(1)] decode_encode [OF assms(2)] assms(3) by metis
  then show ?thesis by simp
qed

text \<open>A truncated field is never taken for a shorter one.\<close>

lemma truncated:
  assumes "ok v" and "enc v = p @ q" and "q \<noteq> []"
  shows "\<exists>e. fst (dec (flat p fin br)) = Inl e"
proof (rule ccontr)
  assume "\<not> ?thesis"
  then obtain w r' where "dec (flat p fin br) = (Inr w, r')"
    by (metis obj_sumE prod.collapse)
  then have w: "ok w" "p = enc w @ data r'"
    using encode_decode by fastforce+
  then have "enc v @ [] = enc w @ (data r' @ q)"
    using assms(2) by simp
  with prefix_free [OF assms(1) w(1)] assms(3) show False by blast
qed

end

section \<open>The fields of the codec\<close>

lemma decodeByte_eq:
  shows "fst (decodeByte r) = (if data r = [] then Inl (final r) else Inr (hd (data r)))"
    and "data (snd (decodeByte r)) = drop 1 (data r)"
    and "final (snd (decodeByte r)) = final r"
  using ReadByte_eq [of r] ReadFull_eq [of 1 r]
  by (cases "byteReader r"; cases "ReadFull 1 r"; cases "data r";
      simp add: decodeByte_def rbind_def rret_def)+

lemma decodeByte_decoder [decoder_intros]: "stream_decoder decodeByte"
  by (rule stream_decoderI) (rule decodeByte_eq)+

lemma decodeUint16_decoder [decoder_intros]: "stream_decoder decodeUint16"
  unfolding decodeUint16_def by (intro decoder_intros)

lemma decodeBytes_decoder [decoder_intros]: "stream_decoder decodeBytes"
  unfolding decodeBytes_def by (intro decoder_intros)

lemma rbind_rret [simp]: "rbind m rret = m"
  by (rule ext) (auto simp: rbind_def rret_def split: prod.splits sum.splits)

lemma decodeString_eq [simp]: "decodeString = decodeBytes"
  by (simp add: decodeString_def)

lemma decodeByte_flat [flat_simps]:
  "decodeByte (flat (b # bs) fin br) = (Inr b, flat bs fin br)"
  by (simp add: decodeByte_def flat_simps)

lemma decodeUint16_flat [flat_simps]:
  "decodeUint16 (flat (uint16_bytes n @ bs) fin br) = (Inr n, flat bs fin br)"
  by (simp add: decodeUint16_def uint16_bytes_def flat_simps uint16_split_join)

lemma decodeBytes_flat [flat_simps]:
  "length s \<le> 65535 \<Longrightarrow> decodeBytes (flat (field_bytes s @ bs) fin br) = (Inr s, flat bs fin br)"
  by (simp add: decodeBytes_def field_bytes_def flat_simps unat_uint16_of_nat)

lemma decodeBytes_flat_all [flat_simps]:
  "length s \<le> 65535 \<Longrightarrow> decodeBytes (flat (field_bytes s) fin br) = (Inr s, flat [] fin br)"
  using decodeBytes_flat [of s "[]"] by simp

lemma decodeUint16_flat_all [flat_simps]:
  "decodeUint16 (flat (uint16_bytes n) fin br) = (Inr n, flat [] fin br)"
  using decodeUint16_flat [of n "[]"] by simp

lemma decodeByte_Inr: "decodeByte r = (Inr b, r') \<Longrightarrow> data r = b # data r'"
  using decodeByte_eq(1,2) [of r] by (cases "data r") auto

lemma decodeUint16_Inr:
  assumes "decodeUint16 r = (Inr n, r')"
  shows "data r = uint16_bytes n @ data r'"
proof -
  from assms obtain b where b: "ReadFull 2 r = (Inr b, r')"
    and n: "n = push_bit 8 (ucast (b ! 0)) OR ucast (b ! 1)"
    by (auto simp: decodeUint16_def rbind_Inr_conv rret_def)
  from ReadFull_Inr [OF b] obtain x y where "b = [x, y]" "data r = [x, y] @ data r'"
    by (auto simp: length_two_conv)
  then show ?thesis
    using uint16_join_split_high [of x y] uint16_join_split_low [of x y]
    by (simp add: n uint16_bytes_def)
qed

lemma decodeBytes_Inr:
  assumes "decodeBytes r = (Inr s, r')"
  shows "length s \<le> 65535 \<and> data r = field_bytes s @ data r'"
proof -
  from assms obtain n r1 where n: "decodeUint16 r = (Inr n, r1)"
    and s: "ReadFull (unat n) r1 = (Inr s, r')"
    by (auto simp: decodeBytes_def rbind_Inr_conv)
  have "unat n < 2 ^ 16"
    using unsigned_less [of n] by simp
  with decodeUint16_Inr [OF n] ReadFull_Inr [OF s] show ?thesis
    by (auto simp: field_bytes_def)
qed

interpretation byte_field: field_codec decodeByte "\<lambda>b. [b]" "\<lambda>_. True"
  by (rule field_codec.intro [OF decodeByte_decoder], unfold_locales)
    (simp_all add: flat_simps decodeByte_Inr)

interpretation uint16_field: field_codec decodeUint16 uint16_bytes "\<lambda>_. True"
  by (rule field_codec.intro [OF decodeUint16_decoder], unfold_locales)
    (simp_all add: flat_simps decodeUint16_Inr)

interpretation bytes_field: field_codec decodeBytes field_bytes "\<lambda>s. length s \<le> 65535"
  by (rule field_codec.intro [OF decodeBytes_decoder], unfold_locales)
    (simp_all add: flat_simps decodeBytes_Inr)

end
