(* ===== verification/Writers.thy ===== *)
theory Writers
  imports Errors
begin

text \<open>
  \<^verbatim>\<open>io.Writer\<close>. A writer remembers what each \<^verbatim>\<open>Write\<close> call put on the wire, in order
  (\<open>calls\<close>), and what its coming calls will do (\<open>faults\<close>): \<open>None\<close> for a call that takes
  everything, \<open>Some (k, err)\<close> for one that takes at most \<open>k\<close> bytes and reports \<open>err\<close> if that
  is less than it was given; after the list every call takes everything, as those of
  \<^verbatim>\<open>bytes.Buffer\<close> do. So a writer may fail once and work again, as a connection does when its
  deadline is renewed. A \<^verbatim>\<open>Write\<close> returns an error exactly when it accepts less than it was
  asked to write, as the contract of the interface requires.
\<close>

record writer =
  calls :: "bytes list"
  faults :: "(nat \<times> error) option list"

definition sent :: "writer \<Rightarrow> bytes" where
  "sent w = concat (calls w)"

type_synonym write_result = "(nat \<times> error option) \<times> writer"

definition Write :: "writer \<Rightarrow> bytes \<Rightarrow> write_result" where
  "Write w b = (case faults w of
      Some (k, err) # fs \<Rightarrow>
        (if length b \<le> k
         then ((length b, None), w\<lparr>calls := calls w @ [b], faults := fs\<rparr>)
         else ((k, Some err), w\<lparr>calls := calls w @ [take k b], faults := fs\<rparr>))
    | _ \<Rightarrow> ((length b, None), w\<lparr>calls := calls w @ [b], faults := tl (faults w)\<rparr>))"

text \<open>A fresh \<^verbatim>\<open>bytes.Buffer\<close>.\<close>

definition newBuffer :: writer where
  "newBuffer = \<lparr>calls = [], faults = []\<rparr>"

lemma Write_sent: "Write w b = ((n, e), w') \<Longrightarrow> sent w' = sent w @ take n b \<and> n \<le> length b"
  by (auto simp: Write_def sent_def split: list.splits option.splits if_splits)

lemma Write_error_iff: "Write w b = ((n, e), w') \<Longrightarrow> e = None \<longleftrightarrow> n = length b"
  by (auto simp: Write_def split: list.splits option.splits if_splits)

lemma Write_no_faults:
  "faults w = [] \<Longrightarrow> Write w b = ((length b, None), w\<lparr>calls := calls w @ [b], faults := []\<rparr>)"
  by (simp add: Write_def)

lemma Write_newBuffer [simp]:
  "Write newBuffer b = ((length b, None), newBuffer\<lparr>calls := [b]\<rparr>)"
  by (simp add: Write_def newBuffer_def)

lemma sent_newBuffer [simp]: "sent (newBuffer\<lparr>calls := cs\<rparr>) = concat cs"
  by (simp add: sent_def)

end
