(* ===== verification/FixedHeaders.thy ===== *)
theory FixedHeaders
  imports PacketFields Writers
begin

text \<open>
  The fixed header of an MQTT packet and the framing of packets (\<^verbatim>\<open>packets.go\<close>): the packet
  type constants, the flag checks of \<^verbatim>\<open>unpack\<close>, the variable length encoding of the
  remaining length in both directions, and \<^verbatim>\<open>writePacket\<close>, which encodes the header in place
  in front of a body and issues one \<^verbatim>\<open>Write\<close>.

  A Go \<^verbatim>\<open>int\<close> has at least 32 bits and every length here is below 2 to the 28 plus 65537, so it
  is modelled by \<open>int\<close> (by \<open>nat\<close> where it is the length of a slice). A \<^verbatim>\<open>panic\<close> is the
  value \<open>None\<close>.
\<close>

section \<open>Packet types\<close>

abbreviation (input) Connect :: byte where "Connect \<equiv> 1"
abbreviation (input) Connack :: byte where "Connack \<equiv> 2"
abbreviation (input) Publish :: byte where "Publish \<equiv> 3"
abbreviation (input) Puback :: byte where "Puback \<equiv> 4"
abbreviation (input) Pubrec :: byte where "Pubrec \<equiv> 5"
abbreviation (input) Pubrel :: byte where "Pubrel \<equiv> 6"
abbreviation (input) Pubcomp :: byte where "Pubcomp \<equiv> 7"
abbreviation (input) Subscribe :: byte where "Subscribe \<equiv> 8"
abbreviation (input) Suback :: byte where "Suback \<equiv> 9"
abbreviation (input) Unsubscribe :: byte where "Unsubscribe \<equiv> 10"
abbreviation (input) Unsuback :: byte where "Unsuback \<equiv> 11"
abbreviation (input) Pingreq :: byte where "Pingreq \<equiv> 12"
abbreviation (input) Pingresp :: byte where "Pingresp \<equiv> 13"
abbreviation (input) Disconnect :: byte where "Disconnect \<equiv> 14"

definition PacketNames :: "byte \<Rightarrow> gostring" where
  "PacketNames t =
     (if t = 1 then lit ''CONNECT'' else if t = 2 then lit ''CONNACK''
      else if t = 3 then lit ''PUBLISH'' else if t = 4 then lit ''PUBACK''
      else if t = 5 then lit ''PUBREC'' else if t = 6 then lit ''PUBREL''
      else if t = 7 then lit ''PUBCOMP'' else if t = 8 then lit ''SUBSCRIBE''
      else if t = 9 then lit ''SUBACK'' else if t = 10 then lit ''UNSUBSCRIBE''
      else if t = 11 then lit ''UNSUBACK'' else if t = 12 then lit ''PINGREQ''
      else if t = 13 then lit ''PINGRESP'' else if t = 14 then lit ''DISCONNECT''
      else [])"

definition MaxRemainingLength :: int where
  "MaxRemainingLength = 268435455"

section \<open>The fixed header\<close>

record FixedHeader =
  MessageType :: byte
  Dup :: bool
  Qos :: byte
  Retain :: bool
  RemainingLength :: int

definition FixedHeader_String :: "FixedHeader \<Rightarrow> gostring" where
  "FixedHeader_String fh =
     PacketNames (MessageType fh) @ lit '': dup: '' @ fmt_t (Dup fh) @
     lit '' qos: '' @ fmt_d (unat (Qos fh)) @ lit '' retain: '' @ fmt_t (Retain fh) @
     lit '' rLength: '' @ fmt_int (RemainingLength fh)"

definition FixedHeader_Type :: "FixedHeader \<Rightarrow> byte" where
  "FixedHeader_Type fh = MessageType fh"

definition boolToByte :: "bool \<Rightarrow> byte" where
  "boolToByte b = (if b then 1 else 0)"

text \<open>
  \<^verbatim>\<open>decodeLength\<close>: the loop with its two \<^verbatim>\<open>uint32\<close> variables. It stops because the
  shift grows by 7 and a shift above 21 ends it.
\<close>

function decodeLength_loop :: "uint32 \<Rightarrow> uint32 \<Rightarrow> int decoder" where
  "decodeLength_loop rLength multiplier r =
     (if multiplier > 21 then (Inl ErrMalformedRemainingLength, r)
      else case ReadFull 1 r of
        (Inl e, r') \<Rightarrow> (Inl e, r')
      | (Inr b, r') \<Rightarrow>
          (let digit = b ! 0;
               rLength' = rLength OR push_bit (unat multiplier) (ucast (digit AND 127))
           in if digit AND 128 = 0 then (Inr (uint rLength'), r')
              else decodeLength_loop rLength' (multiplier + 7) r'))"
  by pat_completeness auto
termination
proof (relation "measure (\<lambda>(l, m, r). 28 - unat m)", goal_cases)
  case (2 l m r)
  then have "unat m \<le> 21"
    by (simp add: word_le_nat_alt linorder_not_less)
  then have "unat (m + 7) = unat m + 7"
    by (simp add: unat_word_ariths)
  with \<open>unat m \<le> 21\<close> show ?case by simp
qed simp

declare decodeLength_loop.simps [simp del]

definition decodeLength :: "int decoder" where
  "decodeLength = decodeLength_loop 0 0"

text \<open>\<^verbatim>\<open>unpack\<close>: the header fields of the first byte, the flag checks, the remaining length.\<close>

definition checkFlags :: "byte \<Rightarrow> byte \<Rightarrow> byte \<Rightarrow> error option" where
  "checkFlags messageType qos flags =
     (if messageType = Publish then
        (if qos = 3 then Some (Wrap ErrInvalidFixedHeaderFlags (lit ''publish with qos 3''))
         else None)
      else if messageType = Pubrel \<or> messageType = Subscribe \<or> messageType = Unsubscribe then
        (if flags AND NOT 0x08 \<noteq> 0x02
         then Some (Wrap ErrInvalidFixedHeaderFlags
           (PacketNames messageType @ lit '' flags 0x'' @ fmt_x (unat flags)))
         else None)
      else
        (if flags \<noteq> 0x00
         then Some (Wrap ErrInvalidFixedHeaderFlags
           (PacketNames messageType @ lit '' flags 0x'' @ fmt_x (unat flags)))
         else None))"

definition unpack :: "byte \<Rightarrow> FixedHeader decoder" where
  "unpack typeAndFlags =
     (let messageType = drop_bit 4 typeAndFlags;
          dup = (drop_bit 3 typeAndFlags AND 0x01 > 0);
          qos = drop_bit 1 typeAndFlags AND 0x03;
          retain = (typeAndFlags AND 0x01 > 0);
          flags = typeAndFlags AND 0x0F
      in if messageType < Connect \<or> messageType > Disconnect
         then rfail (NewError (lit ''invalid mqtt flag(messagetype)''))
         else case checkFlags messageType qos flags of
           Some e \<Rightarrow> rfail e
         | None \<Rightarrow> rbind decodeLength (\<lambda>n. rret
             \<lparr>MessageType = messageType, Dup = dup, Qos = qos, Retain = retain,
              RemainingLength = n\<rparr>))"

section \<open>Writing a packet\<close>

definition fixedHeaderReserve :: nat where
  "fixedHeaderReserve = 5"

definition headerPad :: bytes where
  "headerPad = replicate fixedHeaderReserve 0"

text \<open>
  \<^verbatim>\<open>newBody\<close>: a pooled buffer, whatever it held before, reset and padded. The pool itself, with
  \<^verbatim>\<open>putBody\<close>, is modelled in \<open>BufferPools\<close>.
\<close>

definition newBody :: "bytes \<Rightarrow> bytes" where
  "newBody pooled = take 0 pooled @ headerPad"

text \<open>
  The digit loop of \<^verbatim>\<open>writePacket\<close>: it fills the four byte array \<^verbatim>\<open>enc\<close> from index
  \<open>n\<close>; a fifth digit would be an index out of range.
\<close>

fun encodeLength_loop :: "bytes \<Rightarrow> nat \<Rightarrow> nat \<Rightarrow> (bytes \<times> nat) option" where
  "encodeLength_loop enc n l =
     (let digit = of_nat (l mod 128);
          l' = l div 128;
          digit' = (if l' > 0 then digit OR 0x80 else digit)
      in if n < length enc then
           (if l' = 0 then Some (enc[n := digit'], Suc n)
            else encodeLength_loop (enc[n := digit']) (Suc n) l')
         else None)"

declare encodeLength_loop.simps [simp del]

definition header_byte :: "FixedHeader \<Rightarrow> byte" where
  "header_byte fh = push_bit 4 (MessageType fh) OR push_bit 3 (boolToByte (Dup fh)) OR
     push_bit 1 (Qos fh) OR boolToByte (Retain fh)"

text \<open>\<^verbatim>\<open>copy(buf[i:], src)\<close>: overwrites from index \<open>i\<close>, never extends.\<close>

definition copy_at :: "bytes \<Rightarrow> nat \<Rightarrow> bytes \<Rightarrow> bytes" where
  "copy_at buf i src = take i buf @ take (length buf - i) src @ drop (i + length src) buf"

definition writePacket :: "writer \<Rightarrow> FixedHeader \<Rightarrow> bytes \<Rightarrow> write_result option" where
  "writePacket w fh body =
     (let remaining = length body - fixedHeaderReserve
      in if int remaining > MaxRemainingLength then Some ((0, Some ErrPacketTooLarge), w)
         else if Qos fh > 2 then
           Some ((0, Some (Wrap ErrInvalidQoS (lit ''qos '' @ fmt_d (unat (Qos fh))))), w)
         else case encodeLength_loop (replicate 4 0) 0 remaining of
           None \<Rightarrow> None
         | Some (enc, n) \<Rightarrow>
             (let start = fixedHeaderReserve - 1 - n;
                  buf = body[start := header_byte fh];
                  buf' = copy_at buf (start + 1) (take n enc)
              in Some (Write w (drop start buf'))))"

section \<open>The in-place encoder is the plain one\<close>

text \<open>The reference encoding of a remaining length.\<close>

fun encodeLength :: "nat \<Rightarrow> bytes" where
  "encodeLength l =
     (if l < 128 then [of_nat l] else (of_nat (l mod 128) OR 0x80) # encodeLength (l div 128))"

declare encodeLength.simps [simp del]

lemma length_encodeLength: "l < 128 ^ k \<Longrightarrow> 0 < k \<Longrightarrow> length (encodeLength l) \<le> k"
proof (induction k arbitrary: l)
  case (Suc k)
  show ?case
  proof (cases "l < 128")
    case False
    with Suc.prems have "l div 128 < 128 ^ k" and "0 < k"
      by (auto simp: div_less_iff_less_mult mult.commute intro: Suc_lessI) (cases k, auto)
    with Suc.IH [of "l div 128"] False show ?thesis
      by (simp add: encodeLength.simps [of l])
  qed (simp add: encodeLength.simps [of l])
qed simp

lemma encodeLength_loop_eq:
  "length enc = n + k \<Longrightarrow> l < 128 ^ k \<Longrightarrow> 0 < k \<Longrightarrow>
     encodeLength_loop enc n l =
       Some (take n enc @ encodeLength l @ drop (n + length (encodeLength l)) enc,
             n + length (encodeLength l))"
proof (induction k arbitrary: enc n l)
  case (Suc k)
  have n: "n < length enc" using Suc.prems by simp
  show ?case
  proof (cases "l < 128")
    case True
    with n show ?thesis
      by (simp add: encodeLength_loop.simps [of enc n l] encodeLength.simps [of l]
          upd_conv_take_nth_drop)
  next
    case False
    with Suc.prems have k: "l div 128 < 128 ^ k" "0 < k"
      by (auto simp: div_less_iff_less_mult mult.commute) (cases k, auto)
    let ?d = "of_nat (l mod 128) OR 0x80 :: byte"
    have "encodeLength_loop enc n l = encodeLength_loop (enc[n := ?d]) (Suc n) (l div 128)"
      using n False by (simp add: encodeLength_loop.simps [of enc n l] Let_def div_eq_0_iff)
    also have "\<dots> = Some (take (Suc n) (enc[n := ?d]) @ encodeLength (l div 128) @
        drop (Suc n + length (encodeLength (l div 128))) (enc[n := ?d]),
        Suc n + length (encodeLength (l div 128)))"
      using Suc.prems k by (intro Suc.IH) auto
    finally show ?thesis
      using False n by (simp add: encodeLength.simps [of l] take_Suc_conv_app_nth)
  qed
qed simp

lemma encodeLength_loop_array:
  assumes "int l \<le> MaxRemainingLength"
  shows "encodeLength_loop (replicate 4 0) 0 l =
      Some (encodeLength l @ replicate (4 - length (encodeLength l)) 0, length (encodeLength l))"
    and "length (encodeLength l) \<le> 4"
proof -
  have l: "l < 128 ^ 4"
    using assms by (simp add: MaxRemainingLength_def)
  then show "length (encodeLength l) \<le> 4"
    by (rule length_encodeLength) simp
  then show "encodeLength_loop (replicate 4 0) 0 l =
      Some (encodeLength l @ replicate (4 - length (encodeLength l)) 0, length (encodeLength l))"
    using encodeLength_loop_eq [of "replicate 4 0" 0 4 l] l by simp
qed

lemma writePacket_eq:
  assumes "int (length content) \<le> MaxRemainingLength" and "Qos fh \<le> 2"
  shows "writePacket w fh (newBody pooled @ content) =
    Some (Write w (header_byte fh # encodeLength (length content) @ content))"
proof -
  define k where "k = length (encodeLength (length content))"
  have k: "k \<le> 4"
    using encodeLength_loop_array(2) [OF assms(1)] by (simp add: k_def)
  have "drop (4 - k) (copy_at ((newBody pooled @ content)[4 - k := header_byte fh]) (4 - k + 1)
      (encodeLength (length content))) = header_byte fh # encodeLength (length content) @ content"
    using k unfolding k_def [symmetric]
    by (auto simp: copy_at_def newBody_def headerPad_def fixedHeaderReserve_def list_update_append
       k_def [symmetric] upd_conv_take_nth_drop)
  moreover have "\<not> Qos fh > 2"
    using assms(2) by (simp add: linorder_not_less)
  ultimately show ?thesis
    using assms(1) encodeLength_loop_array(1) [OF assms(1)] k
    by (simp add: writePacket_def newBody_def headerPad_def fixedHeaderReserve_def k_def Let_def)
qed

section \<open>The remaining length\<close>

lemma nat_or_push_bit:
  fixes a d :: nat
  assumes "a < 2 ^ m"
  shows "a OR push_bit m d = a + d * 2 ^ m"
proof -
  have "\<not> bit a n \<or> \<not> bit (push_bit m d) n" for n
    using assms by (metis bit_push_bit_iff_nat bit_take_bit_iff linorder_not_less take_bit_nat_eq_self)
  then have "a + push_bit m d = a OR push_bit m d"
    by (rule disjunctive_add)
  then show ?thesis
    by (simp add: push_bit_eq_mult)
qed

lemma unat_or_push_bit:
  assumes "unat (acc :: uint32) < 2 ^ m" and "m \<le> 21"
  shows "unat (acc OR push_bit m (ucast (digit AND 127))) =
      unat acc + unat (digit AND 127 :: byte) * 2 ^ m"
proof -
  have d: "unat (digit AND 127) \<le> 127"
    using word_and_le1 [of digit 127] by (simp add: word_le_nat_alt)
  then have "unat (digit AND 127) * 2 ^ m \<le> 127 * 2 ^ 21"
    using assms(2) by (intro mult_le_mono power_increasing) auto
  then have "unat (push_bit m (ucast (digit AND 127) :: uint32)) = push_bit m (unat (digit AND 127))"
    using d unfolding unsigned_push_bit_eq unsigned_ucast_eq
    by (simp add: take_bit_nat_eq_self push_bit_eq_mult)
  then show ?thesis
    using nat_or_push_bit [OF assms(1)] by (simp add: unsigned_or_eq)
qed

lemma continuation_digit:
  assumes "d < 128"
  shows "(of_nat d OR 0x80 :: byte) AND 127 = of_nat d"
    and "(of_nat d OR 0x80 :: byte) AND 128 \<noteq> 0"
    and "(of_nat d :: byte) AND 127 = of_nat d"
    and "(of_nat d :: byte) AND 128 = 0"
proof -
  have "unat (of_nat d :: byte) < 2 ^ 7"
    using assms by (simp add: unat_of_nat)
  then have "\<not> bit (of_nat d :: byte) 7"
    by (rule high_bits) simp
  then show "(of_nat d OR 0x80 :: byte) AND 127 = of_nat d"
    and "(of_nat d OR 0x80 :: byte) AND 128 \<noteq> 0"
    and "(of_nat d :: byte) AND 127 = of_nat d"
    and "(of_nat d :: byte) AND 128 = 0"
    unfolding byte_eq_bits by (simp_all add: byte_bit_simps)
qed

lemma decodeLength_loop_Cons:
  "m \<le> 21 \<Longrightarrow> decodeLength_loop acc m (flat (d # bs) fin br) =
     (let acc' = acc OR push_bit (unat m) (ucast (d AND 127))
      in if d AND 128 = 0 then (Inr (uint acc'), flat bs fin br)
         else decodeLength_loop acc' (m + 7) (flat bs fin br))"
  by (frule leD) (simp add: decodeLength_loop.simps [of acc m] flat_simps Let_def)

lemma decodeLength_loop_Nil:
  "m \<le> 21 \<Longrightarrow> decodeLength_loop acc m (flat [] fin br) = (Inl fin, flat [] fin br)"
  by (frule leD) (simp add: decodeLength_loop.simps [of acc m] flat_simps)

lemma decodeLength_loop_over:
  "21 < m \<Longrightarrow> decodeLength_loop acc m r = (Inl ErrMalformedRemainingLength, r)"
  by (simp add: decodeLength_loop.simps [of acc m])

text \<open>The value of a digit sequence, least significant digit first.\<close>

fun lengthValue :: "bytes \<Rightarrow> nat" where
  "lengthValue [] = 0"
| "lengthValue (d # ds) = unat (d AND 127) + 128 * lengthValue ds"

text \<open>A complete sequence: the continuation bit is set on all digits but the last.\<close>

fun length_digits :: "bytes \<Rightarrow> bool" where
  "length_digits [] = False"
| "length_digits [d] = (d AND 128 = 0)"
| "length_digits (d # ds) = (d AND 128 \<noteq> 0 \<and> length_digits ds)"

lemma decodeLength_loop_digits:
  "length_digits ds \<Longrightarrow> unat m = 7 * j \<Longrightarrow> j + length ds \<le> 4 \<Longrightarrow> unat acc < 2 ^ (7 * j) \<Longrightarrow>
     decodeLength_loop acc m (flat (ds @ bs) fin br) =
       (Inr (int (unat acc + lengthValue ds * 2 ^ (7 * j))), flat bs fin br)"
proof (induction ds arbitrary: m j acc rule: length_digits.induct)
  case (2 d)
  then have m: "m \<le> 21" "7 * j \<le> 21"
    by (auto simp: word_le_nat_alt)
  with 2 arg_cong [OF unat_or_push_bit [of acc "7 * j" d], of int] show ?case
    by (simp add: decodeLength_loop_Cons)
next
  case (3 d d' ds)
  then have m: "m \<le> 21" "7 * j \<le> 21"
    by (auto simp: word_le_nat_alt)
  define acc' where "acc' = acc OR push_bit (7 * j) (ucast (d AND 127))"
  have a: "unat acc' = unat acc + unat (d AND 127) * 2 ^ (7 * j)"
    unfolding acc'_def using 3 m by (intro unat_or_push_bit) auto
  have d: "unat (d AND 127) \<le> 127"
    using word_and_le1 [of d 127] by (simp add: word_le_nat_alt)
  then have le: "unat (d AND 127) * 2 ^ (7 * j) \<le> 127 * 2 ^ (7 * j)"
    by (intro mult_le_mono) auto
  have "(2::nat) ^ (7 * Suc j) = 128 * 2 ^ (7 * j)"
    by (simp add: power_add)
  then have "unat acc' < 2 ^ (7 * Suc j)"
    using a "3.prems"(4) le by linarith
  moreover have "unat (m + 7) = 7 * Suc j"
    using 3 m by (simp add: unat_word_ariths)
  ultimately have "decodeLength_loop acc' (m + 7) (flat ((d' # ds) @ bs) fin br) =
      (Inr (int (unat acc' + lengthValue (d' # ds) * 2 ^ (7 * Suc j))), flat bs fin br)"
    using 3 by (intro "3.IH") auto
  moreover have "decodeLength_loop acc m (flat ((d # d' # ds) @ bs) fin br) =
      decodeLength_loop acc' (m + 7) (flat ((d' # ds) @ bs) fin br)"
    using 3 m by (simp add: decodeLength_loop_Cons acc'_def)
  ultimately have "decodeLength_loop acc m (flat ((d # d' # ds) @ bs) fin br) =
      (Inr (int (unat acc' + lengthValue (d' # ds) * 2 ^ (7 * Suc j))), flat bs fin br)"
    by simp
  then show ?case
    unfolding a by (simp add: power_add algebra_simps)
qed simp

lemma encodeLength_digits:
  "length_digits (encodeLength l) \<and> lengthValue (encodeLength l) = l"
proof (induction l rule: encodeLength.induct)
  case (1 l)
  show ?case
  proof (cases "l < 128")
    case True
    then show ?thesis
      by (simp add: encodeLength.simps [of l] continuation_digit unat_of_nat)
  next
    case False
    then have "encodeLength (l div 128) \<noteq> []"
      by (subst encodeLength.simps) simp
    with 1 False show ?thesis
      by (cases "encodeLength (l div 128)")
        (auto simp: encodeLength.simps [of l] continuation_digit unat_of_nat)
  qed
qed

lemma decodeLength_encodeLength:
  assumes "int l \<le> MaxRemainingLength"
  shows "decodeLength (flat (encodeLength l @ bs) fin br) = (Inr (int l), flat bs fin br)"
  using decodeLength_loop_digits [of "encodeLength l" 0 0 0 bs fin br] encodeLength_digits [of l]
    encodeLength_loop_array(2) [OF assms]
  by (simp add: decodeLength_def)

lemma length_digits_append [simp]:
  "length_digits (ds @ [d]) \<longleftrightarrow> (\<forall>x \<in> set ds. x AND 128 \<noteq> 0) \<and> d AND 128 = 0"
proof (induction ds)
  case (Cons x ds)
  then show ?case by (cases ds) auto
qed simp

lemma decodeLength_malformed:
  assumes "length ds = 4" and "\<forall>d \<in> set ds. d AND 128 \<noteq> 0"
  shows "decodeLength (flat (ds @ bs) fin br) = (Inl ErrMalformedRemainingLength, flat bs fin br)"
proof -
  from assms(1) obtain a b c d where "ds = [a, b, c, d]"
    by (auto simp: length_Suc_conv eval_nat_numeral)
  with assms(2) show ?thesis
    by (simp add: decodeLength_def decodeLength_loop_Cons decodeLength_loop_over)
qed

lemma decodeLength_short:
  assumes "length ds < 4" and "\<forall>d \<in> set ds. d AND 128 \<noteq> 0"
  shows "decodeLength (flat ds fin br) = (Inl fin, flat [] fin br)"
proof -
  consider "ds = []" | a where "ds = [a]" | a b where "ds = [a, b]" | a b c where "ds = [a, b, c]"
    using assms(1) by (cases ds; cases "tl ds"; cases "tl (tl ds)"; cases "tl (tl (tl ds))") auto
  then show ?thesis
    using assms(2)
    by cases (simp_all add: decodeLength_def decodeLength_loop_Cons decodeLength_loop_Nil)
qed

lemma decodeLength_complete:
  assumes "length_digits ds" and "length ds \<le> 4"
  shows "decodeLength (flat (ds @ bs) fin br) = (Inr (int (lengthValue ds)), flat bs fin br)"
  using decodeLength_loop_digits [of ds 0 0 0 bs fin br] assms by (simp add: decodeLength_def)

lemma length_bytes_cases [case_names complete malformed short]:
  obtains ds rest where "bs = ds @ rest" "length_digits ds" "length ds \<le> 4"
  | ds rest where "bs = ds @ rest" "length ds = 4" "\<forall>d \<in> set ds. d AND 128 \<noteq> 0"
  | "length bs < 4" "\<forall>d \<in> set bs. d AND 128 \<noteq> 0"
proof -
  let ?p = "takeWhile (\<lambda>d. d AND 128 \<noteq> 0) bs"
  have p: "\<forall>d \<in> set ?p. d AND 128 \<noteq> 0"
    by (auto dest: set_takeWhileD)
  show thesis
  proof (cases "length ?p < 4")
    case False
    then have l: "length (take 4 ?p) = 4"
      and "bs = take 4 ?p @ (drop 4 ?p @ dropWhile (\<lambda>d. d AND 128 \<noteq> 0) bs)"
      by (simp_all flip: append_assoc)
    moreover have "\<forall>d \<in> set (take 4 ?p). d AND 128 \<noteq> 0"
      using p by (meson in_set_takeD)
    ultimately show thesis
      by (intro that(2))
  next
    case True
    show thesis
    proof (cases "dropWhile (\<lambda>d. d AND 128 \<noteq> 0) bs")
      case Nil
      then have "?p = bs" by (metis append_Nil2 takeWhile_dropWhile_id)
      with True p show thesis by (intro that(3)) auto
    next
      case (Cons d rest)
      then have eq: "bs = (?p @ [d]) @ rest" and d: "d AND 128 = 0"
        using takeWhile_dropWhile_id [of "\<lambda>d. d AND 128 \<noteq> 0" bs]
        by (auto simp: dropWhile_eq_Cons_conv)
      have "length_digits (?p @ [d])" and "length (?p @ [d]) \<le> 4"
        using p d True by simp_all
      with eq show thesis by (rule that(1))
    qed
  qed
qed

lemma lengthValue_bound: "lengthValue ds < 128 ^ length ds"
proof (induction ds)
  case (Cons d ds)
  have "unat (d AND 127) \<le> 127"
    using word_and_le1 [of d 127] by (simp add: word_le_nat_alt)
  with Cons show ?case by simp
qed simp

lemma decodeLength_loop_point_free:
  "decodeLength_loop acc m =
     (if m > 21 then rfail ErrMalformedRemainingLength
      else rbind (ReadFull 1) (\<lambda>b.
        if b ! 0 AND 128 = 0
        then rret (uint (acc OR push_bit (unat m) (ucast (b ! 0 AND 127))))
        else decodeLength_loop (acc OR push_bit (unat m) (ucast (b ! 0 AND 127))) (m + 7)))"
  by (rule ext) (simp add: decodeLength_loop.simps [of acc m] rbind_def rfail_def rret_def Let_def
      split: prod.splits sum.splits)

lemma decodeLength_loop_decoder: "stream_decoder (decodeLength_loop acc m)"
proof (induction "28 - unat m" arbitrary: acc m rule: less_induct)
  case less
  show ?case
  proof (cases "m > 21")
    case True
    then show ?thesis
      by (subst decodeLength_loop_point_free) (simp add: rfail_decoder)
  next
    case False
    then have "unat (m + 7) = unat m + 7" and "unat m \<le> 21"
      by (auto simp: word_less_nat_alt linorder_not_less unat_word_ariths)
    then have "stream_decoder (decodeLength_loop a (m + 7))" for a
      by (intro less) simp
    with False show ?thesis
      by (subst decodeLength_loop_point_free) (simp, intro decoder_intros)
  qed
qed

lemma decodeLength_decoder [decoder_intros]: "stream_decoder decodeLength"
  unfolding decodeLength_def by (rule decodeLength_loop_decoder)

text \<open>A successful decoding consumed a complete digit sequence and returned its value.\<close>

lemma decodeLength_Inr:
  assumes "decodeLength r = (Inr n, r')"
  obtains ds where "length_digits ds" and "length ds \<le> 4"
    and "data r = ds @ data r'" and "n = int (lengthValue ds)"
proof -
  have f: "fst (decodeLength (flat (data r) (final r) True)) = Inr n"
    "data (snd (decodeLength (flat (data r) (final r) True))) = data r'"
    using stream_decoder.on_flat [OF decodeLength_decoder assms, of True] by auto
  show thesis
  proof (cases "data r" rule: length_bytes_cases)
    case (complete ds rest)
    with f show thesis
      by (intro that [of ds]) (auto simp: decodeLength_complete)
  next
    case (malformed ds rest)
    with f show thesis by (simp add: decodeLength_malformed)
  next
    case short
    with f show thesis by (simp add: decodeLength_short)
  qed
qed

lemma decodeLength_bounds:
  assumes "decodeLength r = (Inr n, r')"
  shows "0 \<le> n \<and> n \<le> MaxRemainingLength"
proof -
  from assms obtain ds where ds: "length ds \<le> 4" "n = int (lengthValue ds)"
    by (rule decodeLength_Inr)
  have "lengthValue ds < 128 ^ 4"
    using lengthValue_bound [of ds] power_increasing [OF ds(1), of "128::nat"] by simp
  with ds(2) show ?thesis by (simp add: MaxRemainingLength_def)
qed

section \<open>Header bytes\<close>

text \<open>
  The headers the codec accepts (table 2.2 of the protocol, with the duplicate bit tolerated on
  the packets whose flags are fixed at 0010).
\<close>

definition header_ok :: "FixedHeader \<Rightarrow> bool" where
  "header_ok fh \<longleftrightarrow>
     1 \<le> MessageType fh \<and> MessageType fh \<le> 14 \<and>
     (if MessageType fh = Publish then Qos fh \<le> 2
      else if MessageType fh \<in> {Pubrel, Subscribe, Unsubscribe} then Qos fh = 1 \<and> \<not> Retain fh
      else Qos fh = 0 \<and> \<not> Dup fh \<and> \<not> Retain fh)"

lemma header_byte_fields:
  assumes "MessageType fh < 16" and "Qos fh < 4"
  shows "drop_bit 4 (header_byte fh) = MessageType fh"
    and "drop_bit 3 (header_byte fh) AND 1 = boolToByte (Dup fh)"
    and "drop_bit 1 (header_byte fh) AND 3 = Qos fh"
    and "header_byte fh AND 1 = boolToByte (Retain fh)"
  using high_bits_16 [OF assms(1)] high_bits_4 [OF assms(2)]
  unfolding byte_eq_bits header_byte_def boolToByte_def
  by (simp_all add: byte_bit_simps)

lemma boolToByte_pos [simp]: "boolToByte b > 0 \<longleftrightarrow> b"
  by (simp add: boolToByte_def)

text \<open>The flag nibble and the whole byte, from the fields they hold.\<close>

lemma bit_field_pos: "(x AND 1 > 0) = bit x 0" for x :: byte
  by (simp add: word_gt_0 and_one_eq bit_0 odd_iff_mod_2_eq_one)

lemma bit_field_pos': "(1 AND x > 0) = bit x 0" for x :: byte
  using bit_field_pos [of x] by (simp only: and.commute)

lemma flag_nibble_zero:
  "t AND 0x0F = 0 \<longleftrightarrow>
     drop_bit 1 t AND 3 = 0 \<and> \<not> drop_bit 3 t AND 1 > 0 \<and> \<not> t AND 1 > 0" for t :: byte
  unfolding bit_field_pos byte_eq_bits by (simp add: byte_bit_simps) blast

lemma flag_nibble_two:
  "(t AND 0x0F) AND NOT 0x08 = 0x02 \<longleftrightarrow> drop_bit 1 t AND 3 = 1 \<and> \<not> t AND 1 > 0" for t :: byte
  unfolding bit_field_pos byte_eq_bits by (simp add: byte_bit_simps) blast

lemma qos_field_le: "drop_bit 1 t AND 3 = 3 \<longleftrightarrow> \<not> drop_bit 1 t AND 3 \<le> 2" for t :: byte
proof -
  have "unat (drop_bit 1 t AND 3) \<le> 3"
    using word_and_le1 [of "drop_bit 1 t" 3] by (simp add: word_le_nat_alt)
  then show ?thesis
    by (simp add: word_le_nat_alt word_unat_eq_iff) arith
qed

text \<open>The header a first byte and a remaining length stand for.\<close>

definition header_of :: "byte \<Rightarrow> int \<Rightarrow> FixedHeader" where
  "header_of t n = \<lparr>MessageType = drop_bit 4 t, Dup = (drop_bit 3 t AND 1 > 0),
     Qos = drop_bit 1 t AND 3, Retain = (t AND 1 > 0), RemainingLength = n\<rparr>"

lemma header_byte_of [simp]: "header_byte (header_of t n) = t"
  unfolding header_byte_def header_of_def boolToByte_def byte_eq_bits FixedHeader.simps bit_field_pos
  by (simp add: byte_bit_simps)

lemma header_ok_length [simp]: "header_ok (fh\<lparr>RemainingLength := n\<rparr>) = header_ok fh"
  by (simp add: header_ok_def)

lemma header_ok_header_of: "header_ok (header_of t n) = header_ok (header_of t m)"
  by (simp add: header_ok_def header_of_def)

lemma header_of_byte:
  assumes "header_ok fh"
  shows "header_of (header_byte fh) n = fh\<lparr>RemainingLength := n\<rparr>"
proof -
  have "MessageType fh < 16" and "Qos fh < 4"
    using assms by (auto simp: header_ok_def word_less_nat_alt word_le_nat_alt split: if_splits)
  from header_byte_fields [OF this] show ?thesis
    by (simp add: header_of_def)
qed

text \<open>The flag checks accept exactly the well-formed headers and classify the others.\<close>

lemma checkFlags_None:
  "checkFlags (drop_bit 4 t) (drop_bit 1 t AND 3) (t AND 0x0F) = None \<longleftrightarrow>
     (if drop_bit 4 t = Publish then drop_bit 1 t AND 3 \<le> 2
      else if drop_bit 4 t \<in> {Pubrel, Subscribe, Unsubscribe}
      then drop_bit 1 t AND 3 = 1 \<and> \<not> t AND 1 > 0
      else drop_bit 1 t AND 3 = 0 \<and> \<not> drop_bit 3 t AND 1 > 0 \<and> \<not> t AND 1 > 0)"
  unfolding checkFlags_def flag_nibble_zero flag_nibble_two qos_field_le
  by (simp only: not_not insert_iff empty_iff split: if_split) auto

lemma checkFlags_Some:
  "checkFlags mt q f = Some e \<Longrightarrow> \<exists>d. e = Wrap ErrInvalidFixedHeaderFlags d"
  by (auto simp: checkFlags_def split: if_splits)

lemma header_ok_conv:
  "header_ok (header_of t n) \<longleftrightarrow> \<not> (drop_bit 4 t < 1 \<or> drop_bit 4 t > 14) \<and>
     checkFlags (drop_bit 4 t) (drop_bit 1 t AND 3) (t AND 0x0F) = None"
  unfolding checkFlags_None header_ok_def header_of_def
  by (simp only: FixedHeader.simps linorder_not_less de_Morgan_disj conj_assoc)

lemma unpack_ok:
  assumes "header_ok (header_of t n)"
  shows "unpack t = rbind decodeLength (\<lambda>n. rret (header_of t n))"
proof -
  from assms have "\<not> (drop_bit 4 t < 1 \<or> drop_bit 4 t > 14)"
    and "checkFlags (drop_bit 4 t) (drop_bit 1 t AND 3) (t AND 0x0F) = None"
    unfolding header_ok_conv by blast+
  then show ?thesis
    by (simp only: unpack_def Let_def if_False option.case header_of_def)
qed

lemma unpack_bad:
  assumes "\<not> header_ok (header_of t n)"
  obtains "unpack t = rfail (NewError (lit ''invalid mqtt flag(messagetype)''))"
  | d where "unpack t = rfail (Wrap ErrInvalidFixedHeaderFlags d)"
proof (cases "drop_bit 4 t < 1 \<or> drop_bit 4 t > 14")
  case True
  then show thesis
    by (intro that(1)) (simp only: unpack_def Let_def if_True)
next
  case False
  with assms obtain e where e: "checkFlags (drop_bit 4 t) (drop_bit 1 t AND 3) (t AND 0x0F) = Some e"
    unfolding header_ok_conv by auto
  then have "unpack t = rfail e"
    using False by (simp only: unpack_def Let_def if_False option.case)
  with checkFlags_Some [OF e] show thesis
    by (auto intro: that(2))
qed

lemma unpack_decoder [decoder_intros]: "stream_decoder (unpack t)"
proof (cases "header_ok (header_of t 0)")
  case True
  show ?thesis
    unfolding unpack_ok [OF True] by (intro decoder_intros)
next
  case False
  then show ?thesis
    by (rule unpack_bad) (simp_all add: rfail_decoder)
qed

lemma unpack_header:
  assumes "header_ok fh" and "int l \<le> MaxRemainingLength"
  shows "unpack (header_byte fh) (flat (encodeLength l @ bs) fin br) =
      (Inr (fh\<lparr>RemainingLength := int l\<rparr>), flat bs fin br)"
proof -
  have "header_ok (header_of (header_byte fh) 0)"
    using assms(1) by (simp add: header_of_byte)
  then show ?thesis
    using assms
    by (simp add: unpack_ok header_of_byte flat_simps decodeLength_encodeLength)
qed

lemma unpack_Inr:
  assumes "unpack t r = (Inr fh, r')"
  shows "header_ok fh \<and> header_byte fh = t \<and> decodeLength r = (Inr (RemainingLength fh), r')"
proof (cases "header_ok (header_of t 0)")
  case True
  with assms obtain n where "decodeLength r = (Inr n, r')" "fh = header_of t n"
    by (auto simp: unpack_ok rbind_Inr_conv rret_def)
  moreover have "header_ok (header_of t n)"
    using True header_ok_header_of by blast
  ultimately show ?thesis
    by simp (simp add: header_of_def)
next
  case False
  then show ?thesis
    by (rule unpack_bad) (use assms in \<open>simp_all add: rfail_def\<close>)
qed

section \<open>Properties\<close>

text \<open>
  A decoded remaining length is the value of the one to four base 128 digits consumed, the
  last of which is the first without continuation bit; it lies between 0 and the protocol
  maximum, so the conversion from the unsigned accumulator never wraps.
\<close>

theorem decodeLength_value:
  assumes "decodeLength r = (Inr n, r')"
  shows "0 \<le> n \<and> n \<le> 268435455 \<and>
    (\<exists>ds. data r = ds @ data r' \<and> length_digits ds \<and> length ds \<le> 4 \<and> n = int (lengthValue ds))"
proof -
  from assms obtain ds where "length_digits ds" "length ds \<le> 4" "data r = ds @ data r'"
    "n = int (lengthValue ds)"
    by (rule decodeLength_Inr)
  with decodeLength_bounds [OF assms] show ?thesis
    by (auto simp: MaxRemainingLength_def)
qed

theorem decodeLength_value_witness: "lengthValue [0x80, 1] = 128"
proof -
  have "decodeLength (flat ([0x80, 1] @ []) EOF True) = (Inr (int (lengthValue [0x80, 1])), flat [] EOF True)"
    by (rule decodeLength_complete) simp_all
  from decodeLength_value [OF this] show ?thesis by simp
qed

text \<open>
  The length is refused as malformed exactly when the first four bytes all carry the
  continuation bit.
\<close>

theorem decodeLength_malformed_iff:
  assumes "final r \<noteq> ErrMalformedRemainingLength"
  shows "fst (decodeLength r) = Inl ErrMalformedRemainingLength \<longleftrightarrow>
    4 \<le> length (data r) \<and> (\<forall>d \<in> set (take 4 (data r)). d AND 128 \<noteq> 0)"
proof -
  have f: "fst (decodeLength r) = fst (decodeLength (flat (data r) (final r) True))"
    using stream_decoder.from_flat [OF decodeLength_decoder surjective_pairing, of r True] by simp
  show ?thesis
  proof (cases "data r" rule: length_bytes_cases)
    case (complete ds rest)
    obtain ds' d where ds: "ds = ds' @ [d]" "d AND 128 = 0"
      using complete(2) by (cases ds rule: rev_cases) auto
    then have "d \<in> set (take 4 (data r))"
      using complete(1,3) by (cases "4 - length ds'") (simp_all add: take_append)
    with ds(2) show ?thesis
      using f complete by (auto simp: decodeLength_complete)
  next
    case (malformed ds rest)
    then show ?thesis using f by (simp add: decodeLength_malformed)
  next
    case short
    then show ?thesis using f assms by (simp add: decodeLength_short)
  qed
qed

theorem decodeLength_malformed_iff_witness:
  "fst (decodeLength (flat [0xFF, 0xFF, 0xFF, 0xFF, 1] EOF False)) = Inl ErrMalformedRemainingLength"
  using decodeLength_malformed_iff [of "flat [0xFF, 0xFF, 0xFF, 0xFF, 1] EOF False"] by simp

text \<open>
  The in-place encoder. \<^verbatim>\<open>writePacket\<close> on a body from \<^verbatim>\<open>newBody\<close>, whatever the pooled
  buffer held before, issues one \<^verbatim>\<open>Write\<close> of the header byte, the shortest digits of the length
  and the content; too large a content or a QoS above 2 is refused with nothing written.
\<close>

theorem writePacket_in_place:
  "writePacket w fh (newBody pooled @ content) =
     (if int (length content) > MaxRemainingLength then Some ((0, Some ErrPacketTooLarge), w)
      else if Qos fh > 2
      then Some ((0, Some (Wrap ErrInvalidQoS (lit ''qos '' @ fmt_d (unat (Qos fh))))), w)
      else Some (Write w (header_byte fh # encodeLength (length content) @ content)))"
proof (cases "int (length content) > MaxRemainingLength \<or> Qos fh > 2")
  case True
  then show ?thesis
    by (auto simp: writePacket_def newBody_def headerPad_def fixedHeaderReserve_def Let_def)
next
  case False
  then show ?thesis
    using writePacket_eq [of content fh w pooled] by (auto simp: linorder_not_less)
qed

text \<open>
  The fixed header. If a length follows, the first byte is accepted exactly when it has a
  packet type from 1 to 14 and the flags of table 2.2 for that type (with DUP tolerated on
  PUBREL, SUBSCRIBE and UNSUBSCRIBE), and then the header holds its fields and that length.
\<close>

theorem unpack_accepts:
  assumes "decodeLength r = (Inr n, r')"
  shows "(if header_ok (header_of t n) then unpack t r = (Inr (header_of t n), r')
    else \<exists>e. unpack t r = (Inl e, r))"
proof (cases "header_ok (header_of t n)")
  case True
  then show ?thesis using unpack_ok [OF True] assms by (simp add: rbind_def rret_def)
next
  case False
  from False show ?thesis by (rule unpack_bad) (simp_all add: rfail_def False)
qed

theorem unpack_accepts_witness:
  "unpack 0x82 (flat [5] EOF True) = (Inr (header_of 0x82 5), flat [] EOF True)"
proof -
  have "decodeLength (flat ([5] @ []) EOF True) = (Inr (int (lengthValue [5])), flat [] EOF True)"
    by (rule decodeLength_complete) simp_all
  from unpack_accepts [OF this, of "0x82"] show ?thesis
    by (simp add: header_ok_def header_of_def)
qed

end
