(* ===== verification/PacketCodec.thy ===== *)
theory PacketCodec
  imports FixedHeaders
begin

text \<open>
  What the packet types share. \<open>frame\<close> is the wire format: the header byte, the remaining
  length, the content. \<open>writeBody\<close> is the common end of every \<^verbatim>\<open>WriteTo\<close>: an error of a
  field writer is returned with nothing written, a complete body goes to \<^verbatim>\<open>writePacket\<close>.

  The interface \<open>packet_codec\<close> is what the codec relies on of a packet type (the Go interface
  \<^verbatim>\<open>ControlPacket\<close>): writing a well-formed packet issues its frame, unpacking the content of
  one gives it back, and unpacking yields only packets whose content is what was read.
  It is interpreted for each of the fourteen packet types and for their sum.
\<close>

definition frame :: "FixedHeader \<Rightarrow> bytes \<Rightarrow> bytes" where
  "frame fh content = header_byte fh # encodeLength (length content) @ content"

definition writeBody :: "writer \<Rightarrow> FixedHeader \<Rightarrow> error + bytes \<Rightarrow> write_result option" where
  "writeBody w fh body = (case body of
      Inl err \<Rightarrow> Some ((0, Some err), w)
    | Inr b \<Rightarrow> writePacket w fh b)"

text \<open>The header of \<^verbatim>\<open>NewControlPacket\<close>: a type and a quality of service, the rest zero.\<close>

definition zeroHeader :: "byte \<Rightarrow> byte \<Rightarrow> FixedHeader" where
  "zeroHeader t q =
     \<lparr>MessageType = t, Dup = False, Qos = q, Retain = False, RemainingLength = 0\<rparr>"

record Details =
  details_Qos :: byte
  details_MessageID :: uint16

lemma writeBody_frame:
  assumes "int (length content) \<le> MaxRemainingLength" and "Qos fh \<le> 2"
  shows "writeBody w fh (Inr (newBody pooled @ content)) = Some (Write w (frame fh content))"
  using writePacket_eq [OF assms] by (simp add: writeBody_def frame_def)

lemma length_newBody [simp]: "length (newBody pooled) = 5"
  by (simp add: newBody_def headerPad_def fixedHeaderReserve_def)

text \<open>
  A panic would need a fifth length digit; the size check excludes it, so no \<^verbatim>\<open>WriteTo\<close>
  panics.
\<close>

lemma writePacket_returns: "writePacket w fh body \<noteq> None"
proof (cases "int (length body - fixedHeaderReserve) > MaxRemainingLength")
  case False
  then have "int (length body - fixedHeaderReserve) \<le> MaxRemainingLength" by simp
  then show ?thesis
    by (simp add: encodeLength_loop_array(1) writePacket_def Let_def del: not_None_eq)
qed (simp add: writePacket_def)

lemma writeBody_returns: "writeBody w fh body \<noteq> None"
  by (simp add: writeBody_def writePacket_returns del: not_None_eq split: sum.split)

lemma header_ok_qos: "header_ok fh \<Longrightarrow> Qos fh \<le> 2"
  by (auto simp: header_ok_def split: if_splits)

locale packet_codec =
  fixes hdr :: "'p \<Rightarrow> FixedHeader"
    and set_hdr :: "FixedHeader \<Rightarrow> 'p \<Rightarrow> 'p"
    and writeTo :: "'p \<Rightarrow> writer \<Rightarrow> write_result option"
    and unpk :: "FixedHeader \<Rightarrow> 'p decoder"
    and content :: "'p \<Rightarrow> bytes"
    and wf :: "'p \<Rightarrow> bool"
    and reencodable :: "'p \<Rightarrow> bool"
  assumes hdr_set: "hdr (set_hdr fh p) = fh"
    and set_hdr_id: "set_hdr (hdr p) p = p"
    and length_irrelevant:
      "content (set_hdr ((hdr p)\<lparr>RemainingLength := n\<rparr>) p) = content p"
      "wf (set_hdr ((hdr p)\<lparr>RemainingLength := n\<rparr>) p) = wf p"
    and write_frame:
      "wf p \<Longrightarrow> Qos (hdr p) \<le> 2 \<Longrightarrow> int (length (content p)) \<le> MaxRemainingLength \<Longrightarrow>
         writeTo p w = Some (Write w (frame (hdr p) (content p)))"
    and unpk_decoder: "stream_decoder (unpk fh)"
    and unpk_content:
      "wf p \<Longrightarrow> RemainingLength (hdr p) = int (length (content p)) \<Longrightarrow>
         unpk (hdr p) (buffer (content p)) = (Inr p, buffer [])"
    and unpk_sound:
      "unpk fh (buffer bs) = (Inr p, r) \<Longrightarrow> data r = [] \<Longrightarrow> RemainingLength fh = int (length bs) \<Longrightarrow>
         hdr p = fh \<and> (reencodable p \<longrightarrow> wf p \<and> content p = bs)"
begin

text \<open>The packet as a reader gets it: the remaining length in its header is the actual one.\<close>

definition received :: "'p \<Rightarrow> 'p" where
  "received p = set_hdr ((hdr p)\<lparr>RemainingLength := int (length (content p))\<rparr>) p"

lemma unpk_received:
  assumes "wf p"
  shows "unpk ((hdr p)\<lparr>RemainingLength := int (length (content p))\<rparr>) (buffer (content p)) =
    (Inr (received p), buffer [])"
  using unpk_content [of "received p"] assms
  by (simp add: received_def hdr_set length_irrelevant)

lemma received_id:
  assumes "RemainingLength (hdr p) = int (length (content p))"
  shows "received p = p"
proof -
  have "(hdr p)\<lparr>RemainingLength := int (length (content p))\<rparr> = hdr p"
    using assms by (cases "hdr p") simp
  then show ?thesis by (simp add: received_def set_hdr_id)
qed

end

section \<open>Packets that hold a packet identifier only, and empty packets\<close>

text \<open>
  PUBACK, PUBREC, PUBREL, PUBCOMP and UNSUBACK consist of a packet identifier, PINGREQ, PINGRESP
  and DISCONNECT of nothing. Both shapes give a packet codec.
\<close>

locale id_packet =
  fixes hdr :: "'p \<Rightarrow> FixedHeader"
    and mid :: "'p \<Rightarrow> uint16"
    and mk :: "FixedHeader \<Rightarrow> uint16 \<Rightarrow> 'p"
    and writeTo :: "'p \<Rightarrow> writer \<Rightarrow> write_result option"
    and unpk :: "FixedHeader \<Rightarrow> 'p decoder"
  assumes mk: "hdr (mk fh i) = fh" "mid (mk fh i) = i" "mk (hdr p) (mid p) = p"
    and writeTo: "writeTo p w = writeBody w (hdr p) (Inr (writeUint16 (newBody []) (mid p)))"
    and unpk: "unpk fh = rbind decodeUint16 (\<lambda>i. rret (mk fh i))"

sublocale id_packet \<subseteq> packet_codec hdr "\<lambda>fh p. mk fh (mid p)" writeTo unpk
  "\<lambda>p. uint16_bytes (mid p)" "\<lambda>_. True" "\<lambda>_. True"
proof (rule packet_codec.intro, goal_cases)
  case (5 p w)
  then show ?case
    using writeBody_frame [of "uint16_bytes (mid p)" "hdr p" w "[]"]
    by (simp add: writeTo writeUint16_eq)
next
  case (6 fh)
  show ?case unfolding unpk by (intro decoder_intros)
next
  case (7 p)
  show ?case by (simp add: unpk flat_simps mk)
next
  case (8 fh bs p r)
  then show ?case
    by (auto simp: unpk rbind_Inr_conv rret_def mk dest!: decodeUint16_Inr)
qed (simp_all add: mk)

locale empty_packet =
  fixes hdr :: "'p \<Rightarrow> FixedHeader"
    and mk :: "FixedHeader \<Rightarrow> 'p"
    and writeTo :: "'p \<Rightarrow> writer \<Rightarrow> write_result option"
    and unpk :: "FixedHeader \<Rightarrow> 'p decoder"
  assumes mk: "hdr (mk fh) = fh" "mk (hdr p) = p"
    and writeTo: "writeTo p w = writeBody w (hdr p) (Inr (newBody []))"
    and unpk: "unpk fh = rret (mk fh)"

sublocale empty_packet \<subseteq> packet_codec hdr "\<lambda>fh p. mk fh" writeTo unpk
  "\<lambda>_. []" "\<lambda>_. True" "\<lambda>_. True"
proof (rule packet_codec.intro, goal_cases)
  case (5 p w)
  then show ?case
    using writeBody_frame [of "[]" "hdr p" w "[]"] by (simp add: writeTo)
next
  case (6 fh)
  show ?case unfolding unpk by (intro decoder_intros)
qed (auto simp: mk unpk rret_def)

end
