(* ===== verification/Topics.thy ===== *)
theory Topics
  imports Errors
begin

text \<open>
  Topic names and topic filters (\<^verbatim>\<open>packets/mqtt/utils.go\<close>): \<open>ValidUTF8String\<close>,
  \<open>ValidatePattern\<close> and \<open>ValidateTopic\<close>, over the parts of \<^verbatim>\<open>strings\<close> and
  \<^verbatim>\<open>unicode/utf8\<close> they use. A returned \<^verbatim>\<open>error\<close> is an \<open>error option\<close>, \<open>None\<close> for nil.
\<close>

section \<open>Strings\<close>

abbreviation (input) slash :: byte where "slash \<equiv> 0x2F"
abbreviation (input) hash :: byte where "hash \<equiv> 0x23"
abbreviation (input) plus :: byte where "plus \<equiv> 0x2B"
abbreviation (input) dollar :: byte where "dollar \<equiv> 0x24"

text \<open>\<^verbatim>\<open>strings.Split\<close> for a separator of one byte.\<close>

fun Split :: "byte \<Rightarrow> gostring \<Rightarrow> gostring list" where
  "Split sep [] = [[]]"
| "Split sep (b # s) =
     (if b = sep then [] # Split sep s
      else case Split sep s of [] \<Rightarrow> [[b]] | level # levels \<Rightarrow> (b # level) # levels)"

text \<open>
  \<^verbatim>\<open>utf8.ValidString\<close>: the table of lead bytes gives the length of a sequence and the range
  of its second byte; further bytes are between 0x80 and 0xBF.
\<close>

definition utf8_first :: "byte \<Rightarrow> (nat \<times> byte \<times> byte) option" where
  "utf8_first b =
     (if 0xC2 \<le> b \<and> b \<le> 0xDF then Some (2, 0x80, 0xBF)
      else if b = 0xE0 then Some (3, 0xA0, 0xBF)
      else if 0xE1 \<le> b \<and> b \<le> 0xEC then Some (3, 0x80, 0xBF)
      else if b = 0xED then Some (3, 0x80, 0x9F)
      else if b = 0xEE \<or> b = 0xEF then Some (3, 0x80, 0xBF)
      else if b = 0xF0 then Some (4, 0x90, 0xBF)
      else if 0xF1 \<le> b \<and> b \<le> 0xF3 then Some (4, 0x80, 0xBF)
      else if b = 0xF4 then Some (4, 0x80, 0x8F)
      else None)"

definition utf8_cont :: "byte \<Rightarrow> bool" where
  "utf8_cont b \<longleftrightarrow> 0x80 \<le> b \<and> b \<le> 0xBF"

fun utf8_ValidString :: "gostring \<Rightarrow> bool" where
  "utf8_ValidString [] = True"
| "utf8_ValidString (b # s) =
     (if b < 0x80 then utf8_ValidString s
      else case utf8_first b of
        None \<Rightarrow> False
      | Some (sz, lo, hi) \<Rightarrow>
          (case s of
            [] \<Rightarrow> False
          | b1 # s1 \<Rightarrow> lo \<le> b1 \<and> b1 \<le> hi \<and>
              (if sz = 2 then utf8_ValidString s1
               else case s1 of
                 [] \<Rightarrow> False
               | b2 # s2 \<Rightarrow> utf8_cont b2 \<and>
                   (if sz = 3 then utf8_ValidString s2
                    else case s2 of
                      [] \<Rightarrow> False
                    | b3 # s3 \<Rightarrow> utf8_cont b3 \<and> utf8_ValidString s3))))"

section \<open>Validation\<close>

definition ValidUTF8String :: "gostring \<Rightarrow> bool" where
  "ValidUTF8String s \<longleftrightarrow> utf8_ValidString s \<and> \<not> 0 \<in> set s"

text \<open>The loop over the levels: \<open>i\<close> is the index, \<open>n\<close> the number of levels.\<close>

fun validate_levels :: "nat \<Rightarrow> nat \<Rightarrow> gostring list \<Rightarrow> error option" where
  "validate_levels i n [] = None"
| "validate_levels i n (level # levels) =
     (if hash \<in> set level \<and> (level \<noteq> [hash] \<or> i \<noteq> n - 1) then Some ErrInvalidTopicMultilevel
      else if plus \<in> set level \<and> level \<noteq> [plus] then Some ErrInvalidTopicSinglelevel
      else validate_levels (Suc i) n levels)"

definition ValidatePattern :: "gostring \<Rightarrow> error option" where
  "ValidatePattern pattern =
     (if length pattern = 0 then Some ErrInvalidTopicEmptyString
      else if length pattern > 65535 then Some ErrInvalidTopicTooLong
      else if \<not> ValidUTF8String pattern then Some ErrInvalidTopicUTF8
      else let levels = Split slash pattern in validate_levels 0 (length levels) levels)"

definition ValidateTopic :: "gostring \<Rightarrow> error option" where
  "ValidateTopic topic =
     (if hash \<in> set topic \<or> plus \<in> set topic then Some ErrInvalidWildcardTopic
      else ValidatePattern topic)"

section \<open>Splitting and joining\<close>

fun join :: "byte \<Rightarrow> gostring list \<Rightarrow> gostring" where
  "join sep [] = []"
| "join sep [level] = level"
| "join sep (level # levels) = level @ sep # join sep levels"

lemma Split_not_Nil [simp]: "Split sep s \<noteq> []"
  by (cases s) (auto split: list.splits)

lemma join_Split [simp]: "join sep (Split sep s) = s"
proof (induction s)
  case (Cons b s)
  obtain l ls where ls: "Split sep s = l # ls"
    using Split_not_Nil by (metis neq_Nil_conv)
  with Cons show ?case by (cases ls) auto
qed simp

lemma Split_append: "sep \<notin> set l \<Longrightarrow> Split sep (l @ sep # s) = l # Split sep s"
  by (induction l) auto

lemma Split_single: "sep \<notin> set l \<Longrightarrow> Split sep l = [l]"
  by (induction l) auto

lemma Split_join [simp]:
  "levels \<noteq> [] \<Longrightarrow> \<forall>l \<in> set levels. sep \<notin> set l \<Longrightarrow> Split sep (join sep levels) = levels"
  by (induction sep levels rule: join.induct) (auto simp: Split_append Split_single)

lemma Split_levels: "\<forall>l \<in> set (Split sep s). sep \<notin> set l"
proof (induction s)
  case (Cons b s)
  then show ?case by (auto split: list.splits)
qed simp

lemma set_Split: "set s - {sep} = (\<Union>l \<in> set (Split sep s). set l)"
proof (induction s)
  case (Cons b s)
  obtain l ls where "Split sep s = l # ls"
    using Split_not_Nil by (metis neq_Nil_conv)
  with Cons show ?case by auto
qed simp

section \<open>What the validators accept\<close>

text \<open>
  A level is plain when it holds no wildcard character. In a filter a level is plain or is the
  single level wildcard; the last level may also be the multi level wildcard.
\<close>

definition plain_level :: "gostring \<Rightarrow> bool" where
  "plain_level l \<longleftrightarrow> hash \<notin> set l \<and> plus \<notin> set l"

definition filter_levels :: "gostring list \<Rightarrow> bool" where
  "filter_levels ls \<longleftrightarrow>
     (\<forall>l \<in> set (butlast ls). plain_level l \<or> l = [plus]) \<and>
     (plain_level (last ls) \<or> last ls = [plus] \<or> last ls = [hash])"

definition topic_string :: "gostring \<Rightarrow> bool" where
  "topic_string s \<longleftrightarrow> 1 \<le> length s \<and> length s \<le> 65535 \<and> ValidUTF8String s"

lemma validate_levels_None:
  "levels \<noteq> [] \<Longrightarrow> n = i + length levels \<Longrightarrow>
     validate_levels i n levels = None \<longleftrightarrow> filter_levels levels"
proof (induction i n levels rule: validate_levels.induct)
  case (2 i n level levels)
  show ?case
  proof (cases "levels = []")
    case True
    with 2 show ?thesis
      by (auto simp: filter_levels_def plain_level_def)
  next
    case False
    then have "filter_levels (level # levels) \<longleftrightarrow>
        (plain_level level \<or> level = [plus]) \<and> filter_levels levels"
      by (auto simp: filter_levels_def)
    moreover have "i \<noteq> n - 1"
      using False 2 by (cases levels) auto
    ultimately show ?thesis
      using 2 False by (auto simp: plain_level_def)
  qed
qed simp

lemma ValidatePattern_None:
  "ValidatePattern s = None \<longleftrightarrow> topic_string s \<and> filter_levels (Split slash s)"
  using validate_levels_None [of "Split slash s" "length (Split slash s)" 0]
  by (auto simp: ValidatePattern_def topic_string_def Let_def Suc_le_eq)

lemma ValidateTopic_None: "ValidateTopic s = None \<longleftrightarrow> topic_string s \<and> plain_level s"
proof -
  have "plain_level s \<Longrightarrow> \<forall>l \<in> set (Split slash s). plain_level l"
    using set_Split [of s slash] by (auto simp: plain_level_def)
  then have "plain_level s \<Longrightarrow> filter_levels (Split slash s)"
    by (auto simp: filter_levels_def dest: in_set_butlastD)
  then show ?thesis
    using ValidatePattern_None [of s] by (auto simp: ValidateTopic_def plain_level_def)
qed

lemma ValidateTopic_length: "ValidateTopic s = None \<Longrightarrow> length s \<le> 65535"
  by (simp add: ValidateTopic_None topic_string_def)

lemma ValidatePattern_length: "ValidatePattern s = None \<Longrightarrow> length s \<le> 65535"
  by (simp add: ValidatePattern_None topic_string_def)

section \<open>Properties\<close>

text \<open>
  Topic filters. \<^verbatim>\<open>ValidatePattern\<close> accepts exactly the strings of 1 to 65535 bytes of
  well-formed UTF-8 without U+0000 whose levels hold no wildcard character, except that a level
  may be a single \<^verbatim>\<open>+\<close> and the last may be a single \<^verbatim>\<open>#\<close>.
\<close>

theorem ValidatePattern_accepts:
  "ValidatePattern s = None \<longleftrightarrow>
     1 \<le> length s \<and> length s \<le> 65535 \<and> utf8_ValidString s \<and> 0 \<notin> set s \<and>
     (\<exists>levels. levels \<noteq> [] \<and> s = join slash levels \<and> (\<forall>l \<in> set levels. slash \<notin> set l) \<and>
       (\<forall>l \<in> set (butlast levels). plain_level l \<or> l = [plus]) \<and>
       (plain_level (last levels) \<or> last levels = [plus] \<or> last levels = [hash]))"
proof -
  have "(\<exists>levels. levels \<noteq> [] \<and> s = join slash levels \<and> (\<forall>l \<in> set levels. slash \<notin> set l) \<and>
      filter_levels levels) \<longleftrightarrow> filter_levels (Split slash s)"
    using Split_levels [of slash s] by (metis Split_join Split_not_Nil join_Split)
  then show ?thesis
    by (simp add: ValidatePattern_None topic_string_def ValidUTF8String_def filter_levels_def)
qed

theorem ValidatePattern_accepts_witness: "ValidatePattern (lit ''a/+/#'') = None"
proof -
  let ?levels = "[lit ''a'', [plus], [hash]]"
  have "?levels \<noteq> [] \<and> lit ''a/+/#'' = join slash ?levels \<and>
      (\<forall>l \<in> set ?levels. slash \<notin> set l) \<and>
      (\<forall>l \<in> set (butlast ?levels). plain_level l \<or> l = [plus]) \<and>
      (plain_level (last ?levels) \<or> last ?levels = [plus] \<or> last ?levels = [hash])"
    by (simp add: lit_def plain_level_def)
  moreover have "1 \<le> length (lit ''a/+/#'') \<and> length (lit ''a/+/#'') \<le> 65535 \<and>
      utf8_ValidString (lit ''a/+/#'') \<and> 0 \<notin> set (lit ''a/+/#'')"
    by (simp add: lit_def)
  ultimately show ?thesis
    using ValidatePattern_accepts [of "lit ''a/+/#''"] by blast
qed

text \<open>
  Topic names. \<^verbatim>\<open>ValidateTopic\<close> accepts exactly the strings of 1 to 65535 bytes of
  well-formed UTF-8 without U+0000 and without wildcard characters; such a name is also a valid
  filter.
\<close>

theorem ValidateTopic_accepts:
  "(ValidateTopic s = None \<longleftrightarrow>
     1 \<le> length s \<and> length s \<le> 65535 \<and> utf8_ValidString s \<and> 0 \<notin> set s \<and>
     hash \<notin> set s \<and> plus \<notin> set s) \<and>
   (ValidateTopic s = None \<longrightarrow> ValidatePattern s = None)"
proof
  show "ValidateTopic s = None \<longleftrightarrow>
      1 \<le> length s \<and> length s \<le> 65535 \<and> utf8_ValidString s \<and> 0 \<notin> set s \<and>
      hash \<notin> set s \<and> plus \<notin> set s"
    by (auto simp: ValidateTopic_None topic_string_def ValidUTF8String_def plain_level_def)
  show "ValidateTopic s = None \<longrightarrow> ValidatePattern s = None"
    by (simp add: ValidateTopic_def)
qed

theorem ValidateTopic_accepts_witness: "ValidatePattern (lit ''a/b'') = None"
  using ValidateTopic_accepts [of "lit ''a/b''"] by (simp add: lit_def)

end
