(* ===== verification/ConnectPackets.thy ===== *)
theory ConnectPackets
  imports PacketCodec Topics
begin

text \<open>
  CONNECT and CONNACK (\<^verbatim>\<open>connect.go\<close>, \<^verbatim>\<open>connack.go\<close>, and the return codes of
  \<^verbatim>\<open>packets.go\<close>): the records, \<^verbatim>\<open>WriteTo\<close>, \<^verbatim>\<open>Unpack\<close>, \<^verbatim>\<open>Validate\<close>, \<^verbatim>\<open>Details\<close>
  and \<^verbatim>\<open>String\<close> of each. \<^verbatim>\<open>Unpack\<close> is a function of the packet it fills; on an error the
  half filled packet is not returned, as its caller drops it.
\<close>

section \<open>Return codes\<close>

type_synonym ConnackReturnCode = byte

abbreviation (input) Accepted :: ConnackReturnCode where "Accepted \<equiv> 0x00"
abbreviation (input) ErrRefusedBadProtocolVersion :: ConnackReturnCode where
  "ErrRefusedBadProtocolVersion \<equiv> 0x01"
abbreviation (input) ErrRefusedIDRejected :: ConnackReturnCode where "ErrRefusedIDRejected \<equiv> 0x02"
abbreviation (input) ErrRefusedServerUnavailable :: ConnackReturnCode where
  "ErrRefusedServerUnavailable \<equiv> 0x03"
abbreviation (input) ErrRefusedBadUsernameOrPassword :: ConnackReturnCode where
  "ErrRefusedBadUsernameOrPassword \<equiv> 0x04"
abbreviation (input) ErrRefusedNotAuthorised :: ConnackReturnCode where
  "ErrRefusedNotAuthorised \<equiv> 0x05"
abbreviation (input) ErrNetworkError :: ConnackReturnCode where "ErrNetworkError \<equiv> 0xFE"
abbreviation (input) ErrProtocolViolation :: ConnackReturnCode where "ErrProtocolViolation \<equiv> 0xFF"

text \<open>The maps from codes to texts and to errors; \<^verbatim>\<open>Accepted\<close> maps to the nil error.\<close>

definition ConnackReturnCodes :: "ConnackReturnCode \<rightharpoonup> gostring" where
  "ConnackReturnCodes =
     [0 \<mapsto> lit ''Connection Accepted'',
      1 \<mapsto> lit ''Connection Refused: Bad Protocol Version'',
      2 \<mapsto> lit ''Connection Refused: Client Identifier Rejected'',
      3 \<mapsto> lit ''Connection Refused: Server Unavailable'',
      4 \<mapsto> lit ''Connection Refused: Username or Password in unknown format'',
      5 \<mapsto> lit ''Connection Refused: Not Authorised'',
      254 \<mapsto> lit ''Connection Error'',
      255 \<mapsto> lit ''Connection Refused: Protocol Violation'']"

definition ConnErrors :: "ConnackReturnCode \<rightharpoonup> error option" where
  "ConnErrors =
     [Accepted \<mapsto> None,
      ErrRefusedBadProtocolVersion \<mapsto> Some ErrorRefusedBadProtocolVersion,
      ErrRefusedIDRejected \<mapsto> Some ErrorRefusedIDRejected,
      ErrRefusedServerUnavailable \<mapsto> Some ErrorRefusedServerUnavailable,
      ErrRefusedBadUsernameOrPassword \<mapsto> Some ErrorRefusedBadUsernameOrPassword,
      ErrRefusedNotAuthorised \<mapsto> Some ErrorRefusedNotAuthorised,
      ErrNetworkError \<mapsto> Some ErrorNetworkError,
      ErrProtocolViolation \<mapsto> Some ErrorProtocolViolation]"

section \<open>CONNECT\<close>

record ConnectPacket =
  con_FixedHeader :: FixedHeader
  ProtocolName :: gostring
  ProtocolVersion :: byte
  CleanSession :: bool
  WillFlag :: bool
  WillQos :: byte
  WillRetain :: bool
  UsernameFlag :: bool
  PasswordFlag :: bool
  ReservedBit :: byte
  Keepalive :: uint16
  ClientIdentifier :: gostring
  WillTopic :: gostring
  WillMessage :: bytes
  Username :: gostring
  Password :: bytes

text \<open>\<^verbatim>\<open>&ConnectPacket{FixedHeader: fh}\<close>: every other field has its zero value.\<close>

definition new_ConnectPacket :: "FixedHeader \<Rightarrow> ConnectPacket" where
  "new_ConnectPacket fh =
     \<lparr>con_FixedHeader = fh, ProtocolName = [], ProtocolVersion = 0, CleanSession = False,
      WillFlag = False, WillQos = 0, WillRetain = False, UsernameFlag = False,
      PasswordFlag = False, ReservedBit = 0, Keepalive = 0, ClientIdentifier = [],
      WillTopic = [], WillMessage = [], Username = [], Password = []\<rparr>"

definition ConnectPacket_String :: "ConnectPacket \<Rightarrow> gostring" where
  "ConnectPacket_String c =
     (let password = (if length (Password c) > 0 then lit ''<redacted>'' else [])
      in FixedHeader_String (con_FixedHeader c) @
        lit '' protocolversion: '' @ fmt_d (unat (ProtocolVersion c)) @
        lit '' protocolname: '' @ ProtocolName c @
        lit '' cleansession: '' @ fmt_t (CleanSession c) @
        lit '' willflag: '' @ fmt_t (WillFlag c) @
        lit '' WillQos: '' @ fmt_d (unat (WillQos c)) @
        lit '' WillRetain: '' @ fmt_t (WillRetain c) @
        lit '' Usernameflag: '' @ fmt_t (UsernameFlag c) @
        lit '' Passwordflag: '' @ fmt_t (PasswordFlag c) @
        lit '' keepalive: '' @ fmt_d (unat (Keepalive c)) @
        lit '' clientId: '' @ ClientIdentifier c @
        lit '' willtopic: '' @ WillTopic c @
        lit '' willmessage: '' @ WillMessage c @
        lit '' Username: '' @ Username c @
        lit '' Password: '' @ password)"

definition connect_flags :: "ConnectPacket \<Rightarrow> byte" where
  "connect_flags c =
     push_bit 1 (boolToByte (CleanSession c)) OR push_bit 2 (boolToByte (WillFlag c)) OR
     push_bit 3 (WillQos c) OR push_bit 5 (boolToByte (WillRetain c)) OR
     push_bit 6 (boolToByte (PasswordFlag c)) OR push_bit 7 (boolToByte (UsernameFlag c))"

definition ConnectPacket_WriteTo :: "ConnectPacket \<Rightarrow> writer \<Rightarrow> write_result option" where
  "ConnectPacket_WriteTo c w =
     (if WillQos c > 2
      then Some ((0, Some (NewPacketError ''3.1.2-14'' (lit ''will QoS must be 0, 1 or 2''))), w)
      else writeBody w (con_FixedHeader c)
        (andThen (writeString (newBody []) (ProtocolName c)) (\<lambda>body.
         let body = body @ [ProtocolVersion c];
             body = body @ [connect_flags c];
             body = writeUint16 body (Keepalive c)
         in andThen (writeString body (ClientIdentifier c)) (\<lambda>body.
         andThen (if WillFlag c
                  then andThen (writeString body (WillTopic c)) (\<lambda>body.
                    writeBytes body (WillMessage c))
                  else Inr body) (\<lambda>body.
         andThen (if UsernameFlag c then writeString body (Username c) else Inr body) (\<lambda>body.
         if PasswordFlag c then writeBytes body (Password c) else Inr body))))))"

text \<open>
  \<^verbatim>\<open>Unpack\<close>: the variable header, then the payload fields the flags announce, one
  definition for each conditional block of the source.
\<close>

definition ConnectPacket_unpackWill :: "ConnectPacket \<Rightarrow> ConnectPacket decoder" where
  "ConnectPacket_unpackWill c =
     (if WillFlag c
      then rbind decodeString (\<lambda>topic. rbind decodeBytes (\<lambda>message.
        rret (c\<lparr>WillTopic := topic, WillMessage := message\<rparr>)))
      else rret c)"

definition ConnectPacket_unpackUsername :: "ConnectPacket \<Rightarrow> ConnectPacket decoder" where
  "ConnectPacket_unpackUsername c =
     (if UsernameFlag c
      then rbind decodeString (\<lambda>username. rret (c\<lparr>Username := username\<rparr>))
      else rret c)"

definition ConnectPacket_unpackPassword :: "ConnectPacket \<Rightarrow> ConnectPacket decoder" where
  "ConnectPacket_unpackPassword c =
     (if PasswordFlag c
      then rbind decodeBytes (\<lambda>password. rret (c\<lparr>Password := password\<rparr>))
      else rret c)"

text \<open>The fields of the connect flags byte.\<close>

definition ConnectPacket_setOptions :: "byte \<Rightarrow> ConnectPacket \<Rightarrow> ConnectPacket" where
  "ConnectPacket_setOptions options c =
     c\<lparr>ReservedBit := 1 AND options,
       CleanSession := (1 AND drop_bit 1 options > 0),
       WillFlag := (1 AND drop_bit 2 options > 0),
       WillQos := 3 AND drop_bit 3 options,
       WillRetain := (1 AND drop_bit 5 options > 0),
       PasswordFlag := (1 AND drop_bit 6 options > 0),
       UsernameFlag := (1 AND drop_bit 7 options > 0)\<rparr>"

definition ConnectPacket_Unpack :: "ConnectPacket \<Rightarrow> ConnectPacket decoder" where
  "ConnectPacket_Unpack c =
     rbind decodeString (\<lambda>protocolName.
     rbind decodeByte (\<lambda>protocolVersion.
     rbind decodeByte (\<lambda>options.
     rbind decodeUint16 (\<lambda>keepalive.
     rbind decodeString (\<lambda>clientIdentifier.
     rbind (ConnectPacket_unpackWill
       ((ConnectPacket_setOptions options
           (c\<lparr>ProtocolName := protocolName, ProtocolVersion := protocolVersion\<rparr>))
          \<lparr>Keepalive := keepalive, ClientIdentifier := clientIdentifier\<rparr>)) (\<lambda>c.
     rbind (ConnectPacket_unpackUsername c) (\<lambda>c.
     ConnectPacket_unpackPassword c)))))))"

definition ConnectPacket_Validate :: "ConnectPacket \<Rightarrow> ConnackReturnCode" where
  "ConnectPacket_Validate c =
     (if PasswordFlag c \<and> \<not> UsernameFlag c then ErrRefusedBadUsernameOrPassword
      else if ReservedBit c \<noteq> 0 then ErrProtocolViolation
      else if (ProtocolName c = lit ''MQIsdp'' \<and> ProtocolVersion c \<noteq> 3) \<or>
              (ProtocolName c = lit ''MQTT'' \<and> ProtocolVersion c \<noteq> 4)
      then ErrRefusedBadProtocolVersion
      else if ProtocolName c \<noteq> lit ''MQIsdp'' \<and> ProtocolName c \<noteq> lit ''MQTT''
      then ErrProtocolViolation
      else if length (ClientIdentifier c) > 65535 \<or> length (Username c) > 65535 \<or>
              length (Password c) > 65535
      then ErrProtocolViolation
      else if (if WillFlag c then WillQos c > 2 \<or> ValidateTopic (WillTopic c) \<noteq> None
               else WillQos c \<noteq> 0 \<or> WillRetain c)
      then ErrProtocolViolation
      else if \<not> ValidUTF8String (ClientIdentifier c) then ErrRefusedIDRejected
      else if UsernameFlag c \<and> \<not> ValidUTF8String (Username c) then ErrProtocolViolation
      else if length (ClientIdentifier c) = 0 \<and> \<not> CleanSession c then ErrRefusedIDRejected
      else Accepted)"

definition ConnectPacket_Details :: "ConnectPacket \<Rightarrow> Details" where
  "ConnectPacket_Details c = \<lparr>details_Qos = 0, details_MessageID = 0\<rparr>"

section \<open>CONNACK\<close>

record ConnackPacket =
  ca_FixedHeader :: FixedHeader
  SessionPresent :: bool
  ReturnCode :: ConnackReturnCode

definition new_ConnackPacket :: "FixedHeader \<Rightarrow> ConnackPacket" where
  "new_ConnackPacket fh = \<lparr>ca_FixedHeader = fh, SessionPresent = False, ReturnCode = 0\<rparr>"

definition ConnackPacket_String :: "ConnackPacket \<Rightarrow> gostring" where
  "ConnackPacket_String ca =
     FixedHeader_String (ca_FixedHeader ca) @ lit '' sessionpresent: '' @
     fmt_t (SessionPresent ca) @ lit '' returncode: '' @ fmt_d (unat (ReturnCode ca))"

definition ConnackPacket_WriteTo :: "ConnackPacket \<Rightarrow> writer \<Rightarrow> write_result option" where
  "ConnackPacket_WriteTo ca w =
     (let body = newBody [];
          body = body @ [boolToByte (SessionPresent ca)];
          body = body @ [ReturnCode ca]
      in writeBody w (ca_FixedHeader ca) (Inr body))"

definition ConnackPacket_Unpack :: "ConnackPacket \<Rightarrow> ConnackPacket decoder" where
  "ConnackPacket_Unpack ca =
     rbind decodeByte (\<lambda>flags.
     if flags AND 0xFE \<noteq> 0
     then rfail (NewPacketError ''3.2.2-1''
       (lit ''reserved connack acknowledge flag bits are non-zero''))
     else rbind decodeByte (\<lambda>bt.
       rret (ca\<lparr>SessionPresent := (1 AND flags > 0), ReturnCode := bt\<rparr>)))"

definition ConnackPacket_Details :: "ConnackPacket \<Rightarrow> Details" where
  "ConnackPacket_Details ca = \<lparr>details_Qos = 0, details_MessageID = 0\<rparr>"


section \<open>CONNECT: content, round trip\<close>

definition connect_content :: "ConnectPacket \<Rightarrow> bytes" where
  "connect_content c =
     field_bytes (ProtocolName c) @ [ProtocolVersion c, connect_flags c] @
     uint16_bytes (Keepalive c) @ field_bytes (ClientIdentifier c) @
     (if WillFlag c then field_bytes (WillTopic c) @ field_bytes (WillMessage c) else []) @
     (if UsernameFlag c then field_bytes (Username c) else []) @
     (if PasswordFlag c then field_bytes (Password c) else [])"

text \<open>
  A CONNECT packet that the wire format can represent: its fields fit their length prefixes,
  the will quality of service is legal, and what the flags announce as absent is empty.
\<close>

definition connect_wf :: "ConnectPacket \<Rightarrow> bool" where
  "connect_wf c \<longleftrightarrow>
     WillQos c \<le> 2 \<and> ReservedBit c = 0 \<and>
     length (ProtocolName c) \<le> 65535 \<and> length (ClientIdentifier c) \<le> 65535 \<and>
     (if WillFlag c then length (WillTopic c) \<le> 65535 \<and> length (WillMessage c) \<le> 65535
      else WillTopic c = [] \<and> WillMessage c = []) \<and>
     (if UsernameFlag c then length (Username c) \<le> 65535 else Username c = []) \<and>
     (if PasswordFlag c then length (Password c) \<le> 65535 else Password c = [])"

definition connect_reencodable :: "ConnectPacket \<Rightarrow> bool" where
  "connect_reencodable c \<longleftrightarrow> ReservedBit c = 0 \<and> WillQos c \<le> 2"

text \<open>The connect flags byte and the fields read back from it determine each other.\<close>

lemma connect_flags_fields:
  assumes "WillQos c \<le> 2"
  shows "1 AND connect_flags c = 0"
    and "(1 AND drop_bit 1 (connect_flags c) > 0) = CleanSession c"
    and "(1 AND drop_bit 2 (connect_flags c) > 0) = WillFlag c"
    and "3 AND drop_bit 3 (connect_flags c) = WillQos c"
    and "(1 AND drop_bit 5 (connect_flags c) > 0) = WillRetain c"
    and "(1 AND drop_bit 6 (connect_flags c) > 0) = PasswordFlag c"
    and "(1 AND drop_bit 7 (connect_flags c) > 0) = UsernameFlag c"
proof -
  have q: "WillQos c < 4"
    using assms by (simp add: word_less_nat_alt word_le_nat_alt)
  show "1 AND connect_flags c = 0"
    and "(1 AND drop_bit 1 (connect_flags c) > 0) = CleanSession c"
    and "(1 AND drop_bit 2 (connect_flags c) > 0) = WillFlag c"
    and "3 AND drop_bit 3 (connect_flags c) = WillQos c"
    and "(1 AND drop_bit 5 (connect_flags c) > 0) = WillRetain c"
    and "(1 AND drop_bit 6 (connect_flags c) > 0) = PasswordFlag c"
    and "(1 AND drop_bit 7 (connect_flags c) > 0) = UsernameFlag c"
    using high_bits_4 [OF q]
    unfolding bit_field_pos' byte_eq_bits connect_flags_def boolToByte_def
    by (simp_all add: byte_bit_simps)
qed

lemma connect_flags_of_options:
  assumes "1 AND options = 0"
    and "CleanSession c = (1 AND drop_bit 1 options > 0)"
    and "WillFlag c = (1 AND drop_bit 2 options > 0)"
    and "WillQos c = 3 AND drop_bit 3 options"
    and "WillRetain c = (1 AND drop_bit 5 options > 0)"
    and "PasswordFlag c = (1 AND drop_bit 6 options > 0)"
    and "UsernameFlag c = (1 AND drop_bit 7 options > 0)"
  shows "connect_flags c = options"
proof -
  have "\<not> bit options 0"
    using assms(1) by (simp add: byte_eq_bits byte_bit_simps)
  then show ?thesis
    unfolding connect_flags_def assms(2-7) boolToByte_def bit_field_pos' byte_eq_bits
    by (simp add: byte_bit_simps)
qed

lemma ConnectPacket_WriteTo_frame:
  assumes "connect_wf c" and "Qos (con_FixedHeader c) \<le> 2"
    and "int (length (connect_content c)) \<le> MaxRemainingLength"
  shows "ConnectPacket_WriteTo c w = Some (Write w (frame (con_FixedHeader c) (connect_content c)))"
proof -
  have "\<not> WillQos c > 2"
    using assms(1) by (simp add: connect_wf_def leD)
  then have "ConnectPacket_WriteTo c w =
      writeBody w (con_FixedHeader c) (Inr (newBody [] @ connect_content c))"
    using assms(1)
    by (auto simp: ConnectPacket_WriteTo_def connect_wf_def connect_content_def wire_simps Let_def)
  then show ?thesis
    using writeBody_frame assms(2,3) by simp
qed

text \<open>The three optional blocks of the payload, both ways.\<close>

definition will_bytes :: "ConnectPacket \<Rightarrow> bytes" where
  "will_bytes c = (if WillFlag c then field_bytes (WillTopic c) @ field_bytes (WillMessage c) else [])"

definition username_bytes :: "ConnectPacket \<Rightarrow> bytes" where
  "username_bytes c = (if UsernameFlag c then field_bytes (Username c) else [])"

definition password_bytes :: "ConnectPacket \<Rightarrow> bytes" where
  "password_bytes c = (if PasswordFlag c then field_bytes (Password c) else [])"

lemma connect_content_eq:
  "connect_content c = field_bytes (ProtocolName c) @ [ProtocolVersion c, connect_flags c] @
     uint16_bytes (Keepalive c) @ field_bytes (ClientIdentifier c) @
     will_bytes c @ username_bytes c @ password_bytes c"
  by (simp add: connect_content_def will_bytes_def username_bytes_def password_bytes_def)

lemma unpackWill_flat:
  assumes "connect_wf c"
  shows "ConnectPacket_unpackWill (c\<lparr>WillTopic := [], WillMessage := [], Username := u, Password := p\<rparr>)
      (flat (will_bytes c @ bs) fin br) =
    (Inr (c\<lparr>Username := u, Password := p\<rparr>), flat bs fin br)"
  using assms
  by (cases c; cases "WillFlag c";
      simp add: ConnectPacket_unpackWill_def will_bytes_def connect_wf_def flat_simps)

lemma unpackUsername_flat:
  assumes "connect_wf c"
  shows "ConnectPacket_unpackUsername (c\<lparr>Username := [], Password := p\<rparr>)
      (flat (username_bytes c @ bs) fin br) = (Inr (c\<lparr>Password := p\<rparr>), flat bs fin br)"
  using assms
  by (cases c; cases "UsernameFlag c";
      simp add: ConnectPacket_unpackUsername_def username_bytes_def connect_wf_def flat_simps)

lemma unpackPassword_flat:
  assumes "connect_wf c"
  shows "ConnectPacket_unpackPassword (c\<lparr>Password := []\<rparr>) (flat (password_bytes c) fin br) =
    (Inr c, flat [] fin br)"
  using assms
  by (cases c; cases "PasswordFlag c";
      simp add: ConnectPacket_unpackPassword_def password_bytes_def connect_wf_def flat_simps)

lemma unpackWill_Inr:
  assumes "ConnectPacket_unpackWill c r = (Inr c', r')" and "WillTopic c = []" "WillMessage c = []"
  obtains t m where "c' = c\<lparr>WillTopic := t, WillMessage := m\<rparr>" and "data r = will_bytes c' @ data r'"
    and "length t \<le> 65535" and "length m \<le> 65535" and "\<not> WillFlag c \<Longrightarrow> t = [] \<and> m = []"
proof (cases "WillFlag c")
  case True
  with assms obtain t m r1 where "decodeBytes r = (Inr t, r1)" "decodeBytes r1 = (Inr m, r')"
    "c' = c\<lparr>WillTopic := t, WillMessage := m\<rparr>"
    by (auto simp: ConnectPacket_unpackWill_def rbind_Inr_conv rret_def)
  with True show thesis
    by (intro that [where t = t and m = m]) (auto simp: will_bytes_def dest!: decodeBytes_Inr)
next
  case False
  with assms show thesis
    by (intro that [where t = "[]" and m = "[]"])
      (auto simp: ConnectPacket_unpackWill_def rret_def will_bytes_def)
qed

lemma unpackUsername_Inr:
  assumes "ConnectPacket_unpackUsername c r = (Inr c', r')" and "Username c = []"
  obtains u where "c' = c\<lparr>Username := u\<rparr>" and "data r = username_bytes c' @ data r'"
    and "length u \<le> 65535" and "\<not> UsernameFlag c \<Longrightarrow> u = []"
proof (cases "UsernameFlag c")
  case True
  with assms obtain u where "decodeBytes r = (Inr u, r')" "c' = c\<lparr>Username := u\<rparr>"
    by (auto simp: ConnectPacket_unpackUsername_def rbind_Inr_conv rret_def)
  with True show thesis
    by (intro that [of u]) (auto simp: username_bytes_def dest!: decodeBytes_Inr)
next
  case False
  with assms show thesis
    by (intro that [of "[]"]) (auto simp: ConnectPacket_unpackUsername_def rret_def username_bytes_def)
qed

lemma unpackPassword_Inr:
  assumes "ConnectPacket_unpackPassword c r = (Inr c', r')" and "Password c = []"
  obtains p where "c' = c\<lparr>Password := p\<rparr>" and "data r = password_bytes c' @ data r'"
    and "length p \<le> 65535" and "\<not> PasswordFlag c \<Longrightarrow> p = []"
proof (cases "PasswordFlag c")
  case True
  with assms obtain p where "decodeBytes r = (Inr p, r')" "c' = c\<lparr>Password := p\<rparr>"
    by (auto simp: ConnectPacket_unpackPassword_def rbind_Inr_conv rret_def)
  with True show thesis
    by (intro that [of p]) (auto simp: password_bytes_def dest!: decodeBytes_Inr)
next
  case False
  with assms show thesis
    by (intro that [of "[]"]) (auto simp: ConnectPacket_unpackPassword_def rret_def password_bytes_def)
qed

lemma ConnectPacket_Unpack_content:
  assumes "connect_wf c"
  shows "ConnectPacket_Unpack (new_ConnectPacket (con_FixedHeader c)) (flat (connect_content c) fin br) =
    (Inr c, flat [] fin br)"
proof -
  let ?c = "c\<lparr>WillTopic := [], WillMessage := [], Username := [], Password := []\<rparr>"
  have q: "WillQos c \<le> 2" and len: "length (ProtocolName c) \<le> 65535" and res: "ReservedBit c = 0"
    and id: "length (ClientIdentifier c) \<le> 65535"
    using assms by (simp_all add: connect_wf_def)
  have c: "(ConnectPacket_setOptions (connect_flags c) ((new_ConnectPacket (con_FixedHeader c))
       \<lparr>ProtocolName := ProtocolName c, ProtocolVersion := ProtocolVersion c\<rparr>))
     \<lparr>Keepalive := Keepalive c, ClientIdentifier := ClientIdentifier c\<rparr> = ?c"
    unfolding ConnectPacket_setOptions_def connect_flags_fields [OF q]
    using res by (cases c) (simp add: new_ConnectPacket_def)
  have "ConnectPacket_Unpack (new_ConnectPacket (con_FixedHeader c)) (flat (connect_content c) fin br) =
    rbind (ConnectPacket_unpackWill ?c) (\<lambda>c. rbind (ConnectPacket_unpackUsername c)
       ConnectPacket_unpackPassword) (flat (will_bytes c @ username_bytes c @ password_bytes c) fin br)"
    unfolding connect_content_eq ConnectPacket_Unpack_def
    by (simp add: flat_simps len id c)
  also have "\<dots> = (Inr c, flat [] fin br)"
    using unpackWill_flat [OF assms, of "[]" "[]"] unpackUsername_flat [OF assms, of "[]"]
      unpackPassword_flat [OF assms]
    by (simp add: rbind_def)
  finally show ?thesis .
qed

lemma unpackOptional_Inr:
  assumes "rbind (ConnectPacket_unpackWill c0) (\<lambda>c. rbind (ConnectPacket_unpackUsername c)
      ConnectPacket_unpackPassword) r = (Inr c, r')"
    and "WillTopic c0 = []" "WillMessage c0 = []" "Username c0 = []" "Password c0 = []"
  shows "data r = will_bytes c @ username_bytes c @ password_bytes c @ data r'"
    and "\<exists>t m u p. c = c0\<lparr>WillTopic := t, WillMessage := m, Username := u, Password := p\<rparr>"
    and "ReservedBit c = 0 \<Longrightarrow> WillQos c \<le> 2 \<Longrightarrow> length (ProtocolName c) \<le> 65535 \<Longrightarrow>
      length (ClientIdentifier c) \<le> 65535 \<Longrightarrow> connect_wf c"
proof -
  from assms(1) obtain c1 c2 r6 r7 where 1: "ConnectPacket_unpackWill c0 r = (Inr c1, r6)"
    and 2: "ConnectPacket_unpackUsername c1 r6 = (Inr c2, r7)"
    and 3: "ConnectPacket_unpackPassword c2 r7 = (Inr c, r')"
    unfolding rbind_Inr_conv by blast
  from 1 assms(2,3) obtain m t where c1: "c1 = c0\<lparr>WillTopic := t, WillMessage := m\<rparr>"
    and d1: "data r = will_bytes c1 @ data r6" "length t \<le> 65535" "length m \<le> 65535"
      "\<not> WillFlag c0 \<Longrightarrow> t = [] \<and> m = []"
    by (rule unpackWill_Inr) (rule that)
  from 2 obtain u where c2: "c2 = c1\<lparr>Username := u\<rparr>" and d2: "data r6 = username_bytes c2 @ data r7"
      "length u \<le> 65535" "\<not> UsernameFlag c1 \<Longrightarrow> u = []"
    by (rule unpackUsername_Inr) (simp add: c1 assms, rule that)
  from 3 obtain p where c: "c = c2\<lparr>Password := p\<rparr>" and d3: "data r7 = password_bytes c @ data r'"
      "length p \<le> 65535" "\<not> PasswordFlag c2 \<Longrightarrow> p = []"
    by (rule unpackPassword_Inr) (simp add: c2 c1 assms, rule that)
  show "data r = will_bytes c @ username_bytes c @ password_bytes c @ data r'"
    by (simp add: d1(1) d2(1) d3(1))
      (simp add: c c2 c1 will_bytes_def username_bytes_def password_bytes_def)
  show "\<exists>t m u p. c = c0\<lparr>WillTopic := t, WillMessage := m, Username := u, Password := p\<rparr>"
    unfolding c c2 c1 by blast
  show "connect_wf c" if "ReservedBit c = 0" "WillQos c \<le> 2" "length (ProtocolName c) \<le> 65535"
    "length (ClientIdentifier c) \<le> 65535"
    using that d1(2-4) d2(2,3) d3(2,3) unfolding c c2 c1 by (simp add: connect_wf_def)
qed

lemma ConnectPacket_Unpack_Inr:
  assumes "ConnectPacket_Unpack (new_ConnectPacket fh) r = (Inr c, r')"
  shows "con_FixedHeader c = fh"
    and "connect_reencodable c \<Longrightarrow> connect_wf c \<and> data r = connect_content c @ data r'"
proof -
  from assms obtain name version options ka cid r1 r2 r3 r4 r5 where
    steps: "decodeBytes r = (Inr name, r1)" "decodeByte r1 = (Inr version, r2)"
      "decodeByte r2 = (Inr options, r3)" "decodeUint16 r3 = (Inr ka, r4)"
      "decodeBytes r4 = (Inr cid, r5)"
    and rest: "rbind (ConnectPacket_unpackWill ((ConnectPacket_setOptions options
        ((new_ConnectPacket fh)\<lparr>ProtocolName := name, ProtocolVersion := version\<rparr>))
        \<lparr>Keepalive := ka, ClientIdentifier := cid\<rparr>)) (\<lambda>c. rbind (ConnectPacket_unpackUsername c)
       ConnectPacket_unpackPassword) r5 = (Inr c, r')"
    unfolding ConnectPacket_Unpack_def decodeString_eq rbind_Inr_conv by blast
  note fields = decodeBytes_Inr [OF steps(1)] decodeByte_Inr [OF steps(2)]
    decodeByte_Inr [OF steps(3)] decodeUint16_Inr [OF steps(4)] decodeBytes_Inr [OF steps(5)]
  from unpackOptional_Inr(2) [OF rest]
  obtain t m u p where c: "c = (ConnectPacket_setOptions options
        ((new_ConnectPacket fh)\<lparr>ProtocolName := name, ProtocolVersion := version\<rparr>))
        \<lparr>Keepalive := ka, ClientIdentifier := cid, WillTopic := t, WillMessage := m,
          Username := u, Password := p\<rparr>"
    by (auto simp: ConnectPacket_setOptions_def new_ConnectPacket_def)
  show "con_FixedHeader c = fh"
    by (simp add: c ConnectPacket_setOptions_def new_ConnectPacket_def)
  assume re: "connect_reencodable c"
  have "connect_flags c = options"
    using re
    by (intro connect_flags_of_options)
      (simp_all add: c ConnectPacket_setOptions_def connect_reencodable_def)
  moreover have "ProtocolName c = name" "ProtocolVersion c = version" "Keepalive c = ka"
      "ClientIdentifier c = cid"
    by (simp_all add: c ConnectPacket_setOptions_def)
  ultimately show "connect_wf c \<and> data r = connect_content c @ data r'"
    using unpackOptional_Inr(1,3) [OF rest] re fields
    by (simp add: connect_content_eq connect_reencodable_def ConnectPacket_setOptions_def
        new_ConnectPacket_def)
qed

lemma ConnectPacket_Unpack_decoder [decoder_intros]: "stream_decoder (ConnectPacket_Unpack c)"
  unfolding ConnectPacket_Unpack_def ConnectPacket_unpackWill_def ConnectPacket_unpackUsername_def
    ConnectPacket_unpackPassword_def decodeString_eq
  by (intro decoder_intros)

interpretation connect: packet_codec con_FixedHeader "\<lambda>fh c. c\<lparr>con_FixedHeader := fh\<rparr>"
  ConnectPacket_WriteTo "\<lambda>fh. ConnectPacket_Unpack (new_ConnectPacket fh)"
  connect_content connect_wf connect_reencodable
proof (rule packet_codec.intro, goal_cases)
  case (5 p w)
  then show ?case by (rule ConnectPacket_WriteTo_frame)
next
  case (6 fh)
  show ?case by (rule ConnectPacket_Unpack_decoder)
next
  case (7 p)
  then show ?case by (simp add: ConnectPacket_Unpack_content)
next
  case (8 fh bs p r)
  then show ?case using ConnectPacket_Unpack_Inr [OF 8(1)] by auto
qed (simp_all add: connect_content_def connect_flags_def connect_wf_def)

section \<open>CONNACK: content, round trip\<close>

definition connack_content :: "ConnackPacket \<Rightarrow> bytes" where
  "connack_content ca = [boolToByte (SessionPresent ca), ReturnCode ca]"

lemma connack_flags:
  "flags AND 0xFE = 0 \<longleftrightarrow> flags = boolToByte (1 AND flags > 0)" for flags :: byte
  unfolding bit_field_pos' boolToByte_def byte_eq_bits by (simp add: byte_bit_simps)

lemma connack_flag_values [simp]:
  "boolToByte b AND 0xFE = 0" "(1 AND boolToByte b > 0) = b"
  by (simp_all add: boolToByte_def)

lemma ConnackPacket_Unpack_Inr:
  assumes "ConnackPacket_Unpack (new_ConnackPacket fh) r = (Inr ca, r')"
  shows "ca_FixedHeader ca = fh \<and> data r = connack_content ca @ data r'"
proof -
  from assms obtain flags bt r1 where "decodeByte r = (Inr flags, r1)" "decodeByte r1 = (Inr bt, r')"
    and fl: "flags AND 0xFE = 0"
    and ca: "ca = (new_ConnackPacket fh)\<lparr>SessionPresent := (1 AND flags > 0), ReturnCode := bt\<rparr>"
    by (auto simp: ConnackPacket_Unpack_def rbind_Inr_conv rret_def rfail_def split: if_splits)
  then have "data r = flags # bt # data r'"
    by (auto dest!: decodeByte_Inr)
  moreover have "boolToByte (SessionPresent ca) = flags"
    using fl unfolding connack_flags ca by simp
  ultimately show ?thesis
    by (simp add: connack_content_def ca new_ConnackPacket_def)
qed

lemma ConnackPacket_Unpack_decoder [decoder_intros]: "stream_decoder (ConnackPacket_Unpack ca)"
  unfolding ConnackPacket_Unpack_def by (intro decoder_intros)

interpretation connack: packet_codec ca_FixedHeader "\<lambda>fh ca. ca\<lparr>ca_FixedHeader := fh\<rparr>"
  ConnackPacket_WriteTo "\<lambda>fh. ConnackPacket_Unpack (new_ConnackPacket fh)"
  connack_content "\<lambda>_. True" "\<lambda>_. True"
proof (rule packet_codec.intro, goal_cases)
  case (5 p w)
  then show ?case
    using writeBody_frame [of "connack_content p" "ca_FixedHeader p" w "[]"]
    by (simp add: ConnackPacket_WriteTo_def connack_content_def)
next
  case (6 fh)
  show ?case by (rule ConnackPacket_Unpack_decoder)
next
  case (7 p)
  show ?case
    by (cases p) (simp add: ConnackPacket_Unpack_def connack_content_def flat_simps new_ConnackPacket_def
        del: One_nat_def)
next
  case (8 fh bs p r)
  then show ?case using ConnackPacket_Unpack_Inr [OF 8(1)] by auto
qed (simp_all add: connack_content_def)

section \<open>Properties\<close>

text \<open>
  Which CONNECT is accepted: one of the two protocol names with its own version, no reserved
  bit, no password without user name, fields within their length, a will that is legal or wholly
  absent, well-formed text, and a client identifier unless the session is clean. Such a packet
  can be written again.
\<close>

theorem ConnectPacket_accepted:
  "ConnectPacket_Validate c = Accepted \<longleftrightarrow>
     (ProtocolName c = lit ''MQIsdp'' \<and> ProtocolVersion c = 3 \<or>
      ProtocolName c = lit ''MQTT'' \<and> ProtocolVersion c = 4) \<and>
     connect_reencodable c \<and> (\<not> PasswordFlag c \<or> UsernameFlag c) \<and>
     length (ClientIdentifier c) \<le> 65535 \<and> length (Username c) \<le> 65535 \<and>
     length (Password c) \<le> 65535 \<and>
     (if WillFlag c then ValidateTopic (WillTopic c) = None else WillQos c = 0 \<and> \<not> WillRetain c) \<and>
     ValidUTF8String (ClientIdentifier c) \<and> (UsernameFlag c \<longrightarrow> ValidUTF8String (Username c)) \<and>
     (ClientIdentifier c = [] \<longrightarrow> CleanSession c)"
proof -
  have "lit ''MQIsdp'' \<noteq> lit ''MQTT''" by (simp add: lit_def)
  then show ?thesis
    by (auto simp: ConnectPacket_Validate_def connect_reencodable_def linorder_not_less
        linorder_not_le simp del: One_nat_def)
qed

theorem ConnectPacket_accepted_witness:
  "ConnectPacket_Validate ((new_ConnectPacket (zeroHeader Connect 0))
     \<lparr>ProtocolName := lit ''MQTT'', ProtocolVersion := 4, CleanSession := True\<rparr>) = Accepted"
  unfolding ConnectPacket_accepted
  by (simp add: connect_reencodable_def new_ConnectPacket_def ValidUTF8String_def)

text \<open>
  Secrecy of the password in logs. The text of a CONNECT does not depend on which non-empty
  password it holds.
\<close>

theorem ConnectPacket_String_redacts:
  assumes "p \<noteq> []" and "q \<noteq> []"
  shows "ConnectPacket_String (c\<lparr>Password := p\<rparr>) = ConnectPacket_String (c\<lparr>Password := q\<rparr>)"
  using assms by (simp add: ConnectPacket_String_def)

theorem ConnectPacket_String_redacts_witness:
  "ConnectPacket_String ((new_ConnectPacket (zeroHeader Connect 0))\<lparr>Password := lit ''a''\<rparr>) =
   ConnectPacket_String ((new_ConnectPacket (zeroHeader Connect 0))\<lparr>Password := lit ''secret''\<rparr>)"
  by (rule ConnectPacket_String_redacts) (simp_all add: lit_def)

end
