(* ===== verification/PublishPackets.thy ===== *)
theory PublishPackets
  imports PacketCodec Topics
begin

text \<open>
  PUBLISH and its acknowledgements (\<^verbatim>\<open>publish.go\<close>, \<^verbatim>\<open>puback.go\<close>, \<^verbatim>\<open>pubrec.go\<close>,
  \<^verbatim>\<open>pubrel.go\<close>, \<^verbatim>\<open>pubcomp.go\<close>). The payload of a PUBLISH is what the remaining length leaves
  after the topic and the packet identifier.
\<close>

section \<open>PUBLISH\<close>

record PublishPacket =
  pub_FixedHeader :: FixedHeader
  TopicName :: gostring
  pub_MessageID :: uint16
  Payload :: bytes

definition new_PublishPacket :: "FixedHeader \<Rightarrow> PublishPacket" where
  "new_PublishPacket fh =
     \<lparr>pub_FixedHeader = fh, TopicName = [], pub_MessageID = 0, Payload = []\<rparr>"

definition PublishPacket_String :: "PublishPacket \<Rightarrow> gostring" where
  "PublishPacket_String p =
     FixedHeader_String (pub_FixedHeader p) @ lit '' topicName: '' @ TopicName p @
     lit '' MessageID: '' @ fmt_d (unat (pub_MessageID p)) @ lit '' payload: '' @ Payload p"

definition PublishPacket_Validate :: "PublishPacket \<Rightarrow> error option" where
  "PublishPacket_Validate p =
     (if Qos (pub_FixedHeader p) > 0 \<and> pub_MessageID p = 0
      then Some (NewPacketError ''2.3.1-1''
        (lit ''QoS>0 PUBLISH must have a non-zero packet identifier''))
      else if Qos (pub_FixedHeader p) = 0 \<and> Dup (pub_FixedHeader p)
      then Some (NewPacketError ''3.3.1-2'' (lit ''DUP must be 0 for QoS 0 messages''))
      else ValidateTopic (TopicName p))"

definition PublishPacket_StrictValidate :: "PublishPacket \<Rightarrow> error option" where
  "PublishPacket_StrictValidate s = PublishPacket_Validate s"

definition PublishPacket_WriteTo :: "PublishPacket \<Rightarrow> writer \<Rightarrow> write_result option" where
  "PublishPacket_WriteTo p w =
     writeBody w (pub_FixedHeader p)
       (andThen (writeString (newBody []) (TopicName p)) (\<lambda>body.
        let body = (if Qos (pub_FixedHeader p) > 0 then writeUint16 body (pub_MessageID p) else body)
        in Inr (body @ Payload p)))"

definition PublishPacket_Unpack :: "PublishPacket \<Rightarrow> PublishPacket decoder" where
  "PublishPacket_Unpack p =
     (let payloadLength = RemainingLength (pub_FixedHeader p)
      in rbind decodeString (\<lambda>topicName.
         rbind (if Qos (pub_FixedHeader p) > 0
                then rbind decodeUint16 (\<lambda>messageID.
                  rret (messageID, payloadLength - (int (length topicName) + 4)))
                else rret (pub_MessageID p, payloadLength - (int (length topicName) + 2)))
           (\<lambda>(messageID, payloadLength).
         if payloadLength < 0
         then rfail (NewError (lit ''error unpacking publish, payload length < 0''))
         else rbind (ReadFull (nat payloadLength)) (\<lambda>payload.
           rret (p\<lparr>TopicName := topicName, pub_MessageID := messageID, Payload := payload\<rparr>)))))"

definition PublishPacket_Copy :: "PublishPacket \<Rightarrow> PublishPacket" where
  "PublishPacket_Copy p =
     (new_PublishPacket (zeroHeader Publish 0))\<lparr>TopicName := TopicName p, Payload := Payload p\<rparr>"

definition PublishPacket_Details :: "PublishPacket \<Rightarrow> Details" where
  "PublishPacket_Details p =
     \<lparr>details_Qos = Qos (pub_FixedHeader p), details_MessageID = pub_MessageID p\<rparr>"

section \<open>PUBACK\<close>

record PubackPacket =
  puback_FixedHeader :: FixedHeader
  puback_MessageID :: uint16

definition new_PubackPacket :: "FixedHeader \<Rightarrow> PubackPacket" where
  "new_PubackPacket fh = \<lparr>puback_FixedHeader = fh, puback_MessageID = 0\<rparr>"

definition PubackPacket_String :: "PubackPacket \<Rightarrow> gostring" where
  "PubackPacket_String pa =
     FixedHeader_String (puback_FixedHeader pa) @ lit '' MessageID: '' @
     fmt_d (unat (puback_MessageID pa))"

definition PubackPacket_WriteTo :: "PubackPacket \<Rightarrow> writer \<Rightarrow> write_result option" where
  "PubackPacket_WriteTo pa w =
     writeBody w (puback_FixedHeader pa) (Inr (writeUint16 (newBody []) (puback_MessageID pa)))"

definition PubackPacket_Unpack :: "PubackPacket \<Rightarrow> PubackPacket decoder" where
  "PubackPacket_Unpack pa = rbind decodeUint16 (\<lambda>i. rret (pa\<lparr>puback_MessageID := i\<rparr>))"

definition PubackPacket_Details :: "PubackPacket \<Rightarrow> Details" where
  "PubackPacket_Details pa =
     \<lparr>details_Qos = Qos (puback_FixedHeader pa), details_MessageID = puback_MessageID pa\<rparr>"

section \<open>PUBREC\<close>

record PubrecPacket =
  pubrec_FixedHeader :: FixedHeader
  pubrec_MessageID :: uint16

definition new_PubrecPacket :: "FixedHeader \<Rightarrow> PubrecPacket" where
  "new_PubrecPacket fh = \<lparr>pubrec_FixedHeader = fh, pubrec_MessageID = 0\<rparr>"

definition PubrecPacket_String :: "PubrecPacket \<Rightarrow> gostring" where
  "PubrecPacket_String pr =
     FixedHeader_String (pubrec_FixedHeader pr) @ lit '' MessageID: '' @
     fmt_d (unat (pubrec_MessageID pr))"

definition PubrecPacket_WriteTo :: "PubrecPacket \<Rightarrow> writer \<Rightarrow> write_result option" where
  "PubrecPacket_WriteTo pr w =
     writeBody w (pubrec_FixedHeader pr) (Inr (writeUint16 (newBody []) (pubrec_MessageID pr)))"

definition PubrecPacket_Unpack :: "PubrecPacket \<Rightarrow> PubrecPacket decoder" where
  "PubrecPacket_Unpack pr = rbind decodeUint16 (\<lambda>i. rret (pr\<lparr>pubrec_MessageID := i\<rparr>))"

definition PubrecPacket_Details :: "PubrecPacket \<Rightarrow> Details" where
  "PubrecPacket_Details pr =
     \<lparr>details_Qos = Qos (pubrec_FixedHeader pr), details_MessageID = pubrec_MessageID pr\<rparr>"

section \<open>PUBREL\<close>

record PubrelPacket =
  pubrel_FixedHeader :: FixedHeader
  pubrel_MessageID :: uint16

definition new_PubrelPacket :: "FixedHeader \<Rightarrow> PubrelPacket" where
  "new_PubrelPacket fh = \<lparr>pubrel_FixedHeader = fh, pubrel_MessageID = 0\<rparr>"

definition PubrelPacket_String :: "PubrelPacket \<Rightarrow> gostring" where
  "PubrelPacket_String pr =
     FixedHeader_String (pubrel_FixedHeader pr) @ lit '' MessageID: '' @
     fmt_d (unat (pubrel_MessageID pr))"

definition PubrelPacket_WriteTo :: "PubrelPacket \<Rightarrow> writer \<Rightarrow> write_result option" where
  "PubrelPacket_WriteTo pr w =
     writeBody w (pubrel_FixedHeader pr) (Inr (writeUint16 (newBody []) (pubrel_MessageID pr)))"

definition PubrelPacket_Unpack :: "PubrelPacket \<Rightarrow> PubrelPacket decoder" where
  "PubrelPacket_Unpack pr = rbind decodeUint16 (\<lambda>i. rret (pr\<lparr>pubrel_MessageID := i\<rparr>))"

definition PubrelPacket_Details :: "PubrelPacket \<Rightarrow> Details" where
  "PubrelPacket_Details pr =
     \<lparr>details_Qos = Qos (pubrel_FixedHeader pr), details_MessageID = pubrel_MessageID pr\<rparr>"

section \<open>PUBCOMP\<close>

record PubcompPacket =
  pubcomp_FixedHeader :: FixedHeader
  pubcomp_MessageID :: uint16

definition new_PubcompPacket :: "FixedHeader \<Rightarrow> PubcompPacket" where
  "new_PubcompPacket fh = \<lparr>pubcomp_FixedHeader = fh, pubcomp_MessageID = 0\<rparr>"

definition PubcompPacket_String :: "PubcompPacket \<Rightarrow> gostring" where
  "PubcompPacket_String pc =
     FixedHeader_String (pubcomp_FixedHeader pc) @ lit '' MessageID: '' @
     fmt_d (unat (pubcomp_MessageID pc))"

definition PubcompPacket_WriteTo :: "PubcompPacket \<Rightarrow> writer \<Rightarrow> write_result option" where
  "PubcompPacket_WriteTo pc w =
     writeBody w (pubcomp_FixedHeader pc) (Inr (writeUint16 (newBody []) (pubcomp_MessageID pc)))"

definition PubcompPacket_Unpack :: "PubcompPacket \<Rightarrow> PubcompPacket decoder" where
  "PubcompPacket_Unpack pc = rbind decodeUint16 (\<lambda>i. rret (pc\<lparr>pubcomp_MessageID := i\<rparr>))"

definition PubcompPacket_Details :: "PubcompPacket \<Rightarrow> Details" where
  "PubcompPacket_Details pc =
     \<lparr>details_Qos = Qos (pubcomp_FixedHeader pc), details_MessageID = pubcomp_MessageID pc\<rparr>"

section \<open>Round trips\<close>

definition publish_content :: "PublishPacket \<Rightarrow> bytes" where
  "publish_content p =
     field_bytes (TopicName p) @
     (if Qos (pub_FixedHeader p) > 0 then uint16_bytes (pub_MessageID p) else []) @ Payload p"

text \<open>A PUBLISH without quality of service has no identifier on the wire.\<close>

definition publish_wf :: "PublishPacket \<Rightarrow> bool" where
  "publish_wf p \<longleftrightarrow>
     length (TopicName p) \<le> 65535 \<and> (Qos (pub_FixedHeader p) > 0 \<or> pub_MessageID p = 0)"

lemma PublishPacket_Unpack_content:
  assumes "publish_wf p"
    and "RemainingLength (pub_FixedHeader p) = int (length (publish_content p))"
  shows "PublishPacket_Unpack (new_PublishPacket (pub_FixedHeader p)) (flat (publish_content p) fin br) =
    (Inr p, flat [] fin br)"
  using assms
  by (cases p; cases "Qos (pub_FixedHeader p) > 0")
    (simp_all add: PublishPacket_Unpack_def publish_content_def publish_wf_def new_PublishPacket_def
      flat_simps Let_def)

lemma PublishPacket_Unpack_Inr:
  assumes "PublishPacket_Unpack (new_PublishPacket fh) r = (Inr p, r')"
  shows "pub_FixedHeader p = fh \<and> publish_wf p \<and> data r = publish_content p @ data r'"
  using assms
  by (cases "Qos fh > 0")
    (auto simp: PublishPacket_Unpack_def publish_content_def publish_wf_def new_PublishPacket_def
      rbind_Inr_conv rret_def rfail_def Let_def split: if_splits
      dest!: decodeBytes_Inr decodeUint16_Inr ReadFull_Inr)

lemma PublishPacket_Unpack_decoder [decoder_intros]: "stream_decoder (PublishPacket_Unpack p)"
  unfolding PublishPacket_Unpack_def Let_def decodeString_eq case_prod_beta by (intro decoder_intros)

interpretation publish: packet_codec pub_FixedHeader "\<lambda>fh p. p\<lparr>pub_FixedHeader := fh\<rparr>"
  PublishPacket_WriteTo "\<lambda>fh. PublishPacket_Unpack (new_PublishPacket fh)"
  publish_content publish_wf "\<lambda>_. True"
proof (rule packet_codec.intro, goal_cases)
  case (5 p w)
  then show ?case
    using writeBody_frame [of "publish_content p" "pub_FixedHeader p" w "[]"]
    by (simp add: PublishPacket_WriteTo_def publish_content_def publish_wf_def wire_simps split: if_splits)
next
  case (6 fh)
  show ?case by (rule PublishPacket_Unpack_decoder)
next
  case (7 p)
  then show ?case by (rule PublishPacket_Unpack_content)
next
  case (8 fh bs p r)
  then show ?case using PublishPacket_Unpack_Inr [OF 8(1)] by auto
qed (simp_all add: publish_content_def publish_wf_def)

interpretation puback: id_packet puback_FixedHeader puback_MessageID
  "\<lambda>fh i. \<lparr>puback_FixedHeader = fh, puback_MessageID = i\<rparr>"
  PubackPacket_WriteTo "\<lambda>fh. PubackPacket_Unpack (new_PubackPacket fh)"
  by unfold_locales (simp_all add: PubackPacket_WriteTo_def PubackPacket_Unpack_def new_PubackPacket_def)

interpretation pubrec: id_packet pubrec_FixedHeader pubrec_MessageID
  "\<lambda>fh i. \<lparr>pubrec_FixedHeader = fh, pubrec_MessageID = i\<rparr>"
  PubrecPacket_WriteTo "\<lambda>fh. PubrecPacket_Unpack (new_PubrecPacket fh)"
  by unfold_locales (simp_all add: PubrecPacket_WriteTo_def PubrecPacket_Unpack_def new_PubrecPacket_def)

interpretation pubrel: id_packet pubrel_FixedHeader pubrel_MessageID
  "\<lambda>fh i. \<lparr>pubrel_FixedHeader = fh, pubrel_MessageID = i\<rparr>"
  PubrelPacket_WriteTo "\<lambda>fh. PubrelPacket_Unpack (new_PubrelPacket fh)"
  by unfold_locales (simp_all add: PubrelPacket_WriteTo_def PubrelPacket_Unpack_def new_PubrelPacket_def)

interpretation pubcomp: id_packet pubcomp_FixedHeader pubcomp_MessageID
  "\<lambda>fh i. \<lparr>pubcomp_FixedHeader = fh, pubcomp_MessageID = i\<rparr>"
  PubcompPacket_WriteTo "\<lambda>fh. PubcompPacket_Unpack (new_PubcompPacket fh)"
  by unfold_locales (simp_all add: PubcompPacket_WriteTo_def PubcompPacket_Unpack_def new_PubcompPacket_def)

end
