(* ===== verification/SubscribePackets.thy ===== *)
theory SubscribePackets
  imports PacketCodec Topics
begin

text \<open>
  SUBSCRIBE, SUBACK, UNSUBSCRIBE and UNSUBACK (\<^verbatim>\<open>subscribe.go\<close>, \<^verbatim>\<open>suback.go\<close>,
  \<^verbatim>\<open>unsubscribe.go\<close>, \<^verbatim>\<open>unsuback.go\<close>). The unpacking loops count the payload down by the
  size of each entry and stop because every entry has a size.
\<close>

section \<open>SUBSCRIBE\<close>

record SubscribePacket =
  sub_FixedHeader :: FixedHeader
  sub_MessageID :: uint16
  sub_Topics :: "gostring list"
  Qoss :: bytes

definition new_SubscribePacket :: "FixedHeader \<Rightarrow> SubscribePacket" where
  "new_SubscribePacket fh =
     \<lparr>sub_FixedHeader = fh, sub_MessageID = 0, sub_Topics = [], Qoss = []\<rparr>"

text \<open>The verb \<^verbatim>\<open>%s\<close> on a slice of strings: bracketed, separated by spaces.\<close>

fun fmt_strings :: "gostring list \<Rightarrow> gostring" where
  "fmt_strings [] = []"
| "fmt_strings [s] = s"
| "fmt_strings (s # ss) = s @ lit '' '' @ fmt_strings ss"

definition SubscribePacket_String :: "SubscribePacket \<Rightarrow> gostring" where
  "SubscribePacket_String s =
     FixedHeader_String (sub_FixedHeader s) @ lit '' MessageID: '' @
     fmt_d (unat (sub_MessageID s)) @ lit '' topics: ['' @ fmt_strings (sub_Topics s) @ lit '']''"

fun validate_qoss :: "bytes \<Rightarrow> error option" where
  "validate_qoss [] = None"
| "validate_qoss (q # qs) =
     (if q > 2 then Some (NewPacketError ''3.8.3-4'' (lit ''QoS is not 0,1 or 2''))
      else validate_qoss qs)"

fun validate_topics :: "string \<Rightarrow> gostring list \<Rightarrow> error option" where
  "validate_topics code [] = None"
| "validate_topics code (t # ts) =
     (case ValidatePattern t of
        Some err \<Rightarrow> Some (NewPacketError code (Error err))
      | None \<Rightarrow> validate_topics code ts)"

definition SubscribePacket_Validate :: "SubscribePacket \<Rightarrow> error option" where
  "SubscribePacket_Validate s =
     (if sub_MessageID s = 0
      then Some (NewPacketError ''2.3.1-1''
        (lit ''SUBSCRIBE must have a non-zero packet identifier''))
      else if length (Qoss s) \<noteq> length (sub_Topics s) \<or> length (Qoss s) = 0
      then Some (NewPacketError ''3.8.3-4'' (lit ''payload are zero or not pair''))
      else case validate_qoss (Qoss s) of
        Some err \<Rightarrow> Some err
      | None \<Rightarrow> validate_topics ''3.8.3-1'' (sub_Topics s))"

definition SubscribePacket_StrictValidate :: "SubscribePacket \<Rightarrow> error option" where
  "SubscribePacket_StrictValidate s =
     (case SubscribePacket_Validate s of
        Some err \<Rightarrow> Some err
      | None \<Rightarrow>
          (if Dup (sub_FixedHeader s)
           then Some (NewPacketError ''3.8.1-1'' (lit ''fixedhead dup should = false''))
           else if Qos (sub_FixedHeader s) \<noteq> 1
           then Some (NewPacketError ''3.8.1-1'' (lit ''fixedhead qos should = 1''))
           else if Retain (sub_FixedHeader s)
           then Some (NewPacketError ''3.8.1-1'' (lit ''fixedhead retain should = false''))
           else None))"

text \<open>The writing loop; both lists have the same length when it is entered.\<close>

fun write_subscriptions :: "bytes \<Rightarrow> gostring list \<Rightarrow> bytes \<Rightarrow> error + bytes" where
  "write_subscriptions body (t # ts) (q # qs) =
     andThen (writeString body t) (\<lambda>body. write_subscriptions (body @ [q]) ts qs)"
| "write_subscriptions body _ _ = Inr body"

definition SubscribePacket_WriteTo :: "SubscribePacket \<Rightarrow> writer \<Rightarrow> write_result option" where
  "SubscribePacket_WriteTo s w =
     (if length (sub_Topics s) = 0
      then Some ((0, Some (NewPacketError ''3.8.3-3''
        (lit ''subscribe packet must contain at least one topic filter''))), w)
      else if length (sub_Topics s) \<noteq> length (Qoss s)
      then Some ((0, Some (NewPacketError ''3.8.3-4'' (lit ''topics and qoss are not paired''))), w)
      else writeBody w (sub_FixedHeader s)
        (write_subscriptions (writeUint16 (newBody []) (sub_MessageID s)) (sub_Topics s) (Qoss s)))"

function unpack_subscriptions ::
    "int \<Rightarrow> gostring list \<Rightarrow> bytes \<Rightarrow> (gostring list \<times> bytes) decoder" where
  "unpack_subscriptions payloadLength topics qoss =
     (if payloadLength > 0
      then rbind decodeString (\<lambda>topic.
           rbind decodeByte (\<lambda>qos.
           unpack_subscriptions (payloadLength - (2 + int (length topic) + 1))
             (topics @ [topic]) (qoss @ [qos])))
      else rret (topics, qoss))"
  by pat_completeness auto
termination
  by (relation "measure (\<lambda>(n, ts, qs). nat n)") auto

declare unpack_subscriptions.simps [simp del]

definition SubscribePacket_Unpack :: "SubscribePacket \<Rightarrow> SubscribePacket decoder" where
  "SubscribePacket_Unpack s =
     rbind decodeUint16 (\<lambda>messageID.
     rbind (unpack_subscriptions (RemainingLength (sub_FixedHeader s) - 2) (sub_Topics s) (Qoss s))
       (\<lambda>(topics, qoss).
     rret (s\<lparr>sub_MessageID := messageID, sub_Topics := topics, Qoss := qoss\<rparr>)))"

definition SubscribePacket_Details :: "SubscribePacket \<Rightarrow> Details" where
  "SubscribePacket_Details s = \<lparr>details_Qos = 1, details_MessageID = sub_MessageID s\<rparr>"

section \<open>SUBACK\<close>

record SubackPacket =
  suback_FixedHeader :: FixedHeader
  suback_MessageID :: uint16
  ReturnCodes :: bytes

definition new_SubackPacket :: "FixedHeader \<Rightarrow> SubackPacket" where
  "new_SubackPacket fh = \<lparr>suback_FixedHeader = fh, suback_MessageID = 0, ReturnCodes = []\<rparr>"

definition SubackPacket_String :: "SubackPacket \<Rightarrow> gostring" where
  "SubackPacket_String sa =
     FixedHeader_String (suback_FixedHeader sa) @ lit '' MessageID: '' @
     fmt_d (unat (suback_MessageID sa))"

definition SubackPacket_WriteTo :: "SubackPacket \<Rightarrow> writer \<Rightarrow> write_result option" where
  "SubackPacket_WriteTo sa w =
     writeBody w (suback_FixedHeader sa)
       (Inr (writeUint16 (newBody []) (suback_MessageID sa) @ ReturnCodes sa))"

fun validate_codes :: "bytes \<Rightarrow> error option" where
  "validate_codes [] = None"
| "validate_codes (code # codes) =
     (if code > 2 \<and> code \<noteq> 0x80
      then Some (NewPacketError ''3.9.3-2''
        (lit ''invalid suback return code 0x'' @ fmt_x (unat code)))
      else validate_codes codes)"

definition SubackPacket_Validate :: "SubackPacket \<Rightarrow> error option" where
  "SubackPacket_Validate sa =
     (if length (ReturnCodes sa) = 0
      then Some (NewPacketError ''3.9.3'' (lit ''suback packet must contain at least one return code''))
      else validate_codes (ReturnCodes sa))"

definition SubackPacket_Unpack :: "SubackPacket \<Rightarrow> SubackPacket decoder" where
  "SubackPacket_Unpack sa =
     rbind decodeUint16 (\<lambda>messageID.
     rbind ReadFrom (\<lambda>codes.
     rret (sa\<lparr>suback_MessageID := messageID, ReturnCodes := codes\<rparr>)))"

definition SubackPacket_Details :: "SubackPacket \<Rightarrow> Details" where
  "SubackPacket_Details sa = \<lparr>details_Qos = 0, details_MessageID = suback_MessageID sa\<rparr>"

section \<open>UNSUBSCRIBE\<close>

record UnsubscribePacket =
  unsub_FixedHeader :: FixedHeader
  unsub_MessageID :: uint16
  unsub_Topics :: "gostring list"

definition new_UnsubscribePacket :: "FixedHeader \<Rightarrow> UnsubscribePacket" where
  "new_UnsubscribePacket fh =
     \<lparr>unsub_FixedHeader = fh, unsub_MessageID = 0, unsub_Topics = []\<rparr>"

definition UnsubscribePacket_Validate :: "UnsubscribePacket \<Rightarrow> error option" where
  "UnsubscribePacket_Validate s =
     (if unsub_MessageID s = 0
      then Some (NewPacketError ''2.3.1-1''
        (lit ''UNSUBSCRIBE must have a non-zero packet identifier''))
      else if length (unsub_Topics s) = 0
      then Some (NewPacketError ''3.10.3-2'' (lit ''payload are zero''))
      else validate_topics ''3.10.3-1'' (unsub_Topics s))"

definition UnsubscribePacket_StrictValidate :: "UnsubscribePacket \<Rightarrow> error option" where
  "UnsubscribePacket_StrictValidate s =
     (case UnsubscribePacket_Validate s of
        Some err \<Rightarrow> Some err
      | None \<Rightarrow>
          (if Dup (unsub_FixedHeader s)
           then Some (NewPacketError ''3.10.1-1'' (lit ''fixedhead dup should = false''))
           else if Qos (unsub_FixedHeader s) \<noteq> 1
           then Some (NewPacketError ''3.10.1-1'' (lit ''fixedhead qos should = 1''))
           else if Retain (unsub_FixedHeader s)
           then Some (NewPacketError ''3.10.1-1'' (lit ''fixedhead retain should = false''))
           else None))"

definition UnsubscribePacket_String :: "UnsubscribePacket \<Rightarrow> gostring" where
  "UnsubscribePacket_String u =
     FixedHeader_String (unsub_FixedHeader u) @ lit '' MessageID: '' @
     fmt_d (unat (unsub_MessageID u))"

fun write_topics :: "bytes \<Rightarrow> gostring list \<Rightarrow> error + bytes" where
  "write_topics body [] = Inr body"
| "write_topics body (t # ts) = andThen (writeString body t) (\<lambda>body. write_topics body ts)"

definition UnsubscribePacket_WriteTo :: "UnsubscribePacket \<Rightarrow> writer \<Rightarrow> write_result option" where
  "UnsubscribePacket_WriteTo u w =
     (if length (unsub_Topics u) = 0
      then Some ((0, Some (NewPacketError ''3.10.3-2''
        (lit ''unsubscribe packet must contain at least one topic filter''))), w)
      else writeBody w (unsub_FixedHeader u)
        (write_topics (writeUint16 (newBody []) (unsub_MessageID u)) (unsub_Topics u)))"

function unpack_topics :: "int \<Rightarrow> gostring list \<Rightarrow> gostring list decoder" where
  "unpack_topics payloadLength topics =
     (if payloadLength > 0
      then rbind decodeString (\<lambda>topic.
           unpack_topics (payloadLength - (2 + int (length topic))) (topics @ [topic]))
      else rret topics)"
  by pat_completeness auto
termination
  by (relation "measure (\<lambda>(n, ts). nat n)") auto

declare unpack_topics.simps [simp del]

definition UnsubscribePacket_Unpack :: "UnsubscribePacket \<Rightarrow> UnsubscribePacket decoder" where
  "UnsubscribePacket_Unpack u =
     rbind decodeUint16 (\<lambda>messageID.
     rbind (unpack_topics (RemainingLength (unsub_FixedHeader u) - 2) (unsub_Topics u)) (\<lambda>topics.
     rret (u\<lparr>unsub_MessageID := messageID, unsub_Topics := topics\<rparr>)))"

definition UnsubscribePacket_Details :: "UnsubscribePacket \<Rightarrow> Details" where
  "UnsubscribePacket_Details u = \<lparr>details_Qos = 1, details_MessageID = unsub_MessageID u\<rparr>"

section \<open>UNSUBACK\<close>

record UnsubackPacket =
  unsuback_FixedHeader :: FixedHeader
  unsuback_MessageID :: uint16

definition new_UnsubackPacket :: "FixedHeader \<Rightarrow> UnsubackPacket" where
  "new_UnsubackPacket fh = \<lparr>unsuback_FixedHeader = fh, unsuback_MessageID = 0\<rparr>"

definition UnsubackPacket_String :: "UnsubackPacket \<Rightarrow> gostring" where
  "UnsubackPacket_String ua =
     FixedHeader_String (unsuback_FixedHeader ua) @ lit '' MessageID: '' @
     fmt_d (unat (unsuback_MessageID ua))"

definition UnsubackPacket_WriteTo :: "UnsubackPacket \<Rightarrow> writer \<Rightarrow> write_result option" where
  "UnsubackPacket_WriteTo ua w =
     writeBody w (unsuback_FixedHeader ua) (Inr (writeUint16 (newBody []) (unsuback_MessageID ua)))"

definition UnsubackPacket_Unpack :: "UnsubackPacket \<Rightarrow> UnsubackPacket decoder" where
  "UnsubackPacket_Unpack ua = rbind decodeUint16 (\<lambda>i. rret (ua\<lparr>unsuback_MessageID := i\<rparr>))"

definition UnsubackPacket_Details :: "UnsubackPacket \<Rightarrow> Details" where
  "UnsubackPacket_Details ua = \<lparr>details_Qos = 0, details_MessageID = unsuback_MessageID ua\<rparr>"

section \<open>What the validators accept\<close>

lemma validate_qoss_None: "validate_qoss qs = None \<longleftrightarrow> (\<forall>q \<in> set qs. q \<le> 2)"
  by (induction qs) (auto simp: linorder_not_less)

lemma validate_topics_None: "validate_topics code ts = None \<longleftrightarrow> (\<forall>t \<in> set ts. ValidatePattern t = None)"
  by (induction ts) (auto split: option.splits)

lemma validate_codes_None:
  "validate_codes cs = None \<longleftrightarrow> (\<forall>c \<in> set cs. c \<in> {0, 1, 2, 0x80})"
proof -
  have "(c > 2 \<and> c \<noteq> 0x80) \<longleftrightarrow> c \<notin> {0, 1, 2, 0x80}" for c :: byte
    by (simp add: word_less_nat_alt word_unat_eq_iff) arith
  then show ?thesis
    by (induction cs) (simp_all del: insert_iff)
qed

lemma SubscribePacket_Validate_None:
  "SubscribePacket_Validate s = None \<longleftrightarrow>
     sub_MessageID s \<noteq> 0 \<and> sub_Topics s \<noteq> [] \<and> length (Qoss s) = length (sub_Topics s) \<and>
     (\<forall>q \<in> set (Qoss s). q \<le> 2) \<and> (\<forall>t \<in> set (sub_Topics s). ValidatePattern t = None)"
  using validate_qoss_None [of "Qoss s"]
  by (cases "validate_qoss (Qoss s)") (auto simp: SubscribePacket_Validate_def validate_topics_None)

lemma UnsubscribePacket_Validate_None:
  "UnsubscribePacket_Validate s = None \<longleftrightarrow>
     unsub_MessageID s \<noteq> 0 \<and> unsub_Topics s \<noteq> [] \<and>
     (\<forall>t \<in> set (unsub_Topics s). ValidatePattern t = None)"
  by (auto simp: UnsubscribePacket_Validate_def validate_topics_None)

section \<open>Round trips\<close>

fun subscriptions_bytes :: "gostring list \<Rightarrow> bytes \<Rightarrow> bytes" where
  "subscriptions_bytes (t # ts) (q # qs) = field_bytes t @ [q] @ subscriptions_bytes ts qs"
| "subscriptions_bytes _ _ = []"

definition topics_bytes :: "gostring list \<Rightarrow> bytes" where
  "topics_bytes ts = concat (map field_bytes ts)"

lemma topics_bytes_simps [simp]:
  "topics_bytes [] = []" "topics_bytes (t # ts) = field_bytes t @ topics_bytes ts"
  by (simp_all add: topics_bytes_def)

lemma write_subscriptions_bytes:
  "length ts = length qs \<Longrightarrow> \<forall>t \<in> set ts. length t \<le> 65535 \<Longrightarrow>
     write_subscriptions body ts qs = Inr (body @ subscriptions_bytes ts qs)"
  by (induction ts qs arbitrary: body rule: list_induct2) (simp_all add: wire_simps)

lemma write_topics_bytes:
  "\<forall>t \<in> set ts. length t \<le> 65535 \<Longrightarrow> write_topics body ts = Inr (body @ topics_bytes ts)"
  by (induction ts arbitrary: body) (simp_all add: wire_simps)

lemma unpack_subscriptions_bytes:
  "length ts = length qs \<Longrightarrow> \<forall>t \<in> set ts. length t \<le> 65535 \<Longrightarrow>
     unpack_subscriptions (int (length (subscriptions_bytes ts qs))) ts0 qs0
       (flat (subscriptions_bytes ts qs @ rest) fin br) =
     (Inr (ts0 @ ts, qs0 @ qs), flat rest fin br)"
proof (induction ts qs arbitrary: ts0 qs0 rule: list_induct2)
  case Nil
  then show ?case by (simp add: unpack_subscriptions.simps [of 0] rret_def)
next
  case (Cons t ts q qs)
  then show ?case
    by (subst unpack_subscriptions.simps) (simp add: flat_simps)
qed

lemma unpack_topics_bytes:
  "\<forall>t \<in> set ts. length t \<le> 65535 \<Longrightarrow>
     unpack_topics (int (length (topics_bytes ts))) ts0 (flat (topics_bytes ts @ rest) fin br) =
     (Inr (ts0 @ ts), flat rest fin br)"
proof (induction ts arbitrary: ts0)
  case Nil
  then show ?case by (simp add: unpack_topics.simps [of 0] rret_def)
next
  case (Cons t ts)
  then show ?case
    by (subst unpack_topics.simps) (simp add: flat_simps)
qed

text \<open>Conversely the loops return only entries that were on the wire.\<close>

lemma unpack_subscriptions_Inr:
  assumes "unpack_subscriptions n ts0 qs0 r = (Inr (ts', qs'), r')"
  shows "\<exists>ts qs. ts' = ts0 @ ts \<and> qs' = qs0 @ qs \<and> length ts = length qs \<and>
    (\<forall>t \<in> set ts. length t \<le> 65535) \<and> data r = subscriptions_bytes ts qs @ data r'"
  using assms
proof (induction n ts0 qs0 arbitrary: r rule: unpack_subscriptions.induct)
  case (1 n ts0 qs0)
  show ?case
  proof (cases "n > 0")
    case False
    with 1(2) show ?thesis by (auto simp: unpack_subscriptions.simps [of n] rret_def)
  next
    case True
    with 1(2) obtain t q r1 r2 where
      t: "decodeBytes r = (Inr t, r1)" and q: "decodeByte r1 = (Inr q, r2)"
      and rest: "unpack_subscriptions (n - (2 + int (length t) + 1)) (ts0 @ [t]) (qs0 @ [q]) r2 =
        (Inr (ts', qs'), r')"
      by (subst (asm) unpack_subscriptions.simps) (auto simp: rbind_Inr_conv)
    from 1(1) [OF True rest] obtain ts qs where
      "ts' = ts0 @ (t # ts)" "qs' = qs0 @ (q # qs)" "length ts = length qs"
      "\<forall>t \<in> set ts. length t \<le> 65535" "data r2 = subscriptions_bytes ts qs @ data r'"
      by auto
    with decodeBytes_Inr [OF t] decodeByte_Inr [OF q] show ?thesis
      by (intro exI [of _ "t # ts"] exI [of _ "q # qs"]) simp
  qed
qed

lemma unpack_topics_Inr:
  assumes "unpack_topics n ts0 r = (Inr ts', r')"
  shows "\<exists>ts. ts' = ts0 @ ts \<and> (\<forall>t \<in> set ts. length t \<le> 65535) \<and>
    data r = topics_bytes ts @ data r'"
  using assms
proof (induction n ts0 arbitrary: r rule: unpack_topics.induct)
  case (1 n ts0)
  show ?case
  proof (cases "n > 0")
    case False
    with 1(2) show ?thesis by (auto simp: unpack_topics.simps [of n] rret_def)
  next
    case True
    with 1(2) obtain t r1 where t: "decodeBytes r = (Inr t, r1)"
      and rest: "unpack_topics (n - (2 + int (length t))) (ts0 @ [t]) r1 = (Inr ts', r')"
      by (subst (asm) unpack_topics.simps) (auto simp: rbind_Inr_conv)
    from 1(1) [OF True rest] obtain ts where
      "ts' = ts0 @ (t # ts)" "\<forall>t \<in> set ts. length t \<le> 65535" "data r1 = topics_bytes ts @ data r'"
      by auto
    with decodeBytes_Inr [OF t] show ?thesis
      by (intro exI [of _ "t # ts"]) simp
  qed
qed

lemma unpack_subscriptions_decoder [decoder_intros]:
  "stream_decoder (unpack_subscriptions n ts qs)"
proof (induction n ts qs rule: unpack_subscriptions.induct)
  case (1 n ts qs)
  then show ?case
    by (cases "n > 0")
      (simp_all add: unpack_subscriptions.simps [of n ts qs] decoder_intros)
qed

lemma unpack_topics_decoder [decoder_intros]: "stream_decoder (unpack_topics n ts)"
proof (induction n ts rule: unpack_topics.induct)
  case (1 n ts)
  then show ?case
    by (cases "n > 0") (simp_all add: unpack_topics.simps [of n ts] decoder_intros)
qed

definition subscribe_content :: "SubscribePacket \<Rightarrow> bytes" where
  "subscribe_content s =
     uint16_bytes (sub_MessageID s) @ subscriptions_bytes (sub_Topics s) (Qoss s)"

definition subscribe_wf :: "SubscribePacket \<Rightarrow> bool" where
  "subscribe_wf s \<longleftrightarrow> sub_Topics s \<noteq> [] \<and> length (sub_Topics s) = length (Qoss s) \<and>
     (\<forall>t \<in> set (sub_Topics s). length t \<le> 65535)"

definition suback_content :: "SubackPacket \<Rightarrow> bytes" where
  "suback_content sa = uint16_bytes (suback_MessageID sa) @ ReturnCodes sa"

definition unsubscribe_content :: "UnsubscribePacket \<Rightarrow> bytes" where
  "unsubscribe_content u = uint16_bytes (unsub_MessageID u) @ topics_bytes (unsub_Topics u)"

definition unsubscribe_wf :: "UnsubscribePacket \<Rightarrow> bool" where
  "unsubscribe_wf u \<longleftrightarrow> unsub_Topics u \<noteq> [] \<and> (\<forall>t \<in> set (unsub_Topics u). length t \<le> 65535)"

lemma SubscribePacket_Unpack_Inr:
  assumes "SubscribePacket_Unpack (new_SubscribePacket fh) r = (Inr s, r')"
  shows "sub_FixedHeader s = fh \<and> length (sub_Topics s) = length (Qoss s) \<and>
    (\<forall>t \<in> set (sub_Topics s). length t \<le> 65535) \<and> data r = subscribe_content s @ data r'"
  using assms
  by (auto simp: SubscribePacket_Unpack_def new_SubscribePacket_def subscribe_content_def
      rbind_Inr_conv rret_def dest!: decodeUint16_Inr unpack_subscriptions_Inr)

lemma UnsubscribePacket_Unpack_Inr:
  assumes "UnsubscribePacket_Unpack (new_UnsubscribePacket fh) r = (Inr u, r')"
  shows "unsub_FixedHeader u = fh \<and> (\<forall>t \<in> set (unsub_Topics u). length t \<le> 65535) \<and>
    data r = unsubscribe_content u @ data r'"
  using assms
  by (auto simp: UnsubscribePacket_Unpack_def new_UnsubscribePacket_def unsubscribe_content_def
      rbind_Inr_conv rret_def dest!: decodeUint16_Inr unpack_topics_Inr)

interpretation subscribe: packet_codec sub_FixedHeader "\<lambda>fh p. p\<lparr>sub_FixedHeader := fh\<rparr>"
  SubscribePacket_WriteTo "\<lambda>fh. SubscribePacket_Unpack (new_SubscribePacket fh)"
  subscribe_content subscribe_wf "\<lambda>s. sub_Topics s \<noteq> []"
proof (rule packet_codec.intro, goal_cases)
  case (5 p w)
  then show ?case
    using writeBody_frame [of "subscribe_content p" "sub_FixedHeader p" w "[]"]
    by (auto simp: SubscribePacket_WriteTo_def subscribe_content_def subscribe_wf_def
        write_subscriptions_bytes writeUint16_eq)
next
  case (6 fh)
  show ?case
    unfolding SubscribePacket_Unpack_def case_prod_beta by (intro decoder_intros)
next
  case (7 p)
  then show ?case
    using unpack_subscriptions_bytes [of "sub_Topics p" "Qoss p" "[]" "[]" "[]"]
    by (cases p) (simp add: SubscribePacket_Unpack_def new_SubscribePacket_def
        subscribe_content_def subscribe_wf_def flat_simps)
next
  case (8 fh bs p r)
  then show ?case
    using SubscribePacket_Unpack_Inr [OF 8(1)] by (simp add: subscribe_wf_def)
qed (simp_all add: subscribe_content_def subscribe_wf_def)

interpretation suback: packet_codec suback_FixedHeader "\<lambda>fh p. p\<lparr>suback_FixedHeader := fh\<rparr>"
  SubackPacket_WriteTo "\<lambda>fh. SubackPacket_Unpack (new_SubackPacket fh)"
  suback_content "\<lambda>_. True" "\<lambda>_. True"
proof (rule packet_codec.intro, goal_cases)
  case (5 p w)
  then show ?case
    using writeBody_frame [of "suback_content p" "suback_FixedHeader p" w "[]"]
    by (simp add: SubackPacket_WriteTo_def suback_content_def writeUint16_eq)
next
  case (6 fh)
  show ?case unfolding SubackPacket_Unpack_def by (intro decoder_intros)
next
  case (7 p)
  then show ?case
    by (cases p) (simp add: SubackPacket_Unpack_def new_SubackPacket_def suback_content_def flat_simps)
next
  case (8 fh bs p r)
  then show ?case
    by (auto simp: SubackPacket_Unpack_def new_SubackPacket_def suback_content_def rbind_Inr_conv
        rret_def ReadFrom_def split: if_splits dest!: decodeUint16_Inr)
qed (simp_all add: suback_content_def)

interpretation unsubscribe: packet_codec unsub_FixedHeader "\<lambda>fh p. p\<lparr>unsub_FixedHeader := fh\<rparr>"
  UnsubscribePacket_WriteTo "\<lambda>fh. UnsubscribePacket_Unpack (new_UnsubscribePacket fh)"
  unsubscribe_content unsubscribe_wf "\<lambda>u. unsub_Topics u \<noteq> []"
proof (rule packet_codec.intro, goal_cases)
  case (5 p w)
  then show ?case
    using writeBody_frame [of "unsubscribe_content p" "unsub_FixedHeader p" w "[]"]
    by (simp add: UnsubscribePacket_WriteTo_def unsubscribe_content_def unsubscribe_wf_def
        write_topics_bytes writeUint16_eq)
next
  case (6 fh)
  show ?case unfolding UnsubscribePacket_Unpack_def by (intro decoder_intros)
next
  case (7 p)
  then show ?case
    using unpack_topics_bytes [of "unsub_Topics p" "[]" "[]"]
    by (cases p) (simp add: UnsubscribePacket_Unpack_def new_UnsubscribePacket_def
        unsubscribe_content_def unsubscribe_wf_def flat_simps)
next
  case (8 fh bs p r)
  then show ?case
    using UnsubscribePacket_Unpack_Inr [OF 8(1)] by (simp add: unsubscribe_wf_def)
qed (simp_all add: unsubscribe_content_def unsubscribe_wf_def)

interpretation unsuback: id_packet unsuback_FixedHeader unsuback_MessageID
  "\<lambda>fh i. \<lparr>unsuback_FixedHeader = fh, unsuback_MessageID = i\<rparr>"
  UnsubackPacket_WriteTo "\<lambda>fh. UnsubackPacket_Unpack (new_UnsubackPacket fh)"
  by unfold_locales
    (simp_all add: UnsubackPacket_WriteTo_def UnsubackPacket_Unpack_def new_UnsubackPacket_def)

section \<open>Properties\<close>

text \<open>
  A SUBSCRIBE that passes \<^verbatim>\<open>StrictValidate\<close> has a legal fixed header and at least one valid
  filter, each with a quality of 0, 1 or 2; if it fits the maximal length, \<^verbatim>\<open>WriteTo\<close> writes it in
  one piece, and unpacking what was written gives it back.
\<close>

theorem SubscribePacket_strict:
  assumes "SubscribePacket_StrictValidate s = None" and "MessageType (sub_FixedHeader s) = Subscribe"
    and "RemainingLength (sub_FixedHeader s) = int (length (subscribe_content s))"
    and "int (length (subscribe_content s)) \<le> MaxRemainingLength"
  shows "header_ok (sub_FixedHeader s) \<and> sub_Topics s \<noteq> [] \<and>
    length (Qoss s) = length (sub_Topics s) \<and> (\<forall>q \<in> set (Qoss s). q \<le> 2) \<and>
    (\<forall>t \<in> set (sub_Topics s). ValidatePattern t = None) \<and>
    SubscribePacket_WriteTo s w = Some (Write w (frame (sub_FixedHeader s) (subscribe_content s))) \<and>
    SubscribePacket_Unpack (new_SubscribePacket (sub_FixedHeader s)) (buffer (subscribe_content s)) =
      (Inr s, buffer [])"
proof -
  have v: "SubscribePacket_Validate s = None" and fh: "Qos (sub_FixedHeader s) = 1"
    "\<not> Retain (sub_FixedHeader s)"
    using assms(1) by (auto simp: SubscribePacket_StrictValidate_def split: option.splits if_splits)
  note v = v [unfolded SubscribePacket_Validate_None]
  have wf: "subscribe_wf s"
    using v by (auto simp: subscribe_wf_def ValidatePattern_length)
  have "header_ok (sub_FixedHeader s)" using fh assms(2) by (simp add: header_ok_def)
  with wf v fh assms(3,4) show ?thesis
    using subscribe.write_frame [OF wf _ assms(4)] subscribe.unpk_content [OF wf assms(3)] by simp
qed

definition sample_subscribe :: SubscribePacket where
  "sample_subscribe = \<lparr>sub_FixedHeader = (zeroHeader Subscribe 1)\<lparr>RemainingLength := 6\<rparr>,
     sub_MessageID = 5, sub_Topics = [lit ''a''], Qoss = [1]\<rparr>"

theorem SubscribePacket_strict_witness:
  "SubscribePacket_WriteTo sample_subscribe newBuffer =
     Some (Write newBuffer [0x82, 6, 0, 5, 0, 1, 97, 1])"
proof -
  have c: "subscribe_content sample_subscribe = [0, 5, 0, 1, 97, 1]"
    by (simp add: sample_subscribe_def subscribe_content_def uint16_bytes_def field_bytes_def lit_def)
  have "SubscribePacket_StrictValidate sample_subscribe = None"
  proof -
    have "SubscribePacket_Validate sample_subscribe = None"
      by (simp add: SubscribePacket_Validate_None sample_subscribe_def ValidatePattern_None
          topic_string_def filter_levels_def plain_level_def ValidUTF8String_def lit_def)
    then show ?thesis
      by (simp add: SubscribePacket_StrictValidate_def sample_subscribe_def zeroHeader_def)
  qed
  moreover have "frame (sub_FixedHeader sample_subscribe) [0, 5, 0, 1, 97, 1] =
      [0x82, 6, 0, 5, 0, 1, 97, 1]"
    by (simp add: frame_def sample_subscribe_def header_byte_def zeroHeader_def boolToByte_def
        encodeLength.simps)
  ultimately show ?thesis
    using SubscribePacket_strict [of sample_subscribe newBuffer]
    by (simp add: c MaxRemainingLength_def) (simp add: sample_subscribe_def zeroHeader_def)
qed

end
