(* ===== verification/ControlPackets.thy ===== *)
theory ControlPackets
  imports ConnectPackets PublishPackets SubscribePackets
begin

text \<open>
  The packets without content (\<^verbatim>\<open>pingreq.go\<close>, \<^verbatim>\<open>pingresp.go\<close>, \<^verbatim>\<open>disconnect.go\<close>), the
  interface \<^verbatim>\<open>ControlPacket\<close> of \<^verbatim>\<open>packets.go\<close> as the sum of the fourteen packet types with
  its methods as dispatch over them, and the two constructors \<^verbatim>\<open>NewControlPacket\<close> and
  \<^verbatim>\<open>NewControlPacketWithHeader\<close>.

  The sum is a packet codec again, from the codecs of the fourteen types.
\<close>

section \<open>PINGREQ, PINGRESP, DISCONNECT\<close>

record PingreqPacket =
  pingreq_FixedHeader :: FixedHeader

definition PingreqPacket_String :: "PingreqPacket \<Rightarrow> gostring" where
  "PingreqPacket_String pr = FixedHeader_String (pingreq_FixedHeader pr)"

definition PingreqPacket_WriteTo :: "PingreqPacket \<Rightarrow> writer \<Rightarrow> write_result option" where
  "PingreqPacket_WriteTo pr w = writeBody w (pingreq_FixedHeader pr) (Inr (newBody []))"

definition PingreqPacket_Unpack :: "PingreqPacket \<Rightarrow> PingreqPacket decoder" where
  "PingreqPacket_Unpack pr = rret pr"

definition PingreqPacket_Details :: "PingreqPacket \<Rightarrow> Details" where
  "PingreqPacket_Details pr = \<lparr>details_Qos = 0, details_MessageID = 0\<rparr>"

record PingrespPacket =
  pingresp_FixedHeader :: FixedHeader

definition PingrespPacket_String :: "PingrespPacket \<Rightarrow> gostring" where
  "PingrespPacket_String pr = FixedHeader_String (pingresp_FixedHeader pr)"

definition PingrespPacket_WriteTo :: "PingrespPacket \<Rightarrow> writer \<Rightarrow> write_result option" where
  "PingrespPacket_WriteTo pr w = writeBody w (pingresp_FixedHeader pr) (Inr (newBody []))"

definition PingrespPacket_Unpack :: "PingrespPacket \<Rightarrow> PingrespPacket decoder" where
  "PingrespPacket_Unpack pr = rret pr"

definition PingrespPacket_Details :: "PingrespPacket \<Rightarrow> Details" where
  "PingrespPacket_Details pr = \<lparr>details_Qos = 0, details_MessageID = 0\<rparr>"

record DisconnectPacket =
  disc_FixedHeader :: FixedHeader

definition DisconnectPacket_String :: "DisconnectPacket \<Rightarrow> gostring" where
  "DisconnectPacket_String d = FixedHeader_String (disc_FixedHeader d)"

definition DisconnectPacket_WriteTo :: "DisconnectPacket \<Rightarrow> writer \<Rightarrow> write_result option" where
  "DisconnectPacket_WriteTo d w = writeBody w (disc_FixedHeader d) (Inr (newBody []))"

definition DisconnectPacket_Unpack :: "DisconnectPacket \<Rightarrow> DisconnectPacket decoder" where
  "DisconnectPacket_Unpack d = rret d"

definition DisconnectPacket_Details :: "DisconnectPacket \<Rightarrow> Details" where
  "DisconnectPacket_Details d = \<lparr>details_Qos = 0, details_MessageID = 0\<rparr>"

interpretation pingreq: empty_packet pingreq_FixedHeader
  "\<lambda>fh. \<lparr>pingreq_FixedHeader = fh\<rparr>" PingreqPacket_WriteTo
  "\<lambda>fh. PingreqPacket_Unpack \<lparr>pingreq_FixedHeader = fh\<rparr>"
  by unfold_locales (simp_all add: PingreqPacket_WriteTo_def PingreqPacket_Unpack_def)

interpretation pingresp: empty_packet pingresp_FixedHeader
  "\<lambda>fh. \<lparr>pingresp_FixedHeader = fh\<rparr>" PingrespPacket_WriteTo
  "\<lambda>fh. PingrespPacket_Unpack \<lparr>pingresp_FixedHeader = fh\<rparr>"
  by unfold_locales (simp_all add: PingrespPacket_WriteTo_def PingrespPacket_Unpack_def)

interpretation disconnect: empty_packet disc_FixedHeader
  "\<lambda>fh. \<lparr>disc_FixedHeader = fh\<rparr>" DisconnectPacket_WriteTo
  "\<lambda>fh. DisconnectPacket_Unpack \<lparr>disc_FixedHeader = fh\<rparr>"
  by unfold_locales (simp_all add: DisconnectPacket_WriteTo_def DisconnectPacket_Unpack_def)

section \<open>The interface \<open>ControlPacket\<close>\<close>

datatype ControlPacket =
    ConnectP ConnectPacket
  | ConnackP ConnackPacket
  | PublishP PublishPacket
  | PubackP PubackPacket
  | PubrecP PubrecPacket
  | PubrelP PubrelPacket
  | PubcompP PubcompPacket
  | SubscribeP SubscribePacket
  | SubackP SubackPacket
  | UnsubscribeP UnsubscribePacket
  | UnsubackP UnsubackPacket
  | PingreqP PingreqPacket
  | PingrespP PingrespPacket
  | DisconnectP DisconnectPacket

text \<open>The embedded \<^verbatim>\<open>FixedHeader\<close>, read and assigned, and the method promoted from it.\<close>

primrec fixedHeader :: "ControlPacket \<Rightarrow> FixedHeader" where
  "fixedHeader (ConnectP p) = con_FixedHeader p"
| "fixedHeader (ConnackP p) = ca_FixedHeader p"
| "fixedHeader (PublishP p) = pub_FixedHeader p"
| "fixedHeader (PubackP p) = puback_FixedHeader p"
| "fixedHeader (PubrecP p) = pubrec_FixedHeader p"
| "fixedHeader (PubrelP p) = pubrel_FixedHeader p"
| "fixedHeader (PubcompP p) = pubcomp_FixedHeader p"
| "fixedHeader (SubscribeP p) = sub_FixedHeader p"
| "fixedHeader (SubackP p) = suback_FixedHeader p"
| "fixedHeader (UnsubscribeP p) = unsub_FixedHeader p"
| "fixedHeader (UnsubackP p) = unsuback_FixedHeader p"
| "fixedHeader (PingreqP p) = pingreq_FixedHeader p"
| "fixedHeader (PingrespP p) = pingresp_FixedHeader p"
| "fixedHeader (DisconnectP p) = disc_FixedHeader p"

primrec set_fixedHeader :: "FixedHeader \<Rightarrow> ControlPacket \<Rightarrow> ControlPacket" where
  "set_fixedHeader fh (ConnectP p) = ConnectP (p\<lparr>con_FixedHeader := fh\<rparr>)"
| "set_fixedHeader fh (ConnackP p) = ConnackP (p\<lparr>ca_FixedHeader := fh\<rparr>)"
| "set_fixedHeader fh (PublishP p) = PublishP (p\<lparr>pub_FixedHeader := fh\<rparr>)"
| "set_fixedHeader fh (PubackP p) = PubackP (p\<lparr>puback_FixedHeader := fh\<rparr>)"
| "set_fixedHeader fh (PubrecP p) = PubrecP (p\<lparr>pubrec_FixedHeader := fh\<rparr>)"
| "set_fixedHeader fh (PubrelP p) = PubrelP (p\<lparr>pubrel_FixedHeader := fh\<rparr>)"
| "set_fixedHeader fh (PubcompP p) = PubcompP (p\<lparr>pubcomp_FixedHeader := fh\<rparr>)"
| "set_fixedHeader fh (SubscribeP p) = SubscribeP (p\<lparr>sub_FixedHeader := fh\<rparr>)"
| "set_fixedHeader fh (SubackP p) = SubackP (p\<lparr>suback_FixedHeader := fh\<rparr>)"
| "set_fixedHeader fh (UnsubscribeP p) = UnsubscribeP (p\<lparr>unsub_FixedHeader := fh\<rparr>)"
| "set_fixedHeader fh (UnsubackP p) = UnsubackP (p\<lparr>unsuback_FixedHeader := fh\<rparr>)"
| "set_fixedHeader fh (PingreqP p) = PingreqP (p\<lparr>pingreq_FixedHeader := fh\<rparr>)"
| "set_fixedHeader fh (PingrespP p) = PingrespP (p\<lparr>pingresp_FixedHeader := fh\<rparr>)"
| "set_fixedHeader fh (DisconnectP p) = DisconnectP (p\<lparr>disc_FixedHeader := fh\<rparr>)"

definition Type :: "ControlPacket \<Rightarrow> byte" where
  "Type cp = FixedHeader_Type (fixedHeader cp)"

primrec WriteTo :: "ControlPacket \<Rightarrow> writer \<Rightarrow> write_result option" where
  "WriteTo (ConnectP p) = ConnectPacket_WriteTo p"
| "WriteTo (ConnackP p) = ConnackPacket_WriteTo p"
| "WriteTo (PublishP p) = PublishPacket_WriteTo p"
| "WriteTo (PubackP p) = PubackPacket_WriteTo p"
| "WriteTo (PubrecP p) = PubrecPacket_WriteTo p"
| "WriteTo (PubrelP p) = PubrelPacket_WriteTo p"
| "WriteTo (PubcompP p) = PubcompPacket_WriteTo p"
| "WriteTo (SubscribeP p) = SubscribePacket_WriteTo p"
| "WriteTo (SubackP p) = SubackPacket_WriteTo p"
| "WriteTo (UnsubscribeP p) = UnsubscribePacket_WriteTo p"
| "WriteTo (UnsubackP p) = UnsubackPacket_WriteTo p"
| "WriteTo (PingreqP p) = PingreqPacket_WriteTo p"
| "WriteTo (PingrespP p) = PingrespPacket_WriteTo p"
| "WriteTo (DisconnectP p) = DisconnectPacket_WriteTo p"

primrec Unpack :: "ControlPacket \<Rightarrow> ControlPacket decoder" where
  "Unpack (ConnectP p) = rbind (ConnectPacket_Unpack p) (\<lambda>p. rret (ConnectP p))"
| "Unpack (ConnackP p) = rbind (ConnackPacket_Unpack p) (\<lambda>p. rret (ConnackP p))"
| "Unpack (PublishP p) = rbind (PublishPacket_Unpack p) (\<lambda>p. rret (PublishP p))"
| "Unpack (PubackP p) = rbind (PubackPacket_Unpack p) (\<lambda>p. rret (PubackP p))"
| "Unpack (PubrecP p) = rbind (PubrecPacket_Unpack p) (\<lambda>p. rret (PubrecP p))"
| "Unpack (PubrelP p) = rbind (PubrelPacket_Unpack p) (\<lambda>p. rret (PubrelP p))"
| "Unpack (PubcompP p) = rbind (PubcompPacket_Unpack p) (\<lambda>p. rret (PubcompP p))"
| "Unpack (SubscribeP p) = rbind (SubscribePacket_Unpack p) (\<lambda>p. rret (SubscribeP p))"
| "Unpack (SubackP p) = rbind (SubackPacket_Unpack p) (\<lambda>p. rret (SubackP p))"
| "Unpack (UnsubscribeP p) = rbind (UnsubscribePacket_Unpack p) (\<lambda>p. rret (UnsubscribeP p))"
| "Unpack (UnsubackP p) = rbind (UnsubackPacket_Unpack p) (\<lambda>p. rret (UnsubackP p))"
| "Unpack (PingreqP p) = rbind (PingreqPacket_Unpack p) (\<lambda>p. rret (PingreqP p))"
| "Unpack (PingrespP p) = rbind (PingrespPacket_Unpack p) (\<lambda>p. rret (PingrespP p))"
| "Unpack (DisconnectP p) = rbind (DisconnectPacket_Unpack p) (\<lambda>p. rret (DisconnectP p))"

primrec String :: "ControlPacket \<Rightarrow> gostring" where
  "String (ConnectP p) = ConnectPacket_String p"
| "String (ConnackP p) = ConnackPacket_String p"
| "String (PublishP p) = PublishPacket_String p"
| "String (PubackP p) = PubackPacket_String p"
| "String (PubrecP p) = PubrecPacket_String p"
| "String (PubrelP p) = PubrelPacket_String p"
| "String (PubcompP p) = PubcompPacket_String p"
| "String (SubscribeP p) = SubscribePacket_String p"
| "String (SubackP p) = SubackPacket_String p"
| "String (UnsubscribeP p) = UnsubscribePacket_String p"
| "String (UnsubackP p) = UnsubackPacket_String p"
| "String (PingreqP p) = PingreqPacket_String p"
| "String (PingrespP p) = PingrespPacket_String p"
| "String (DisconnectP p) = DisconnectPacket_String p"

primrec ControlPacket_Details :: "ControlPacket \<Rightarrow> Details" where
  "ControlPacket_Details (ConnectP p) = ConnectPacket_Details p"
| "ControlPacket_Details (ConnackP p) = ConnackPacket_Details p"
| "ControlPacket_Details (PublishP p) = PublishPacket_Details p"
| "ControlPacket_Details (PubackP p) = PubackPacket_Details p"
| "ControlPacket_Details (PubrecP p) = PubrecPacket_Details p"
| "ControlPacket_Details (PubrelP p) = PubrelPacket_Details p"
| "ControlPacket_Details (PubcompP p) = PubcompPacket_Details p"
| "ControlPacket_Details (SubscribeP p) = SubscribePacket_Details p"
| "ControlPacket_Details (SubackP p) = SubackPacket_Details p"
| "ControlPacket_Details (UnsubscribeP p) = UnsubscribePacket_Details p"
| "ControlPacket_Details (UnsubackP p) = UnsubackPacket_Details p"
| "ControlPacket_Details (PingreqP p) = PingreqPacket_Details p"
| "ControlPacket_Details (PingrespP p) = PingrespPacket_Details p"
| "ControlPacket_Details (DisconnectP p) = DisconnectPacket_Details p"

section \<open>Constructors\<close>

definition NewControlPacketWithHeader :: "FixedHeader \<Rightarrow> error + ControlPacket" where
  "NewControlPacketWithHeader fh =
     (if MessageType fh = Connect then Inr (ConnectP (new_ConnectPacket fh))
      else if MessageType fh = Connack then Inr (ConnackP (new_ConnackPacket fh))
      else if MessageType fh = Disconnect then Inr (DisconnectP \<lparr>disc_FixedHeader = fh\<rparr>)
      else if MessageType fh = Publish then Inr (PublishP (new_PublishPacket fh))
      else if MessageType fh = Puback then Inr (PubackP (new_PubackPacket fh))
      else if MessageType fh = Pubrec then Inr (PubrecP (new_PubrecPacket fh))
      else if MessageType fh = Pubrel then Inr (PubrelP (new_PubrelPacket fh))
      else if MessageType fh = Pubcomp then Inr (PubcompP (new_PubcompPacket fh))
      else if MessageType fh = Subscribe then Inr (SubscribeP (new_SubscribePacket fh))
      else if MessageType fh = Suback then Inr (SubackP (new_SubackPacket fh))
      else if MessageType fh = Unsubscribe then Inr (UnsubscribeP (new_UnsubscribePacket fh))
      else if MessageType fh = Unsuback then Inr (UnsubackP (new_UnsubackPacket fh))
      else if MessageType fh = Pingreq then Inr (PingreqP \<lparr>pingreq_FixedHeader = fh\<rparr>)
      else if MessageType fh = Pingresp then Inr (PingrespP \<lparr>pingresp_FixedHeader = fh\<rparr>)
      else Inl (NewError (lit ''unsupported packet type 0x'' @ fmt_x (unat (MessageType fh)))))"

text \<open>\<^verbatim>\<open>NewControlPacket\<close>; \<open>None\<close> is the nil packet of an unknown type.\<close>

definition NewControlPacket :: "byte \<Rightarrow> ControlPacket option" where
  "NewControlPacket packetType =
     (if packetType = Connect then Some (ConnectP (new_ConnectPacket (zeroHeader Connect 0)))
      else if packetType = Connack then Some (ConnackP (new_ConnackPacket (zeroHeader Connack 0)))
      else if packetType = Disconnect
      then Some (DisconnectP \<lparr>disc_FixedHeader = zeroHeader Disconnect 0\<rparr>)
      else if packetType = Publish then Some (PublishP (new_PublishPacket (zeroHeader Publish 0)))
      else if packetType = Puback then Some (PubackP (new_PubackPacket (zeroHeader Puback 0)))
      else if packetType = Pubrec then Some (PubrecP (new_PubrecPacket (zeroHeader Pubrec 0)))
      else if packetType = Pubrel then Some (PubrelP (new_PubrelPacket (zeroHeader Pubrel 1)))
      else if packetType = Pubcomp then Some (PubcompP (new_PubcompPacket (zeroHeader Pubcomp 0)))
      else if packetType = Subscribe
      then Some (SubscribeP (new_SubscribePacket (zeroHeader Subscribe 1)))
      else if packetType = Suback then Some (SubackP (new_SubackPacket (zeroHeader Suback 0)))
      else if packetType = Unsubscribe
      then Some (UnsubscribeP (new_UnsubscribePacket (zeroHeader Unsubscribe 1)))
      else if packetType = Unsuback
      then Some (UnsubackP (new_UnsubackPacket (zeroHeader Unsuback 0)))
      else if packetType = Pingreq then Some (PingreqP \<lparr>pingreq_FixedHeader = zeroHeader Pingreq 0\<rparr>)
      else if packetType = Pingresp
      then Some (PingrespP \<lparr>pingresp_FixedHeader = zeroHeader Pingresp 0\<rparr>)
      else None)"

section \<open>The sum as a packet codec\<close>

primrec control_content :: "ControlPacket \<Rightarrow> bytes" where
  "control_content (ConnectP p) = connect_content p"
| "control_content (ConnackP p) = connack_content p"
| "control_content (PublishP p) = publish_content p"
| "control_content (PubackP p) = uint16_bytes (puback_MessageID p)"
| "control_content (PubrecP p) = uint16_bytes (pubrec_MessageID p)"
| "control_content (PubrelP p) = uint16_bytes (pubrel_MessageID p)"
| "control_content (PubcompP p) = uint16_bytes (pubcomp_MessageID p)"
| "control_content (SubscribeP p) = subscribe_content p"
| "control_content (SubackP p) = suback_content p"
| "control_content (UnsubscribeP p) = unsubscribe_content p"
| "control_content (UnsubackP p) = uint16_bytes (unsuback_MessageID p)"
| "control_content (PingreqP p) = []"
| "control_content (PingrespP p) = []"
| "control_content (DisconnectP p) = []"

text \<open>The message type that belongs to each packet struct.\<close>

primrec kind :: "ControlPacket \<Rightarrow> byte" where
  "kind (ConnectP p) = Connect"
| "kind (ConnackP p) = Connack"
| "kind (PublishP p) = Publish"
| "kind (PubackP p) = Puback"
| "kind (PubrecP p) = Pubrec"
| "kind (PubrelP p) = Pubrel"
| "kind (PubcompP p) = Pubcomp"
| "kind (SubscribeP p) = Subscribe"
| "kind (SubackP p) = Suback"
| "kind (UnsubscribeP p) = Unsubscribe"
| "kind (UnsubackP p) = Unsuback"
| "kind (PingreqP p) = Pingreq"
| "kind (PingrespP p) = Pingresp"
| "kind (DisconnectP p) = Disconnect"

primrec fields_wf :: "ControlPacket \<Rightarrow> bool" where
  "fields_wf (ConnectP p) = connect_wf p"
| "fields_wf (ConnackP p) = True"
| "fields_wf (PublishP p) = publish_wf p"
| "fields_wf (PubackP p) = True"
| "fields_wf (PubrecP p) = True"
| "fields_wf (PubrelP p) = True"
| "fields_wf (PubcompP p) = True"
| "fields_wf (SubscribeP p) = subscribe_wf p"
| "fields_wf (SubackP p) = True"
| "fields_wf (UnsubscribeP p) = unsubscribe_wf p"
| "fields_wf (UnsubackP p) = True"
| "fields_wf (PingreqP p) = True"
| "fields_wf (PingrespP p) = True"
| "fields_wf (DisconnectP p) = True"

definition control_wf :: "ControlPacket \<Rightarrow> bool" where
  "control_wf cp \<longleftrightarrow> MessageType (fixedHeader cp) = kind cp \<and> fields_wf cp"

primrec reencodable :: "ControlPacket \<Rightarrow> bool" where
  "reencodable (ConnectP p) = connect_reencodable p"
| "reencodable (ConnackP p) = True"
| "reencodable (PublishP p) = True"
| "reencodable (PubackP p) = True"
| "reencodable (PubrecP p) = True"
| "reencodable (PubrelP p) = True"
| "reencodable (PubcompP p) = True"
| "reencodable (SubscribeP p) = (sub_Topics p \<noteq> [])"
| "reencodable (SubackP p) = True"
| "reencodable (UnsubscribeP p) = (unsub_Topics p \<noteq> [])"
| "reencodable (UnsubackP p) = True"
| "reencodable (PingreqP p) = True"
| "reencodable (PingrespP p) = True"
| "reencodable (DisconnectP p) = True"

text \<open>What \<^verbatim>\<open>ReadPacketLimit\<close> does with a header: make the packet, then unpack into it.\<close>

definition unpackWithHeader :: "FixedHeader \<Rightarrow> ControlPacket decoder" where
  "unpackWithHeader fh = (case NewControlPacketWithHeader fh of
      Inl err \<Rightarrow> rfail err
    | Inr cp \<Rightarrow> Unpack cp)"

lemmas write_frames =
  connect.write_frame connack.write_frame publish.write_frame puback.write_frame
  pubrec.write_frame pubrel.write_frame pubcomp.write_frame subscribe.write_frame
  suback.write_frame unsubscribe.write_frame unsuback.write_frame pingreq.write_frame
  pingresp.write_frame disconnect.write_frame

lemmas unpk_contents =
  connect.unpk_content connack.unpk_content publish.unpk_content puback.unpk_content
  pubrec.unpk_content pubrel.unpk_content pubcomp.unpk_content subscribe.unpk_content
  suback.unpk_content unsubscribe.unpk_content unsuback.unpk_content pingreq.unpk_content
  pingresp.unpk_content disconnect.unpk_content

lemmas unpk_decoders =
  connect.unpk_decoder connack.unpk_decoder publish.unpk_decoder puback.unpk_decoder
  pubrec.unpk_decoder pubrel.unpk_decoder pubcomp.unpk_decoder subscribe.unpk_decoder
  suback.unpk_decoder unsubscribe.unpk_decoder unsuback.unpk_decoder pingreq.unpk_decoder
  pingresp.unpk_decoder disconnect.unpk_decoder

lemmas unpk_sounds =
  connect.unpk_sound connack.unpk_sound publish.unpk_sound puback.unpk_sound
  pubrec.unpk_sound pubrel.unpk_sound pubcomp.unpk_sound subscribe.unpk_sound
  suback.unpk_sound unsubscribe.unpk_sound unsuback.unpk_sound pingreq.unpk_sound
  pingresp.unpk_sound disconnect.unpk_sound

lemma NewControlPacketWithHeader_header:
  assumes "NewControlPacketWithHeader fh = Inr cp"
  shows "fixedHeader cp = fh \<and> kind cp = MessageType fh"
  using assms
  by (auto simp: NewControlPacketWithHeader_def new_ConnectPacket_def new_ConnackPacket_def
      new_PublishPacket_def new_PubackPacket_def new_PubrecPacket_def new_PubrelPacket_def
      new_PubcompPacket_def new_SubscribePacket_def new_SubackPacket_def
      new_UnsubscribePacket_def new_UnsubackPacket_def split: if_splits)

lemma byte_le_14_cases:
  assumes "1 \<le> t" and "t \<le> 14"
  shows "t = 1 \<or> t = 2 \<or> t = 3 \<or> t = 4 \<or> t = 5 \<or> t = 6 \<or> t = 7 \<or> t = 8 \<or> t = 9 \<or> t = 10 \<or>
    t = 11 \<or> t = 12 \<or> t = 13 \<or> t = (14 :: byte)"
  using assms unfolding word_le_nat_alt word_unat_eq_iff by simp arith

text \<open>Every type a header can have after \<^verbatim>\<open>unpack\<close> has a packet, so the error is not reached.\<close>

lemma NewControlPacketWithHeader_ok:
  assumes "header_ok fh"
  shows "\<exists>cp. NewControlPacketWithHeader fh = Inr cp"
proof -
  have "1 \<le> MessageType fh" "MessageType fh \<le> 14"
    using assms by (auto simp: header_ok_def)
  from byte_le_14_cases [OF this] show ?thesis
    by (elim disjE) (simp_all add: NewControlPacketWithHeader_def)
qed

lemma unpackWithHeader_decoder: "stream_decoder (unpackWithHeader fh)"
  unfolding unpackWithHeader_def NewControlPacketWithHeader_def
  using unpk_decoders [of fh]
  by (simp add: decoder_intros)

lemma unpackWithHeader_content:
  assumes "control_wf cp" and "RemainingLength (fixedHeader cp) = int (length (control_content cp))"
  shows "unpackWithHeader (fixedHeader cp) (buffer (control_content cp)) = (Inr cp, buffer [])"
  using assms
  by (cases cp) (simp_all add: control_wf_def unpackWithHeader_def NewControlPacketWithHeader_def
      unpk_contents flat_simps)

lemma unpackWithHeader_sound:
  assumes "unpackWithHeader fh (buffer bs) = (Inr cp, r)" and "data r = []"
    and "RemainingLength fh = int (length bs)"
  shows "fixedHeader cp = fh \<and> kind cp = MessageType fh \<and>
    (reencodable cp \<longrightarrow> control_wf cp \<and> control_content cp = bs)"
  using assms
  by (auto simp: unpackWithHeader_def NewControlPacketWithHeader_def rbind_Inr_conv rret_def rfail_def
      control_wf_def
      split: if_splits dest!: unpk_sounds)

interpretation control: packet_codec fixedHeader set_fixedHeader WriteTo unpackWithHeader
  control_content control_wf reencodable
proof (rule packet_codec.intro, goal_cases)
  case (1 fh p)
  then show ?case by (cases p) simp_all
next
  case (2 p)
  then show ?case by (cases p) simp_all
next
  case (3 n p)
  then show ?case by (cases p) (simp_all add: connect_content_def connect_flags_def connack_content_def
        publish_content_def subscribe_content_def suback_content_def unsubscribe_content_def)
next
  case (4 n p)
  then show ?case by (cases p) (simp_all add: control_wf_def connect_wf_def publish_wf_def
        subscribe_wf_def unsubscribe_wf_def)
next
  case (5 p w)
  then show ?case by (cases p) (simp_all add: control_wf_def write_frames)
next
  case (6 fh)
  show ?case by (rule unpackWithHeader_decoder)
next
  case (7 p)
  then show ?case by (rule unpackWithHeader_content)
next
  case (8 fh bs p r)
  then show ?case using unpackWithHeader_sound by blast
qed

lemma WriteTo_returns: "WriteTo cp w \<noteq> None"
  by (cases cp)
    (simp_all add: ConnectPacket_WriteTo_def ConnackPacket_WriteTo_def PublishPacket_WriteTo_def
      PubackPacket_WriteTo_def PubrecPacket_WriteTo_def PubrelPacket_WriteTo_def
      PubcompPacket_WriteTo_def SubscribePacket_WriteTo_def SubackPacket_WriteTo_def
      UnsubscribePacket_WriteTo_def UnsubackPacket_WriteTo_def PingreqPacket_WriteTo_def
      PingrespPacket_WriteTo_def DisconnectPacket_WriteTo_def writeBody_returns del: not_None_eq)

text \<open>A packet as its receiver gets it: the remaining length in its header is the actual one.\<close>

definition as_received :: "ControlPacket \<Rightarrow> ControlPacket" where
  "as_received cp = set_fixedHeader
     ((fixedHeader cp)\<lparr>RemainingLength := int (length (control_content cp))\<rparr>) cp"

lemma unpackWithHeader_received:
  assumes "control_wf cp"
  shows "unpackWithHeader ((fixedHeader cp)\<lparr>RemainingLength := int (length (control_content cp))\<rparr>)
    (buffer (control_content cp)) = (Inr (as_received cp), buffer [])"
  using control.unpk_received [OF assms] by (simp add: as_received_def control.received_def)

lemma as_received_id:
  "RemainingLength (fixedHeader cp) = int (length (control_content cp)) \<Longrightarrow> as_received cp = cp"
  using control.received_id by (simp add: as_received_def control.received_def)

section \<open>Properties\<close>

text \<open>
  The constructors. \<^verbatim>\<open>NewControlPacket\<close> returns, for every type from 1 to 14, an empty packet
  of that type whose header the codec accepts, the same one \<^verbatim>\<open>NewControlPacketWithHeader\<close> makes
  from that header; for any other byte it returns nil.
\<close>

theorem NewControlPacket_types:
  "if 1 \<le> t \<and> t \<le> 14
   then \<exists>cp. NewControlPacket t = Some cp \<and> Type cp = t \<and> kind cp = t \<and>
     header_ok (fixedHeader cp) \<and> NewControlPacketWithHeader (fixedHeader cp) = Inr cp
   else NewControlPacket t = None"
proof (cases "1 \<le> t \<and> t \<le> 14")
  case True
  then have "t \<in> {1, 2, 3, 4, 5, 6, 7, 8, 9, 10, 11, 12, 13, 14}"
    using byte_le_14_cases by blast
  then show ?thesis
    using True
    by (elim insertE) (simp_all add: NewControlPacket_def NewControlPacketWithHeader_def Type_def
        FixedHeader_Type_def zeroHeader_def header_ok_def new_ConnectPacket_def
        new_ConnackPacket_def new_PublishPacket_def new_PubackPacket_def new_PubrecPacket_def
        new_PubrelPacket_def new_PubcompPacket_def new_SubscribePacket_def new_SubackPacket_def
        new_UnsubscribePacket_def new_UnsubackPacket_def)
next
  case False
  then show ?thesis by (auto simp: NewControlPacket_def)
qed

end
