(* ===== verification/Codec.thy ===== *)
theory Codec
  imports ControlPackets
begin

text \<open>
  \<^verbatim>\<open>ReadPacketLimit\<close> and \<^verbatim>\<open>ReadPacket\<close> of \<^verbatim>\<open>packets.go\<close>, and what they return by the
  shape of the stream: nothing there, illegal flags, a malformed or unfinished length, a packet
  over the limit, an unfinished body, a complete packet. From these cases follow the round trip
  with \<^verbatim>\<open>WriteTo\<close>, the soundness of decoding, the meaning of \<open>EOF\<close> and the fact that
  the reader stays in step with the stream.
\<close>

section \<open>Reading a packet\<close>

text \<open>Once a packet has begun, the end of the stream is a truncation.\<close>

definition unexpectedEOF :: "error \<Rightarrow> error" where
  "unexpectedEOF err = (if err = EOF then ErrUnexpectedEOF else err)"

definition withinPacket :: "'a decoder \<Rightarrow> 'a decoder" where
  "withinPacket m r = (case m r of
      (Inl err, r') \<Rightarrow> (Inl (unexpectedEOF err), r')
    | (Inr v, r') \<Rightarrow> (Inr v, r'))"

text \<open>The end of \<^verbatim>\<open>ReadPacketLimit\<close>: the received body is unpacked and must be used up.\<close>

definition unpackBody :: "FixedHeader \<Rightarrow> ControlPacket \<Rightarrow> bytes \<Rightarrow> error + ControlPacket" where
  "unpackBody fh cp body = (case Unpack cp (buffer body) of
      (Inl err, _) \<Rightarrow>
        Inl (if err = EOF \<or> err = ErrUnexpectedEOF
             then Wrap ErrShortRemainingLength (PacketNames (MessageType fh)) else err)
    | (Inr cp', rest) \<Rightarrow>
        (if length (data rest) > 0
         then Inl (Wrap ErrTrailingBytes (fmt_d (length (data rest)) @
           lit '' trailing bytes after '' @ PacketNames (MessageType fh)))
         else Inr cp'))"

definition clampLimit :: "int \<Rightarrow> int" where
  "clampLimit maxRemainingLength =
     (if maxRemainingLength \<le> 0 \<or> maxRemainingLength > MaxRemainingLength
      then MaxRemainingLength else maxRemainingLength)"

definition ReadPacketLimit :: "int \<Rightarrow> ControlPacket decoder" where
  "ReadPacketLimit maxRemainingLength =
     rbind (ReadFull 1) (\<lambda>b.
     rbind (withinPacket (unpack (b ! 0))) (\<lambda>fh.
     if RemainingLength fh > clampLimit maxRemainingLength then rfail ErrPacketTooLarge
     else case NewControlPacketWithHeader fh of
       Inl err \<Rightarrow> rfail err
     | Inr cp \<Rightarrow>
         rbind (if RemainingLength fh > 0
                then withinPacket (CopyN (nat (RemainingLength fh)))
                else rret []) (\<lambda>body.
         (\<lambda>r. (unpackBody fh cp body, r)))))"

definition ReadPacket :: "ControlPacket decoder" where
  "ReadPacket = ReadPacketLimit MaxRemainingLength"

section \<open>A decoder of the stream\<close>

lemma withinPacket_decoder [decoder_intros]:
  assumes "stream_decoder m"
  shows "stream_decoder (withinPacket m)"
proof -
  have eq: "withinPacket m r = (map_sum unexpectedEOF id (fst (m r)), snd (m r))" for r
    by (auto simp: withinPacket_def split: prod.splits sum.splits)
  show ?thesis
    using stream_decoder.respects [OF assms] stream_decoder.consumes [OF assms]
      stream_decoder.keeps_final [OF assms]
    by unfold_locales (auto simp: eq)
qed

lemma const_decoder [decoder_intros]: "stream_decoder (\<lambda>r. (v, r))"
  by unfold_locales simp_all

lemma case_sum_decoder [decoder_intros]:
  "(\<And>e. stream_decoder (f e)) \<Longrightarrow> (\<And>v. stream_decoder (g v)) \<Longrightarrow>
     stream_decoder (case x of Inl e \<Rightarrow> f e | Inr v \<Rightarrow> g v)"
  by (cases x) simp_all

lemma ReadPacketLimit_decoder: "stream_decoder (ReadPacketLimit m)"
  unfolding ReadPacketLimit_def by (intro decoder_intros)

section \<open>The result by the shape of the stream\<close>

lemma withinPacket_app [flat_simps]:
  "m r = (Inr v, r') \<Longrightarrow> withinPacket m r = (Inr v, r')"
  "m r = (Inl e, r') \<Longrightarrow> withinPacket m r = (Inl (unexpectedEOF e), r')"
  by (simp_all add: withinPacket_def)

lemma ReadPacketLimit_Nil: "ReadPacketLimit m (flat [] fin br) = (Inl fin, flat [] fin br)"
  by (simp add: ReadPacketLimit_def flat_simps)

definition flag_error :: "error \<Rightarrow> bool" where
  "flag_error e \<longleftrightarrow> e = NewError (lit ''invalid mqtt flag(messagetype)'') \<or>
     errors_Is e ErrInvalidFixedHeaderFlags"

lemma ReadPacketLimit_flags:
  assumes "\<not> header_ok (header_of t 0)"
  shows "\<exists>e. ReadPacketLimit m (flat (t # bs) fin br) = (Inl e, flat bs fin br) \<and>
    flag_error e \<and> e \<noteq> EOF"
  using assms
  by (rule unpack_bad)
    (simp_all add: ReadPacketLimit_def flat_simps unexpectedEOF_def flag_error_def)

lemma ReadPacketLimit_malformed:
  assumes "header_ok (header_of t 0)" and "length ds = 4" and "\<forall>d \<in> set ds. d AND 128 \<noteq> 0"
  shows "ReadPacketLimit m (flat (t # ds @ bs) fin br) =
    (Inl ErrMalformedRemainingLength, flat bs fin br)"
  using assms
  by (simp add: ReadPacketLimit_def flat_simps unpack_ok decodeLength_malformed unexpectedEOF_def)

lemma ReadPacketLimit_short_length:
  assumes "header_ok (header_of t 0)" and "length ds < 4" and "\<forall>d \<in> set ds. d AND 128 \<noteq> 0"
  shows "ReadPacketLimit m (flat (t # ds) fin br) = (Inl (unexpectedEOF fin), flat [] fin br)"
  using assms by (simp add: ReadPacketLimit_def flat_simps unpack_ok decodeLength_short)

text \<open>With a complete header the limit is checked, then the body is awaited, then unpacked.\<close>

lemma ReadPacketLimit_step:
  assumes "header_ok (header_of t 0)" and "length_digits ds" and "length ds \<le> 4"
    and "NewControlPacketWithHeader (header_of t (int (lengthValue ds))) = Inr cp"
  shows "ReadPacketLimit m (flat (t # ds @ bs) fin br) =
    (if int (lengthValue ds) > clampLimit m then (Inl ErrPacketTooLarge, flat bs fin br)
     else if lengthValue ds \<le> length bs
     then (unpackBody (header_of t (int (lengthValue ds))) cp (take (lengthValue ds) bs),
           flat (drop (lengthValue ds) bs) fin br)
     else (Inl (unexpectedEOF fin), flat [] fin br))"
proof -
  have "RemainingLength (header_of t n) = n" for n
    by (simp add: header_of_def)
  then show ?thesis
    using assms by (simp add: ReadPacketLimit_def flat_simps unpack_ok decodeLength_complete)
qed

lemma header_ok_packet:
  assumes "header_ok (header_of t 0)"
  obtains cp where "NewControlPacketWithHeader (header_of t n) = Inr cp"
  using NewControlPacketWithHeader_ok assms header_ok_header_of by blast

text \<open>The cases of a stream that starts with some byte.\<close>

lemma packet_bytes_cases [case_names flags malformed short_length step]:
  obtains "\<not> header_ok (header_of t 0)"
  | ds rest where "header_ok (header_of t 0)" "bs = ds @ rest" "length ds = 4"
      "\<forall>d \<in> set ds. d AND 128 \<noteq> 0"
  | "header_ok (header_of t 0)" "length bs < 4" "\<forall>d \<in> set bs. d AND 128 \<noteq> 0"
  | ds rest cp where "header_ok (header_of t 0)" "bs = ds @ rest" "length_digits ds"
      "length ds \<le> 4" "NewControlPacketWithHeader (header_of t (int (lengthValue ds))) = Inr cp"
proof (cases "header_ok (header_of t 0)")
  case True
  show thesis
  proof (cases bs rule: length_bytes_cases)
    case (complete ds rest)
    obtain cp where "NewControlPacketWithHeader (header_of t (int (lengthValue ds))) = Inr cp"
      using True by (rule header_ok_packet)
    with True complete show thesis by (intro that(4))
  next
    case (malformed ds rest)
    with True show thesis by (intro that(2))
  next
    case short
    with True show thesis by (intro that(3))
  qed
qed (rule that(1))

lemma unpackBody_unpackWithHeader:
  assumes "NewControlPacketWithHeader fh = Inr cp"
  shows "Unpack cp = unpackWithHeader fh"
  using assms by (simp add: unpackWithHeader_def)

lemma unpackBody_Inr:
  assumes "NewControlPacketWithHeader fh = Inr cp" and "unpackBody fh cp body = Inr cp'"
    and "RemainingLength fh = int (length body)"
  shows "fixedHeader cp' = fh \<and> kind cp' = MessageType fh \<and>
    (reencodable cp' \<longrightarrow> control_wf cp' \<and> control_content cp' = body)"
proof -
  from assms(2) obtain r where "Unpack cp (buffer body) = (Inr cp', r)" "data r = []"
    by (auto simp: unpackBody_def split: prod.splits sum.splits if_splits)
  then show ?thesis
    using assms by (intro unpackWithHeader_sound) (simp_all add: unpackBody_unpackWithHeader)
qed

lemma unpackBody_not_EOF: "unpackBody fh cp body \<noteq> Inl EOF"
  by (auto simp: unpackBody_def split: prod.splits sum.splits if_splits)

text \<open>The encoding of a well-formed packet, in front of anything, is read back.\<close>

lemma ReadPacketLimit_frame:
  assumes "control_wf cp" and "header_ok (fixedHeader cp)"
    and "int (length (control_content cp)) \<le> clampLimit m"
  shows "ReadPacketLimit m (flat (frame (fixedHeader cp) (control_content cp) @ rest) fin br) =
    (Inr (as_received cp), flat rest fin br)"
proof -
  let ?n = "length (control_content cp)" and ?t = "header_byte (fixedHeader cp)"
  have max: "int ?n \<le> MaxRemainingLength"
    using assms(3) by (simp add: clampLimit_def split: if_splits)
  have ok: "header_ok (header_of ?t 0)"
    using assms(2) by (simp add: header_of_byte)
  obtain new where new: "NewControlPacketWithHeader (header_of ?t (int ?n)) = Inr new"
    using ok by (rule header_ok_packet)
  have digits: "length_digits (encodeLength ?n)" "lengthValue (encodeLength ?n) = ?n"
    "length (encodeLength ?n) \<le> 4"
    using encodeLength_digits [of ?n] encodeLength_loop_array(2) [OF max] by auto
  have "unpackBody (header_of ?t (int ?n)) new (control_content cp) = Inr (as_received cp)"
    using unpackWithHeader_received [OF assms(1)] unpackBody_unpackWithHeader [OF new]
    by (simp add: unpackBody_def header_of_byte [OF assms(2)])
  with ReadPacketLimit_step [OF ok digits(1,3)] new digits assms(3) show ?thesis
    by (simp add: frame_def)
qed

text \<open>
  Conversely a packet that is read was announced by the first bytes of the stream, lies within
  the limit and used exactly its announced length.
\<close>

lemma ReadPacketLimit_Inr:
  assumes "ReadPacketLimit m r = (Inr cp, r')"
  obtains ds body where "header_ok (fixedHeader cp)"
    and "kind cp = MessageType (fixedHeader cp)"
    and "data r = header_byte (fixedHeader cp) # ds @ body @ data r'"
    and "length_digits ds" and "length ds \<le> 4" and "lengthValue ds = length body"
    and "RemainingLength (fixedHeader cp) = int (length body)"
    and "int (length body) \<le> clampLimit m"
    and "reencodable cp \<Longrightarrow> control_wf cp \<and> control_content cp = body"
proof -
  obtain r1 where f: "ReadPacketLimit m (flat (data r) (final r) True) = (Inr cp, r1)"
    "data r1 = data r'"
    using stream_decoder.on_flat [OF ReadPacketLimit_decoder assms, of True]
    by (metis prod.collapse)
  show thesis
  proof (cases "data r")
    case Nil
    with f show thesis by (simp add: ReadPacketLimit_Nil)
  next
    case (Cons t bs)
    show thesis
    proof (cases rule: packet_bytes_cases [where t = t and bs = bs])
      case flags
      with f Cons show thesis
        using ReadPacketLimit_flags [of t m bs "final r" True] by auto
    next
      case (malformed ds rest)
      with f Cons show thesis by (simp add: ReadPacketLimit_malformed)
    next
      case short_length
      with f Cons show thesis by (simp add: ReadPacketLimit_short_length)
    next
      case (step ds rest new)
      let ?n = "lengthValue ds" and ?fh = "header_of t (int (lengthValue ds))"
      from f Cons step have n: "int ?n \<le> clampLimit m" "?n \<le> length rest"
        and body: "unpackBody ?fh new (take ?n rest) = Inr cp" and rest: "data r' = drop ?n rest"
        by (auto simp: ReadPacketLimit_step split: if_splits)
      have len: "RemainingLength ?fh = int (length (take ?n rest))"
        using n(2) by (simp add: header_of_def)
      from unpackBody_Inr [OF step(5) body len] n Cons step rest header_ok_header_of [of t _ 0]
      show thesis
        by (intro that [of ds "take ?n rest"]) (auto simp: len)
    qed
  qed
qed

section \<open>Ends of the stream and synchronisation\<close>

lemma from_flat_ReadPacketLimit:
  shows "fst (ReadPacketLimit m r) = fst (ReadPacketLimit m (flat (data r) (final r) True))"
    and "data (snd (ReadPacketLimit m r)) =
      data (snd (ReadPacketLimit m (flat (data r) (final r) True)))"
  using stream_decoder.from_flat [OF ReadPacketLimit_decoder surjective_pairing, of m r True]
  by simp_all

text \<open>An orderly end is reported exactly for a stream that ends before the next packet.\<close>

lemma ReadPacketLimit_EOF:
  "fst (ReadPacketLimit m r) = Inl EOF \<longleftrightarrow> data r = [] \<and> final r = EOF"
proof (cases "data r")
  case Nil
  then show ?thesis by (simp add: from_flat_ReadPacketLimit(1) [of m r] ReadPacketLimit_Nil)
next
  case (Cons t bs)
  have "fst (ReadPacketLimit m (flat (t # bs) (final r) True)) \<noteq> Inl EOF"
  proof (cases rule: packet_bytes_cases [where t = t and bs = bs])
    case flags
    then show ?thesis using ReadPacketLimit_flags [of t m bs "final r" True] by auto
  next
    case (malformed ds rest)
    then show ?thesis by (simp add: ReadPacketLimit_malformed)
  next
    case short_length
    then show ?thesis by (simp add: ReadPacketLimit_short_length unexpectedEOF_def)
  next
    case (step ds rest cp)
    then show ?thesis
      by (simp add: ReadPacketLimit_step unexpectedEOF_def unpackBody_not_EOF)
  qed
  with Cons show ?thesis by (simp add: from_flat_ReadPacketLimit(1) [of m r])
qed

text \<open>Digits of a length are never all present in a proper prefix.\<close>

lemma length_digits_prefix:
  assumes "length_digits (p @ q)" and "q \<noteq> []"
  shows "\<forall>d \<in> set p. d AND 128 \<noteq> 0"
proof -
  from assms(2) obtain q' d where "q = q' @ [d]" by (cases q rule: rev_cases) auto
  with assms(1) have "length_digits ((p @ q') @ [d])" by simp
  then show ?thesis unfolding length_digits_append by simp
qed

lemma ReadPacketLimit_truncated:
  assumes "header_ok (header_of t 0)" and "length_digits ds" and "length ds \<le> 4"
    and "lengthValue ds = length body" and "int (length body) \<le> clampLimit m"
    and "t # ds @ body = p @ q" and "p \<noteq> []" and "q \<noteq> []"
  shows "ReadPacketLimit m (flat p fin br) = (Inl (unexpectedEOF fin), flat [] fin br)"
proof -
  from assms(6,7) obtain p' where p: "p = t # p'" "ds @ body = p' @ q"
    by (cases p) auto
  from p(2) consider (digits) us where "ds = p' @ us" "us \<noteq> []"
    | (body) us where "p' = ds @ us" "body = us @ q"
    by (auto simp: append_eq_append_conv2) (metis append_Nil append_Nil2)
  then show ?thesis
  proof cases
    case digits
    then have "length p' < 4" using assms(3) by (cases us) auto
    moreover have "\<forall>d \<in> set p'. d AND 128 \<noteq> 0"
      using length_digits_prefix assms(2) digits by blast
    ultimately show ?thesis
      using ReadPacketLimit_short_length [OF assms(1)] p by simp
  next
    case body
    obtain cp where "NewControlPacketWithHeader (header_of t (int (lengthValue ds))) = Inr cp"
      using assms(1) by (rule header_ok_packet)
    with assms p body show ?thesis
      by (auto simp: ReadPacketLimit_step)
  qed
qed

text \<open>
  When the announced body is there, exactly the packet is consumed, whether its content can
  be unpacked or not.
\<close>

lemma ReadPacketLimit_consumes:
  assumes "header_ok (header_of t 0)" and "length_digits ds" and "length ds \<le> 4"
    and "lengthValue ds = length body" and "int (length body) \<le> clampLimit m"
    and "data r = t # ds @ body @ rest"
  shows "data (snd (ReadPacketLimit m r)) = rest"
proof -
  obtain cp where "NewControlPacketWithHeader (header_of t (int (lengthValue ds))) = Inr cp"
    using assms(1) by (rule header_ok_packet)
  with assms show ?thesis
    using ReadPacketLimit_step [of t ds cp m "body @ rest" "final r" True]
    by (simp add: from_flat_ReadPacketLimit(2) [of m r])
qed

section \<open>Streams of packets\<close>

text \<open>The loop of a receiver: \<open>n\<close> packets in a row.\<close>

primrec read_packets :: "int \<Rightarrow> nat \<Rightarrow> ControlPacket list decoder" where
  "read_packets m 0 = rret []"
| "read_packets m (Suc n) =
     rbind (ReadPacketLimit m) (\<lambda>cp. rbind (read_packets m n) (\<lambda>cps. rret (cp # cps)))"

lemma read_packets_decoder [decoder_intros]: "stream_decoder (read_packets m n)"
  by (induction n) (simp_all, (intro decoder_intros ReadPacketLimit_decoder)+)

definition encode :: "ControlPacket \<Rightarrow> bytes" where
  "encode cp = frame (fixedHeader cp) (control_content cp)"

definition sendable :: "int \<Rightarrow> ControlPacket \<Rightarrow> bool" where
  "sendable m cp \<longleftrightarrow> control_wf cp \<and> header_ok (fixedHeader cp) \<and>
     int (length (control_content cp)) \<le> clampLimit m"

lemma read_packets_flat:
  assumes "\<forall>cp \<in> set cps. sendable m cp"
  shows "read_packets m (length cps) (flat (concat (map encode cps) @ rest) fin br) =
    (Inr (map as_received cps), flat rest fin br)"
  using assms
proof (induction cps)
  case (Cons cp cps)
  then have "ReadPacketLimit m (flat (encode cp @ concat (map encode cps) @ rest) fin br) =
      (Inr (as_received cp), flat (concat (map encode cps) @ rest) fin br)"
    unfolding encode_def by (intro ReadPacketLimit_frame) (auto simp: sendable_def)
  with Cons show ?case by (simp add: flat_simps)
qed (simp add: flat_simps)

lemma clampLimit_max: "clampLimit m \<le> MaxRemainingLength"
  by (simp add: clampLimit_def)

lemma WriteTo_encode:
  assumes "sendable m cp"
  shows "WriteTo cp w = Some (Write w (encode cp))"
  using control.write_frame [of cp w] assms clampLimit_max [of m] header_ok_qos
  by (simp add: sendable_def encode_def)

section \<open>Arbitrary readers\<close>

text \<open>The results on streams given by their bytes, for readers that cut them into chunks.\<close>

lemma ReadPacketLimit_stream:
  assumes "sendable m cp" and "data r = encode cp @ rest"
  shows "\<exists>r'. ReadPacketLimit m r = (Inr (as_received cp), r') \<and> data r' = rest \<and>
    final r' = final r"
proof -
  have "ReadPacketLimit m (flat (data r) (final r) True) =
      (Inr (as_received cp), flat rest (final r) True)"
    using assms ReadPacketLimit_frame [of cp m] by (simp add: sendable_def encode_def)
  from stream_decoder.from_flat [OF ReadPacketLimit_decoder this] show ?thesis
    by (metis data_flat prod.collapse)
qed

lemma read_packets_stream:
  assumes "\<forall>cp \<in> set cps. sendable m cp" and "data r = concat (map encode cps) @ rest"
  shows "\<exists>r'. read_packets m (length cps) r = (Inr (map as_received cps), r') \<and> data r' = rest \<and>
    final r' = final r"
proof -
  have "read_packets m (length cps) (flat (data r) (final r) True) =
      (Inr (map as_received cps), flat rest (final r) True)"
    using assms read_packets_flat by simp
  from stream_decoder.from_flat [OF read_packets_decoder this] show ?thesis
    by (metis data_flat prod.collapse)
qed

lemma ReadPacketLimit_truncated_stream:
  assumes "sendable m cp" and "encode cp = data r @ q" and "data r \<noteq> []" and "q \<noteq> []"
  shows "fst (ReadPacketLimit m r) = Inl (unexpectedEOF (final r))"
proof -
  let ?n = "length (control_content cp)"
  have max: "int ?n \<le> MaxRemainingLength"
    using assms(1) clampLimit_max [of m] by (simp add: sendable_def)
  have "ReadPacketLimit m (flat (data r) (final r) True) =
      (Inl (unexpectedEOF (final r)), flat [] (final r) True)"
  proof (rule ReadPacketLimit_truncated [where q = q and body = "control_content cp"])
    show "header_ok (header_of (header_byte (fixedHeader cp)) 0)"
      using assms(1) by (simp add: header_of_byte sendable_def)
    show "length_digits (encodeLength ?n)" "length (encodeLength ?n) \<le> 4"
      "lengthValue (encodeLength ?n) = ?n"
      using encodeLength_digits [of ?n] encodeLength_loop_array(2) [OF max] by auto
  qed (use assms in \<open>auto simp: sendable_def encode_def frame_def\<close>)
  then show ?thesis by (simp add: from_flat_ReadPacketLimit(1) [of m r])
qed

lemma ReadPacketLimit_too_large:
  assumes "data r = t # bs" and "header_ok (header_of t 0)"
    and "bs = ds @ rest" and "length_digits ds" and "length ds \<le> 4"
    and "int (lengthValue ds) > clampLimit m"
  shows "fst (ReadPacketLimit m r) = Inl ErrPacketTooLarge \<and> data (snd (ReadPacketLimit m r)) = rest"
proof -
  obtain cp where "NewControlPacketWithHeader (header_of t (int (lengthValue ds))) = Inr cp"
    using assms(2) by (rule header_ok_packet)
  with assms show ?thesis
    by (simp add: from_flat_ReadPacketLimit [of m r] ReadPacketLimit_step)
qed

section \<open>Every error of a stream that ends in \<open>EOF\<close>\<close>

text \<open>
  A decoder that fails on a stream ended by its peer only because it ran out of bytes, or with
  one of the given errors.
\<close>

definition fails_with :: "error set \<Rightarrow> 'a decoder \<Rightarrow> bool" where
  "fails_with E m \<longleftrightarrow>
     (\<forall>r e. final r = EOF \<longrightarrow> fst (m r) = Inl e \<longrightarrow> e \<in> {EOF, ErrUnexpectedEOF} \<union> E)"

lemma fails_withD:
  "m r = (Inl e, r') \<Longrightarrow> fails_with E m \<Longrightarrow> final r = EOF \<Longrightarrow> e = EOF \<or> e = ErrUnexpectedEOF \<or> e \<in> E"
  by (force simp: fails_with_def)

lemma fails_with_rbind:
  assumes "stream_decoder m" and "fails_with E m" and "\<And>v. fails_with E (k v)"
  shows "fails_with E (rbind m k)"
  unfolding fails_with_def
proof (intro allI impI)
  fix r e
  assume r: "final r = EOF" and e: "fst (rbind m k r) = Inl e"
  show "e \<in> {EOF, ErrUnexpectedEOF} \<union> E"
  proof (cases "fst (m r)")
    case (Inl e')
    with e r assms(2) show ?thesis
      by (auto simp: rbind_def fails_with_def split: prod.splits)
  next
    case (Inr v)
    moreover have "final (snd (m r)) = EOF"
      using stream_decoder.keeps_final [OF assms(1)] r by simp
    ultimately show ?thesis
      using e assms(3) [of v] by (auto simp: rbind_def fails_with_def split: prod.splits)
  qed
qed

lemma fails_with_rret: "fails_with E (rret v)"
  by (simp add: fails_with_def rret_def)

lemma fails_with_rfail: "e \<in> E \<Longrightarrow> fails_with E (rfail e)"
  by (simp add: fails_with_def rfail_def)

lemma fails_with_ReadFull: "fails_with E (ReadFull n)"
  by (simp add: fails_with_def ReadFull_eq)

lemma fails_with_ReadFrom: "fails_with E ReadFrom"
  by (simp add: fails_with_def ReadFrom_def)

lemma fails_with_decodeByte: "fails_with E decodeByte"
  by (simp add: fails_with_def decodeByte_eq)

lemma fails_with_if: "fails_with E f \<Longrightarrow> fails_with E g \<Longrightarrow> fails_with E (if b then f else g)"
  by simp

lemma fails_with_decodeUint16: "fails_with E decodeUint16"
  unfolding decodeUint16_def
  by (intro fails_with_rbind fails_with_rret fails_with_ReadFull decoder_intros)

lemma fails_with_decodeBytes: "fails_with E decodeBytes"
  unfolding decodeBytes_def
  by (intro fails_with_rbind fails_with_decodeUint16 fails_with_ReadFull decoder_intros)

lemmas fails_with_intros = fails_with_rbind fails_with_rret fails_with_ReadFull
  fails_with_ReadFrom fails_with_decodeByte fails_with_decodeUint16 fails_with_decodeBytes
  fails_with_if

lemma fails_with_unpack_subscriptions: "fails_with E (unpack_subscriptions n ts qs)"
proof (induction n ts qs rule: unpack_subscriptions.induct)
  case (1 n ts qs)
  then show ?case
    by (cases "n > 0")
      (simp_all add: unpack_subscriptions.simps [of n ts qs] fails_with_intros decoder_intros)
qed

lemma fails_with_unpack_topics: "fails_with E (unpack_topics n ts)"
proof (induction n ts rule: unpack_topics.induct)
  case (1 n ts)
  then show ?case
    by (cases "n > 0")
      (simp_all add: unpack_topics.simps [of n ts] fails_with_intros decoder_intros)
qed

lemma fails_with_ConnectPacket_Unpack: "fails_with E (ConnectPacket_Unpack c)"
  unfolding ConnectPacket_Unpack_def ConnectPacket_unpackWill_def ConnectPacket_unpackUsername_def
    ConnectPacket_unpackPassword_def decodeString_eq
  by (intro fails_with_intros decoder_intros)

text \<open>CONNACK alone has a check of its own.\<close>

definition connack_flags_error :: error where
  "connack_flags_error = NewPacketError ''3.2.2-1''
     (lit ''reserved connack acknowledge flag bits are non-zero'')"

lemma fails_with_ConnackPacket_Unpack: "fails_with {connack_flags_error} (ConnackPacket_Unpack ca)"
  unfolding ConnackPacket_Unpack_def
  by (intro fails_with_intros decoder_intros fails_with_rfail) (simp add: connack_flags_error_def)

lemma fails_with_Unpack:
  assumes "kind cp \<noteq> Publish"
  shows "fails_with {connack_flags_error} (Unpack cp)"
  using assms
  by (cases cp)
    (simp_all add: PubackPacket_Unpack_def PubrecPacket_Unpack_def PubrelPacket_Unpack_def
      PubcompPacket_Unpack_def SubscribePacket_Unpack_def SubackPacket_Unpack_def
      UnsubscribePacket_Unpack_def UnsubackPacket_Unpack_def PingreqPacket_Unpack_def
      PingrespPacket_Unpack_def DisconnectPacket_Unpack_def case_prod_beta fails_with_intros
      fails_with_ConnectPacket_Unpack fails_with_ConnackPacket_Unpack
      fails_with_unpack_subscriptions fails_with_unpack_topics decoder_intros)

text \<open>
  A PUBLISH that is unpacked from as many bytes as its header announces never has a negative
  payload length: the topic and the identifier were read from them.
\<close>

lemma rbind_Inl_conv:
  "rbind m k r = (Inl e, r'') \<longleftrightarrow>
     m r = (Inl e, r'') \<or> (\<exists>v r'. m r = (Inr v, r') \<and> k v r' = (Inl e, r''))"
  by (auto simp: rbind_def split: prod.splits sum.splits)

lemma PublishPacket_Unpack_error:
  assumes unpack: "PublishPacket_Unpack p r = (Inl e, r')" and eof: "final r = EOF"
    and len: "RemainingLength (pub_FixedHeader p) = int (length (data r))"
  shows "e = EOF \<or> e = ErrUnexpectedEOF"
proof (rule ccontr)
  assume e: "\<not> ?thesis"
  have "decodeBytes r \<noteq> (Inl e, r')"
    using fails_withD [OF _ fails_with_decodeBytes [of "{}"] eof] e by blast
  with unpack obtain t r1 where t: "decodeBytes r = (Inr t, r1)"
    by (auto simp: PublishPacket_Unpack_def Let_def rbind_Inl_conv)
  have r1: "final r1 = EOF"
    using stream_decoder.keeps_final [OF decodeBytes_decoder, of r] eof t by simp
  have id: "decodeUint16 r1 \<noteq> (Inl e, r')"
    using fails_withD [OF _ fails_with_decodeUint16 [of "{}"] r1] e by blast
  obtain n r2 where r2: "final r2 = EOF" and "ReadFull n r2 = (Inl e, r')"
  proof (cases "Qos (pub_FixedHeader p) > 0")
    case True
    with unpack t id obtain i r2 where i: "decodeUint16 r1 = (Inr i, r2)"
      by (auto simp: PublishPacket_Unpack_def Let_def rbind_Inl_conv rbind_Inr_conv)
    have "final r2 = EOF"
      using stream_decoder.keeps_final [OF decodeUint16_decoder, of r1] r1 i by simp
    then show thesis
      using True unpack t i decodeBytes_Inr [OF t] decodeUint16_Inr [OF i] len
      by (intro that) (auto simp: PublishPacket_Unpack_def Let_def rbind_def rret_def
          split: sum.splits prod.splits)
  next
    case False
    then show thesis
      using unpack t decodeBytes_Inr [OF t] len r1
      by (intro that) (auto simp: PublishPacket_Unpack_def Let_def rbind_def rret_def
          split: sum.splits prod.splits)
  qed
  then show False
    using fails_withD [OF _ fails_with_ReadFull [of "{}"] r2] e by blast
qed

lemma Unpack_error:
  assumes "Unpack cp r = (Inl e, r')" and "final r = EOF"
    and "RemainingLength (fixedHeader cp) = int (length (data r))"
  shows "e = EOF \<or> e = ErrUnexpectedEOF \<or> e = connack_flags_error"
proof (cases "kind cp = Publish")
  case True
  then obtain p where "cp = PublishP p" by (cases cp) auto
  with assms show ?thesis
    using PublishPacket_Unpack_error [of p r e r'] by (auto simp: rbind_Inl_conv rret_def)
next
  case False
  then show ?thesis
    using fails_withD [OF assms(1) fails_with_Unpack assms(2)] by simp
qed

text \<open>The errors a reader can meet once the bytes of the packet have arrived.\<close>

definition content_error :: "error \<Rightarrow> bool" where
  "content_error e \<longleftrightarrow> errors_Is e ErrShortRemainingLength \<or> errors_Is e ErrTrailingBytes \<or>
     e = connack_flags_error"

lemma unpackBody_Inl:
  assumes "NewControlPacketWithHeader fh = Inr cp" and "unpackBody fh cp body = Inl e"
    and "RemainingLength fh = int (length body)"
  shows "content_error e"
proof (cases "Unpack cp (buffer body)")
  case (Pair x r)
  have "e' = EOF \<or> e' = ErrUnexpectedEOF \<or> e' = connack_flags_error" if "x = Inl e'" for e'
    using Unpack_error [of cp "buffer body" e' r] that Pair assms
      NewControlPacketWithHeader_header [OF assms(1)] by simp
  with assms(2) Pair show ?thesis
    by (auto simp: unpackBody_def content_error_def split: sum.splits if_splits)
qed

lemma ReadPacketLimit_errors:
  assumes "fst (ReadPacketLimit m r) = Inl e"
  shows "e = (if data r = [] then final r else unexpectedEOF (final r)) \<or> flag_error e \<or>
    e = ErrMalformedRemainingLength \<or> e = ErrPacketTooLarge \<or> content_error e"
proof (cases "data r")
  case Nil
  with assms show ?thesis by (simp add: from_flat_ReadPacketLimit(1) [of m r] ReadPacketLimit_Nil)
next
  case (Cons t bs)
  with assms have e: "fst (ReadPacketLimit m (flat (t # bs) (final r) True)) = Inl e"
    by (simp add: from_flat_ReadPacketLimit(1) [of m r])
  show ?thesis
  proof (cases rule: packet_bytes_cases [where t = t and bs = bs])
    case flags
    then show ?thesis using e ReadPacketLimit_flags [of t m bs "final r" True] by auto
  next
    case (malformed ds rest)
    then show ?thesis using e by (simp add: ReadPacketLimit_malformed)
  next
    case short_length
    then show ?thesis using e Cons by (simp add: ReadPacketLimit_short_length)
  next
    case (step ds rest cp)
    let ?n = "lengthValue ds" and ?fh = "header_of t (int (lengthValue ds))"
    have "content_error e" if "?n \<le> length rest" "unpackBody ?fh cp (take ?n rest) = Inl e"
      by (rule unpackBody_Inl [OF step(5) that(2)]) (use that(1) in \<open>simp add: header_of_def\<close>)
    with step e Cons show ?thesis
      by (auto simp: ReadPacketLimit_step split: if_splits)
  qed
qed

section \<open>One \<open>Write\<close> per packet\<close>

text \<open>
  Whatever a packet holds, \<^verbatim>\<open>WriteTo\<close> either reports an error before anything is written
  or issues one \<^verbatim>\<open>Write\<close> with a complete frame.
\<close>

definition writes_once :: "writer \<Rightarrow> FixedHeader \<Rightarrow> write_result option \<Rightarrow> bool" where
  "writes_once w fh res \<longleftrightarrow>
     (\<exists>err. res = Some ((0, Some err), w)) \<or>
     (\<exists>content. int (length content) \<le> MaxRemainingLength \<and> Qos fh \<le> 2 \<and>
        res = Some (Write w (frame fh content)))"

lemma writes_once_error [simp]: "writes_once w fh (Some ((0, Some err), w))"
  by (simp add: writes_once_def)

lemma writes_once_writeBody:
  assumes "\<And>b. body = Inr b \<Longrightarrow> \<exists>content. b = newBody [] @ content"
  shows "writes_once w fh (writeBody w fh body)"
proof (cases body)
  case (Inl e)
  then show ?thesis by (simp add: writes_once_def writeBody_def)
next
  case (Inr b)
  with assms obtain content where b: "b = newBody [] @ content" by blast
  show ?thesis
  proof (cases "int (length content) \<le> MaxRemainingLength \<and> Qos fh \<le> 2")
    case True
    then show ?thesis
      using writeBody_frame [of content fh w "[]"] by (auto simp: writes_once_def Inr b)
  next
    case False
    then have "writePacket w fh (newBody [] @ content) =
        Some ((0, Some ErrPacketTooLarge), w) \<or>
      (\<exists>d. writePacket w fh (newBody [] @ content) = Some ((0, Some (Wrap ErrInvalidQoS d)), w))"
      by (cases "int (length content) > MaxRemainingLength")
        (simp_all add: writePacket_def Let_def fixedHeaderReserve_def linorder_not_le)
    then show ?thesis by (auto simp: writes_once_def writeBody_def Inr b)
  qed
qed

lemma write_subscriptions_extends:
  "write_subscriptions body ts qs = Inr b \<Longrightarrow> \<exists>c. b = body @ c"
proof (induction ts arbitrary: body qs)
  case (Cons t ts)
  show ?case
  proof (cases qs)
    case (Cons q qs')
    with Cons.prems have "write_subscriptions (body @ field_bytes t @ [q]) ts qs' = Inr b"
      by (auto simp: andThen_Inr_conv writeString_Inr_conv)
    from Cons.IH [OF this] show ?thesis by auto
  qed (use Cons.prems in auto)
qed auto

lemma write_topics_extends: "write_topics body ts = Inr b \<Longrightarrow> \<exists>c. b = body @ c"
proof (induction ts arbitrary: body)
  case (Cons t ts)
  then have "write_topics (body @ field_bytes t) ts = Inr b"
    by (auto simp: andThen_Inr_conv writeString_Inr_conv)
  from Cons.IH [OF this] show ?case by auto
qed auto

lemma WriteTo_once: "writes_once w (fixedHeader cp) (WriteTo cp w)"
proof (cases cp)
  case (ConnectP p)
  then show ?thesis
    by (auto simp: ConnectPacket_WriteTo_def andThen_Inr_conv writeString_Inr_conv
      writeBytes_Inr_conv writeUint16_eq Let_def split: if_splits intro!: writes_once_writeBody)
next
  case (PublishP p)
  then show ?thesis
    by (auto simp: PublishPacket_WriteTo_def andThen_Inr_conv writeString_Inr_conv
      writeUint16_eq Let_def intro!: writes_once_writeBody)
next
  case (SubscribeP p)
  then show ?thesis
    by (fastforce simp: SubscribePacket_WriteTo_def writeUint16_eq
      intro!: writes_once_writeBody dest: write_subscriptions_extends)
next
  case (UnsubscribeP p)
  then show ?thesis
    by (fastforce simp: UnsubscribePacket_WriteTo_def writeUint16_eq
      intro!: writes_once_writeBody dest: write_topics_extends)
qed (auto simp: ConnackPacket_WriteTo_def PubackPacket_WriteTo_def PubrecPacket_WriteTo_def
    PubrelPacket_WriteTo_def PubcompPacket_WriteTo_def SubackPacket_WriteTo_def
    UnsubackPacket_WriteTo_def PingreqPacket_WriteTo_def PingrespPacket_WriteTo_def
    DisconnectPacket_WriteTo_def writeUint16_eq Let_def intro!: writes_once_writeBody)

section \<open>Writing several packets\<close>

text \<open>A sender: the packets one after the other, stopping at the first error.\<close>

fun write_packets :: "ControlPacket list \<Rightarrow> writer \<Rightarrow> (error option \<times> writer) option" where
  "write_packets [] w = Some (None, w)"
| "write_packets (cp # cps) w = (case WriteTo cp w of
      None \<Rightarrow> None
    | Some ((_, Some err), w') \<Rightarrow> Some (Some err, w')
    | Some ((_, None), w') \<Rightarrow> write_packets cps w')"

lemma write_packets_encode:
  assumes "\<forall>cp \<in> set cps. sendable m cp" and "faults w = []"
  shows "\<exists>w'. write_packets cps w = Some (None, w') \<and>
    sent w' = sent w @ concat (map encode cps) \<and> length (calls w') = length (calls w) + length cps"
  using assms
proof (induction cps arbitrary: w)
  case (Cons cp cps)
  let ?w = "w\<lparr>calls := calls w @ [encode cp]\<rparr>"
  have "WriteTo cp w = Some ((length (encode cp), None), ?w)"
    using Cons.prems WriteTo_encode [of m cp w] by (simp add: Write_def)
  moreover obtain w' where "write_packets cps ?w = Some (None, w')"
    "sent w' = sent ?w @ concat (map encode cps)"
    "length (calls w') = length (calls ?w) + length cps"
    using Cons.IH [of ?w] Cons.prems by auto
  ultimately show ?case by (simp add: sent_def)
qed simp

text \<open>The length digits of the encoder are the shortest for their value.\<close>

lemma encodeLength_shortest:
  assumes "ds \<noteq> []"
  shows "length (encodeLength (lengthValue ds)) \<le> length ds"
  using length_encodeLength [OF lengthValue_bound] assms by simp

text \<open>A packet that was read is sendable again unless its content cannot be written.\<close>

lemma ReadPacketLimit_sendable:
  assumes "ReadPacketLimit m r = (Inr cp, r')" and "reencodable cp"
  shows "sendable m cp \<and> as_received cp = cp \<and>
    length (encode cp) \<le> length (data r) - length (data r')"
  using assms(1)
proof (rule ReadPacketLimit_Inr)
  fix ds body
  assume a: "header_ok (fixedHeader cp)" "data r = header_byte (fixedHeader cp) # ds @ body @ data r'"
    "length_digits ds" "lengthValue ds = length body"
    "RemainingLength (fixedHeader cp) = int (length body)" "int (length body) \<le> clampLimit m"
    and c: "reencodable cp \<Longrightarrow> control_wf cp \<and> control_content cp = body"
  have "ds \<noteq> []" using a(3) by auto
  then show ?thesis
    using a c assms(2) encodeLength_shortest [of ds]
    by (simp add: sendable_def as_received_id encode_def frame_def)
qed

end
