(* ===== verification/TopicFilters.thy ===== *)
theory TopicFilters
  imports Topics
begin

text \<open>
  \<^verbatim>\<open>MatchFilter\<close> of \<^verbatim>\<open>interop/broker.go\<close>: which topic names a topic filter selects. The
  indexed loop of the code is related to an inductive definition of matching by levels, and to
  the reading of the protocol's section 4.7: a filter without \<^verbatim>\<open>#\<close> fixes the number of
  levels, a final \<^verbatim>\<open>#\<close> stands for any number of further levels, none included.
\<close>

section \<open>The code\<close>

text \<open>\<^verbatim>\<open>strings.HasPrefix\<close>.\<close>

definition HasPrefix :: "gostring \<Rightarrow> gostring \<Rightarrow> bool" where
  "HasPrefix s p \<longleftrightarrow> length p \<le> length s \<and> take (length p) s = p"

text \<open>The loop over the levels of the filter: \<open>i\<close> is the index, \<open>n\<close> their number.\<close>

fun match_loop :: "gostring list \<Rightarrow> nat \<Rightarrow> nat \<Rightarrow> gostring list \<Rightarrow> bool" where
  "match_loop tls i n [] = (n = length tls)"
| "match_loop tls i n (f # fl) =
     (if f = [hash] then i = n - 1
      else if i \<ge> length tls then False
      else if f \<noteq> [plus] \<and> f \<noteq> tls ! i then False
      else match_loop tls (Suc i) n fl)"

definition MatchFilter :: "gostring \<Rightarrow> gostring \<Rightarrow> bool" where
  "MatchFilter flt topic =
     (if HasPrefix topic [dollar] \<and> (HasPrefix flt [hash] \<or> HasPrefix flt [plus]) then False
      else let fl = Split slash flt; tls = Split slash topic
           in match_loop tls 0 (length fl) fl)"

section \<open>Matching by levels\<close>

inductive level_match :: "gostring list \<Rightarrow> gostring list \<Rightarrow> bool" where
  end_of_both: "level_match [] []"
| multi_level: "level_match [[hash]] tls"
| single_level: "level_match fl tls \<Longrightarrow> level_match ([plus] # fl) (t # tls)"
| same_level: "f \<noteq> [hash] \<Longrightarrow> level_match fl tls \<Longrightarrow> level_match (f # fl) (f # tls)"

inductive_simps level_match_Nil: "level_match [] tls"
inductive_simps level_match_Cons: "level_match (f # fl) tls"

lemma match_loop_level_match:
  "i \<le> length tls \<Longrightarrow> n = i + length fl \<Longrightarrow>
     match_loop tls i n fl \<longleftrightarrow> level_match fl (drop i tls)"
proof (induction tls i n fl rule: match_loop.induct)
  case (1 tls i n)
  then show ?case by (auto simp: level_match_Nil)
next
  case (2 tls i n f fl)
  show ?case
  proof (cases "i < length tls")
    case True
    then have "drop i tls = tls ! i # drop (Suc i) tls" by (simp add: Cons_nth_drop_Suc)
    then show ?thesis using 2 True by (auto simp: level_match_Cons)
  next
    case False
    then have "drop i tls = []" by simp
    then show ?thesis using 2 False by (auto simp: level_match_Cons)
  qed
qed

lemma MatchFilter_level_match:
  "MatchFilter flt topic \<longleftrightarrow>
     \<not> (HasPrefix topic [dollar] \<and> (HasPrefix flt [hash] \<or> HasPrefix flt [plus])) \<and>
     level_match (Split slash flt) (Split slash topic)"
  by (auto simp: MatchFilter_def Let_def match_loop_level_match)

text \<open>One level of a filter against one level of a topic.\<close>

definition level_ok :: "gostring \<Rightarrow> gostring \<Rightarrow> bool" where
  "level_ok f t \<longleftrightarrow> f = [plus] \<or> f = t"

lemma level_match_fixed:
  "[hash] \<notin> set fl \<Longrightarrow> level_match fl tls \<longleftrightarrow> list_all2 level_ok fl tls"
proof (induction fl arbitrary: tls)
  case (Cons f fl)
  then show ?case by (cases tls) (auto simp: level_match_Cons level_ok_def)
qed (simp add: level_match_Nil)

lemma level_match_open:
  "[hash] \<notin> set fl \<Longrightarrow> level_match (fl @ [[hash]]) tls \<longleftrightarrow>
     length fl \<le> length tls \<and> list_all2 level_ok fl (take (length fl) tls)"
proof (induction fl arbitrary: tls)
  case Nil
  then show ?case by (auto simp: level_match_Cons)
next
  case (Cons f fl)
  then show ?case by (cases tls) (auto simp: level_match_Cons level_ok_def)
qed

lemma filter_levels_hash:
  "filter_levels fl \<Longrightarrow> [hash] \<notin> set (butlast fl)"
  by (auto simp: filter_levels_def plain_level_def)

lemma Split_append_last: "Split slash s = butlast (Split slash s) @ [last (Split slash s)]"
  by simp

text \<open>A name without wildcards, as a filter, matches itself and no other topic.\<close>

lemma level_match_plain:
  assumes "\<forall>f \<in> set fl. plain_level f"
  shows "level_match fl tls \<longleftrightarrow> fl = tls"
proof -
  have "list_all2 level_ok fl tls \<longleftrightarrow> list_all2 (=) fl tls"
    using assms by (intro list.rel_cong) (auto simp: level_ok_def plain_level_def)
  moreover have "[hash] \<notin> set fl"
    using assms by (auto simp: plain_level_def)
  ultimately show ?thesis
    by (simp add: level_match_fixed list.rel_eq)
qed

lemma MatchFilter_plain:
  assumes "plain_level flt"
  shows "MatchFilter flt topic \<longleftrightarrow> flt = topic"
proof -
  have "\<forall>f \<in> set (Split slash flt). plain_level f"
    using assms set_Split [of flt slash] by (auto simp: plain_level_def)
  then have "level_match (Split slash flt) (Split slash topic) \<longleftrightarrow> flt = topic"
    by (metis join_Split level_match_plain)
  moreover have "\<not> HasPrefix flt [hash]" "\<not> HasPrefix flt [plus]"
    using assms by (cases flt; auto simp: HasPrefix_def plain_level_def)+
  ultimately show ?thesis by (simp add: MatchFilter_level_match)
qed

section \<open>Properties\<close>

text \<open>
  C20: matching as the protocol defines it. A valid filter without final \<^verbatim>\<open>#\<close> matches the topics
  with as many levels, each equal to the filter's or under a \<^verbatim>\<open>+\<close>; one that ends in \<^verbatim>\<open>#\<close>
  matches those whose first levels do so, whatever follows, nothing included. A topic that starts
  with \<^verbatim>\<open>$\<close> is matched by no filter that starts with a wildcard.
\<close>

theorem MatchFilter_meaning:
  assumes "ValidatePattern flt = None"
  shows "MatchFilter flt topic \<longleftrightarrow>
    \<not> (HasPrefix topic [dollar] \<and> (HasPrefix flt [hash] \<or> HasPrefix flt [plus])) \<and>
    (let fl = Split slash flt; tls = Split slash topic; n = length fl - 1
     in if last fl = [hash] then n \<le> length tls \<and> list_all2 level_ok (butlast fl) (take n tls)
        else list_all2 level_ok fl tls)"
proof -
  let ?fl = "Split slash flt"
  have fl: "filter_levels ?fl" using assms by (simp add: ValidatePattern_None)
  note bl = filter_levels_hash [OF fl]
  have "level_match ?fl tls \<longleftrightarrow>
      length ?fl - 1 \<le> length tls \<and> list_all2 level_ok (butlast ?fl) (take (length ?fl - 1) tls)"
    if "last ?fl = [hash]" for tls
    using level_match_open [OF bl, of tls] Split_append_last [of flt] that by simp
  moreover have "[hash] \<notin> set ?fl" if "last ?fl \<noteq> [hash]"
    using bl that Split_append_last [of flt] by (metis Un_iff list.set(1) list.set(2) insert_iff empty_iff set_append)
  ultimately show ?thesis
    by (auto simp: MatchFilter_level_match level_match_fixed Let_def)
qed

theorem MatchFilter_meaning_witness:
  "MatchFilter (lit ''a/#'') (lit ''a'') \<and> \<not> MatchFilter (lit ''a/#'') (lit ''b'')"
proof -
  have "ValidatePattern (lit ''a/#'') = None"
    by (simp add: ValidatePattern_None topic_string_def filter_levels_def plain_level_def
        ValidUTF8String_def lit_def)
  from MatchFilter_meaning [OF this] show ?thesis
    by (simp add: lit_def HasPrefix_def level_ok_def)
qed

end
