(* ===== verification/InteropBroker.thy ===== *)
theory InteropBroker
  imports Codec TopicFilters "HOL-Library.AList"
begin

text \<open>
  The broker of \<^verbatim>\<open>interop/broker.go\<close>: its clients with their subscriptions and the packet
  identifiers of quality 2 exchanges, \<^verbatim>\<open>dispatch\<close>, \<^verbatim>\<open>deliver\<close>, the handshake of \<^verbatim>\<open>handle\<close>
  and \<^verbatim>\<open>Close\<close>. Logging is left out.

  Shown here: how a delivery's quality follows from the subscriptions whatever the order in
  which Go visits its maps, that packet identifiers are never zero and repeat only after all of
  them, and that receiving at quality 2 refines a receiver that delivers each message once.
\<close>

section \<open>Sockets as the broker sees them\<close>

text \<open>
  A value of the interface \<^verbatim>\<open>xtransport.Socket\<close>: the byte stream its \<^verbatim>\<open>Recv\<close> hands to the
  callback, the packets its \<^verbatim>\<open>Send\<close> accepted so far, and the results of its coming \<^verbatim>\<open>Send\<close>
  calls (after the list they succeed): nil, or an error and whether the socket closes itself over
  it, as the transports do when a packet was torn. A closed socket refuses both.
\<close>

record sock =
  input :: reader
  packets :: "ControlPacket list"
  outcomes :: "(error \<times> bool) option list"
  sockTimeout :: int
  sockClosed :: bool

definition Send :: "sock \<Rightarrow> ControlPacket \<Rightarrow> error option \<times> sock" where
  "Send s cp =
     (if sockClosed s then (Some ErrClosed, s)
      else case outcomes s of
        [] \<Rightarrow> (None, s\<lparr>packets := packets s @ [cp]\<rparr>)
      | None # os \<Rightarrow> (None, s\<lparr>packets := packets s @ [cp], outcomes := os\<rparr>)
      | Some (err, torn) # os \<Rightarrow> (Some err, s\<lparr>outcomes := os, sockClosed := torn\<rparr>))"

definition SetTimeOut :: "int \<Rightarrow> sock \<Rightarrow> sock" where
  "SetTimeOut duration s = s\<lparr>sockTimeout := duration\<rparr>"

definition Close_sock :: "sock \<Rightarrow> sock" where
  "Close_sock s = s\<lparr>sockClosed := True\<rparr>"

definition second :: int where
  "second = 1000000000"

definition maxPacketSize :: int where
  "maxPacketSize = 4 * 1024 * 1024"

text \<open>The closure \<^verbatim>\<open>recv\<close> of \<^verbatim>\<open>handle\<close>.\<close>

definition recv :: "sock \<Rightarrow> (error + ControlPacket) \<times> sock" where
  "recv s =
     (if sockClosed s then (Inl ErrClosed, s)
      else case ReadPacketLimit maxPacketSize (input s) of (m, r) \<Rightarrow> (m, s\<lparr>input := r\<rparr>))"

section \<open>Clients\<close>

record client =
  c_sock :: sock
  c_id :: gostring
  subs :: "(gostring \<times> byte) list"
  nextID :: uint16
  inbound2 :: "uint16 \<rightharpoonup> PublishPacket"
  outbound2 :: "uint16 set"

definition new_client :: "sock \<Rightarrow> gostring \<Rightarrow> client" where
  "new_client s i =
     \<lparr>c_sock = s, c_id = i, subs = [], nextID = 0, inbound2 = Map.empty, outbound2 = {}\<rparr>"

text \<open>
  \<^verbatim>\<open>return c.sock.Send(pkt)\<close>, when the send is the last thing before \<^verbatim>\<open>done\<close> is returned:
  a send error is returned instead.
\<close>

definition reply :: "client \<Rightarrow> ControlPacket \<Rightarrow> 'd \<Rightarrow> (error + 'd) \<times> client" where
  "reply c pkt done = (case Send (c_sock c) pkt of
      (Some err, s) \<Rightarrow> (Inl err, c\<lparr>c_sock := s\<rparr>)
    | (None, s) \<Rightarrow> (Inr done, c\<lparr>c_sock := s\<rparr>))"

text \<open>The loop of SUBSCRIBE over topics and granted qualities, and of UNSUBSCRIBE over topics.\<close>

fun subscribe_loop ::
    "gostring list \<Rightarrow> bytes \<Rightarrow> (gostring \<times> byte) list \<times> bytes \<Rightarrow> (gostring \<times> byte) list \<times> bytes" where
  "subscribe_loop (topic # topics) (granted # qoss) (sb, codes) =
     subscribe_loop topics qoss (AList.update topic granted sb, codes @ [granted])"
| "subscribe_loop _ _ acc = acc"

fun unsubscribe_loop :: "gostring list \<Rightarrow> (gostring \<times> byte) list \<Rightarrow> (gostring \<times> byte) list" where
  "unsubscribe_loop [] sb = sb"
| "unsubscribe_loop (topic # topics) sb = unsubscribe_loop topics (AList.delete topic sb)"

text \<open>
  What \<^verbatim>\<open>dispatch\<close> does with the client's own state, under its lock \<^verbatim>\<open>c.mu\<close>. The result is an
  error, or the packet that is to be sent to the client once the lock is released, if any, and
  the message that is to be delivered after a successful send, if any.
\<close>

type_synonym outcome = "error + ControlPacket option \<times> PublishPacket option"

definition dispatch_publish :: "client \<Rightarrow> PublishPacket \<Rightarrow> outcome \<times> client" where
  "dispatch_publish c p =
     (case PublishPacket_Validate p of
        Some err \<Rightarrow> (Inl err, c)
      | None \<Rightarrow>
          (if Qos (pub_FixedHeader p) = 0 then (Inr (None, Some p), c)
           else if Qos (pub_FixedHeader p) = 1
           then (Inr (Some (PubackP ((new_PubackPacket (zeroHeader Puback 0))
             \<lparr>puback_MessageID := pub_MessageID p\<rparr>)), Some p), c)
           else if Qos (pub_FixedHeader p) = 2
           then (let dup = (inbound2 c (pub_MessageID p) \<noteq> None);
                     c' = (if \<not> dup then c\<lparr>inbound2 := (inbound2 c)(pub_MessageID p \<mapsto> p)\<rparr> else c)
                 in (Inr (Some (PubrecP ((new_PubrecPacket (zeroHeader Pubrec 0))
                   \<lparr>pubrec_MessageID := pub_MessageID p\<rparr>)), None), c'))
           else (Inr (None, None), c)))"

definition dispatch_subscribe :: "client \<Rightarrow> SubscribePacket \<Rightarrow> outcome \<times> client" where
  "dispatch_subscribe c p =
     (case SubscribePacket_Validate p of
        Some err \<Rightarrow> (Inl err, c)
      | None \<Rightarrow>
          (case subscribe_loop (sub_Topics p) (Qoss p) (subs c, []) of (sb, codes) \<Rightarrow>
             (Inr (Some (SubackP ((new_SubackPacket (zeroHeader Suback 0))
                \<lparr>suback_MessageID := sub_MessageID p, ReturnCodes := codes\<rparr>)), None),
              c\<lparr>subs := sb\<rparr>)))"

definition dispatch_unsubscribe :: "client \<Rightarrow> UnsubscribePacket \<Rightarrow> outcome \<times> client" where
  "dispatch_unsubscribe c p =
     (case UnsubscribePacket_Validate p of
        Some err \<Rightarrow> (Inl err, c)
      | None \<Rightarrow>
          (Inr (Some (UnsubackP ((new_UnsubackPacket (zeroHeader Unsuback 0))
             \<lparr>unsuback_MessageID := unsub_MessageID p\<rparr>)), None),
           c\<lparr>subs := unsubscribe_loop (unsub_Topics p) (subs c)\<rparr>))"

definition dispatch_pubrel :: "client \<Rightarrow> PubrelPacket \<Rightarrow> outcome \<times> client" where
  "dispatch_pubrel c p =
     (let msg = inbound2 c (pubrel_MessageID p);
          c' = c\<lparr>inbound2 := (inbound2 c)(pubrel_MessageID p := None)\<rparr>
      in (Inr (Some (PubcompP ((new_PubcompPacket (zeroHeader Pubcomp 0))
           \<lparr>pubcomp_MessageID := pubrel_MessageID p\<rparr>)), msg), c'))"

definition dispatch_pubrec :: "client \<Rightarrow> PubrecPacket \<Rightarrow> outcome \<times> client" where
  "dispatch_pubrec c p =
     (Inr (Some (PubrelP ((new_PubrelPacket (zeroHeader Pubrel 1))
        \<lparr>pubrel_MessageID := pubrec_MessageID p\<rparr>)), None),
      c\<lparr>outbound2 := outbound2 c - {pubrec_MessageID p}\<rparr>)"

definition dispatch_locked :: "client \<Rightarrow> ControlPacket \<Rightarrow> outcome \<times> client" where
  "dispatch_locked c pkt = (case pkt of
      PingreqP _ \<Rightarrow> (Inr (Some (PingrespP \<lparr>pingresp_FixedHeader = zeroHeader Pingresp 0\<rparr>), None), c)
    | DisconnectP _ \<Rightarrow> (Inl (NewError (lit ''clean disconnect'')), c)
    | SubscribeP p \<Rightarrow> dispatch_subscribe c p
    | UnsubscribeP p \<Rightarrow> dispatch_unsubscribe c p
    | PublishP p \<Rightarrow> dispatch_publish c p
    | PubrelP p \<Rightarrow> dispatch_pubrel c p
    | PubackP _ \<Rightarrow> (Inr (None, None), c)
    | PubrecP p \<Rightarrow> dispatch_pubrec c p
    | PubcompP _ \<Rightarrow> (Inr (None, None), c)
    | _ \<Rightarrow> (Inl (NewError (lit ''unexpected packet '' @ String pkt)), c))"

text \<open>Both parts, without another handler in between: the change under the lock, then the send.\<close>

definition dispatch_client ::
    "client \<Rightarrow> ControlPacket \<Rightarrow> (error + PublishPacket option) \<times> client" where
  "dispatch_client c pkt = (case dispatch_locked c pkt of
      (Inl err, c) \<Rightarrow> (Inl err, c)
    | (Inr (None, msg), c) \<Rightarrow> (Inr msg, c)
    | (Inr (Some ack, msg), c) \<Rightarrow> reply c ack msg)"

section \<open>Delivery\<close>

text \<open>The loop over the subscriptions of a client: whether one matches, and the best quality.\<close>

fun match_subs :: "PublishPacket \<Rightarrow> (gostring \<times> byte) list \<Rightarrow> bool \<times> byte \<Rightarrow> bool \<times> byte" where
  "match_subs p [] acc = acc"
| "match_subs p ((flt, granted) # sb) (match, qos) =
     (if MatchFilter flt (TopicName p)
      then let g = granted;
               g = (if Qos (pub_FixedHeader p) < g then Qos (pub_FixedHeader p) else g);
               qos = (if g > qos then g else qos)
           in match_subs p sb (True, qos)
      else match_subs p sb (match, qos))"

text \<open>The identifier for a delivery, never zero; quality 2 is remembered until PUBREC.\<close>

definition allocate :: "byte \<Rightarrow> client \<Rightarrow> uint16 \<times> client" where
  "allocate qos c =
     (let n = nextID c + 1;
          n = (if n = 0 then 1 else n);
          c = c\<lparr>nextID := n\<rparr>
      in (n, if qos = 2 then c\<lparr>outbound2 := insert n (outbound2 c)\<rparr> else c))"

definition outgoing :: "PublishPacket \<Rightarrow> byte \<Rightarrow> uint16 \<Rightarrow> PublishPacket" where
  "outgoing p qos msgID =
     (let out = PublishPacket_Copy p
      in out\<lparr>pub_FixedHeader := (pub_FixedHeader out)\<lparr>Qos := qos\<rparr>, pub_MessageID := msgID\<rparr>)"

text \<open>
  One iteration of \<^verbatim>\<open>deliver\<close>: under the lock of the client the packet for it is decided, if
  any; it is sent after the lock is released, and a send error is logged and otherwise ignored.
\<close>

definition deliver_locked :: "PublishPacket \<Rightarrow> client \<Rightarrow> PublishPacket option \<times> client" where
  "deliver_locked p c =
     (case match_subs p (subs c) (False, 0) of (match, qos) \<Rightarrow>
        (case (if match \<and> qos > 0 then allocate qos c else (0, c)) of (msgID, c) \<Rightarrow>
           (if \<not> match then None else Some (outgoing p qos msgID), c)))"

definition deliver_client :: "PublishPacket \<Rightarrow> client \<Rightarrow> client" where
  "deliver_client p c = (case deliver_locked p c of
      (None, c) \<Rightarrow> c
    | (Some out, c) \<Rightarrow> c\<lparr>c_sock := snd (Send (c_sock c) (PublishP out))\<rparr>)"

section \<open>The broker\<close>

text \<open>
  Clients are pointers in Go; \<open>heap\<close> is what they point to. \<open>clients\<close> lists the registered
  ones, the order being irrelevant: a loop over the Go map visits them in any order.
\<close>

type_synonym cid = nat

record Broker =
  clients :: "cid list"
  b_closed :: bool
  heap :: "cid \<rightharpoonup> client"

definition NewBroker :: Broker where
  "NewBroker = \<lparr>clients = [], b_closed = False, heap = Map.empty\<rparr>"

definition deliver_to :: "PublishPacket \<Rightarrow> cid \<Rightarrow> Broker \<Rightarrow> Broker" where
  "deliver_to p i b = (case heap b i of
      None \<Rightarrow> b
    | Some c \<Rightarrow> b\<lparr>heap := (heap b)(i \<mapsto> deliver_client p c)\<rparr>)"

text \<open>\<^verbatim>\<open>deliver\<close>; \<open>targets\<close> is the order in which the loop visits the registered clients.\<close>

definition deliver :: "cid list \<Rightarrow> PublishPacket \<Rightarrow> Broker \<Rightarrow> Broker" where
  "deliver targets p b = fold (deliver_to p) targets b"

definition dispatch :: "cid list \<Rightarrow> cid \<Rightarrow> client \<Rightarrow> ControlPacket \<Rightarrow> Broker \<Rightarrow> error option \<times> Broker" where
  "dispatch targets i c pkt b = (case dispatch_client c pkt of (res, c') \<Rightarrow>
     (let b' = b\<lparr>heap := (heap b)(i \<mapsto> c')\<rparr>
      in case res of
        Inl err \<Rightarrow> (Some err, b')
      | Inr None \<Rightarrow> (None, b')
      | Inr (Some p) \<Rightarrow> (None, deliver targets p b')))"

text \<open>
  The part of \<^verbatim>\<open>handle\<close> before its loop: the first packet must be a CONNECT, it is answered,
  and an accepted one gives a client. Durations are in nanoseconds, as in Go.
\<close>

definition handshake :: "sock \<Rightarrow> client option \<times> sock" where
  "handshake s =
     (let s = SetTimeOut (30 * second) s
      in case recv s of
        (Inr (ConnectP connect), s) \<Rightarrow>
          (let code = ConnectPacket_Validate connect;
               ack = (new_ConnackPacket (zeroHeader Connack 0))\<lparr>ReturnCode := code\<rparr>
           in case Send s (ConnackP ack) of (err, s) \<Rightarrow>
             (if err \<noteq> None \<or> code \<noteq> Accepted then (None, s)
              else let s = (if Keepalive connect > 0
                            then SetTimeOut (int (unat (Keepalive connect)) * second * 3 div 2) s
                            else SetTimeOut 0 s)
                   in (Some (new_client s (ClientIdentifier connect)), s)))
      | (_, s) \<Rightarrow> (None, s))"

definition register :: "cid \<Rightarrow> client \<Rightarrow> Broker \<Rightarrow> Broker option" where
  "register i c b =
     (if b_closed b then None
      else Some (b\<lparr>clients := List.insert i (clients b), heap := (heap b)(i \<mapsto> c)\<rparr>))"

text \<open>The end of \<^verbatim>\<open>handle\<close> and of the accept callback: deregister, then close the socket.\<close>

definition unregister :: "cid \<Rightarrow> Broker \<Rightarrow> Broker" where
  "unregister i b = b\<lparr>clients := removeAll i (clients b),
     heap := (heap b)(i := map_option (\<lambda>c. c\<lparr>c_sock := Close_sock (c_sock c)\<rparr>) (heap b i))\<rparr>"

text \<open>\<^verbatim>\<open>Close\<close>; \<open>targets\<close> is the order in which it visits its snapshot of the clients.\<close>

definition close_client :: "cid \<Rightarrow> Broker \<Rightarrow> Broker" where
  "close_client i b = b\<lparr>heap :=
     (heap b)(i := map_option (\<lambda>c. c\<lparr>c_sock := Close_sock (c_sock c)\<rparr>) (heap b i))\<rparr>"

definition Broker_Close :: "cid list \<Rightarrow> Broker \<Rightarrow> Broker" where
  "Broker_Close targets b = fold close_client targets (b\<lparr>b_closed := True\<rparr>)"

section \<open>Sending keeps the rest of a client\<close>

lemma Send_simps [simp]:
  "input (snd (Send s cp)) = input s" "sockClosed s \<Longrightarrow> sockClosed (snd (Send s cp))"
  by (auto simp: Send_def split: list.splits option.splits)

lemma Send_packets:
  "packets (snd (Send s cp)) = packets s @ (if fst (Send s cp) = None then [cp] else [])"
  by (auto simp: Send_def split: list.splits option.splits)

text \<open>A send changes the socket of a client and nothing else.\<close>

lemma reply_eq:
  "reply c pkt d = (case fst (Send (c_sock c) pkt) of Some err \<Rightarrow> Inl err | None \<Rightarrow> Inr d,
     c\<lparr>c_sock := snd (Send (c_sock c) pkt)\<rparr>)"
  by (auto simp: reply_def split: prod.splits option.splits)

lemma reply_snd [simp]: "snd (reply c pkt d) = c\<lparr>c_sock := snd (Send (c_sock c) pkt)\<rparr>"
  by (simp add: reply_eq)

section \<open>Subscriptions\<close>

text \<open>Subscribing updates the table entry by entry: the last grant for a filter counts.\<close>

lemma subscribe_loop_eq:
  "length ts = length qs \<Longrightarrow>
     map_of (fst (subscribe_loop ts qs (sb, codes))) = map_of sb ++ map_of (rev (zip ts qs)) \<and>
     snd (subscribe_loop ts qs (sb, codes)) = codes @ qs"
proof (induction ts qs arbitrary: sb codes rule: list_induct2)
  case (Cons t ts q qs)
  have "map_of (AList.update t q sb) ++ m = map_of sb ++ ([t \<mapsto> q] ++ m)" for m
    by (rule ext) (simp add: map_add_def AList.update_conv split: option.splits)
  with Cons show ?case by (simp add: map_of_append)
qed simp

lemma unsubscribe_loop_eq:
  "map_of (unsubscribe_loop ts sb) = map_of sb |` (- set ts)"
proof (induction ts arbitrary: sb)
  case (Cons t ts)
  then show ?case
    by (auto simp: AList.delete_conv restrict_map_def fun_eq_iff)
qed (simp add: restrict_map_def)

lemma distinct_subscribe_loop:
  "distinct (map fst sb) \<Longrightarrow> distinct (map fst (fst (subscribe_loop ts qs (sb, codes))))"
  by (induction ts qs "(sb, codes)" arbitrary: sb codes rule: subscribe_loop.induct)
    (simp_all add: AList.distinct_update)

lemma distinct_unsubscribe_loop:
  "distinct (map fst sb) \<Longrightarrow> distinct (map fst (unsubscribe_loop ts sb))"
  by (induction ts arbitrary: sb) (simp_all add: AList.distinct_delete)

lemma set_subscribe_loop:
  "set (fst (subscribe_loop ts qs (sb, codes))) \<subseteq> set sb \<union> set (zip ts qs)"
proof (induction ts qs "(sb, codes)" arbitrary: sb codes rule: subscribe_loop.induct)
  case (1 t ts q qs sb codes)
  have "set (AList.update t q sb) \<subseteq> insert (t, q) (set sb)"
    by (induction sb) auto
  with 1 show ?case by auto
qed simp_all

lemma set_unsubscribe_loop: "set (unsubscribe_loop ts sb) \<subseteq> set sb"
proof (induction ts arbitrary: sb)
  case (Cons t ts)
  have "set (AList.delete t sb) \<subseteq> set sb" by (auto simp: AList.delete_eq)
  with Cons show ?case by fastforce
qed simp

section \<open>The quality of a delivery\<close>

text \<open>The grants of the matching subscriptions.\<close>

definition matching :: "PublishPacket \<Rightarrow> (gostring \<times> byte) list \<Rightarrow> byte set" where
  "matching p sb = {g. \<exists>f. (f, g) \<in> set sb \<and> MatchFilter f (TopicName p)}"

lemma finite_matching [simp]: "finite (matching p sb)"
  by (rule finite_subset [of _ "snd ` set sb"]) (force simp: matching_def)+

lemma matching_Cons:
  "matching p ((f, g) # sb) =
     (if MatchFilter f (TopicName p) then insert g (matching p sb) else matching p sb)"
  by (auto simp: matching_def)

lemma match_subs_eq:
  "match_subs p sb (m, q) = (m \<or> matching p sb \<noteq> {},
     Max (insert q ((\<lambda>g. min g (Qos (pub_FixedHeader p))) ` matching p sb)))"
proof (induction p sb "(m, q)" arbitrary: m q rule: match_subs.induct)
  case (1 p)
  then show ?case by (simp add: matching_def)
next
  case (2 p f g sb m q)
  let ?Q = "Qos (pub_FixedHeader p)" and ?M = "(\<lambda>g. min g (Qos (pub_FixedHeader p))) ` matching p sb"
  show ?case
  proof (cases "MatchFilter f (TopicName p)")
    case True
    have "Max (insert (max q (min g ?Q)) ?M) = Max (insert q (insert (min g ?Q) ?M))"
      by (cases "?M = {}") (auto simp: max.assoc)
    moreover have "(let g = g; g = (if ?Q < g then ?Q else g) in if g > q then g else q) = max q (min g ?Q)"
      by (auto simp: Let_def max_def min_def)
    ultimately show ?thesis
      using True 2(1) [OF True refl refl refl]
      by (simp add: matching_Cons Let_def max_def min_def)
  next
    case False
    then show ?thesis using 2(2) [OF False] by (simp add: matching_Cons)
  qed
qed

lemma match_subs_result:
  "match_subs p sb (False, 0) = (matching p sb \<noteq> {},
     if matching p sb = {} then 0 else min (Max (matching p sb)) (Qos (pub_FixedHeader p)))"
proof (cases "matching p sb = {}")
  case False
  let ?f = "\<lambda>g. min g (Qos (pub_FixedHeader p))"
  have "mono ?f" by (rule monoI) (auto simp: min_def)
  then have "Max (?f ` matching p sb) = ?f (Max (matching p sb))"
    using mono_Max_commute [of ?f "matching p sb"] False by simp
  with False show ?thesis by (simp add: match_subs_eq max_def)
qed (simp add: match_subs_eq)

text \<open>The order in which the Go map of subscriptions is visited does not matter.\<close>

lemma match_subs_order:
  "set sb = set sb' \<Longrightarrow> match_subs p sb (False, 0) = match_subs p sb' (False, 0)"
  by (simp only: match_subs_result matching_def)

lemma match_subs_le:
  assumes "match_subs p sb (False, 0) = (match, qos)"
  shows "qos \<le> Qos (pub_FixedHeader p)"
  using assms by (auto simp: match_subs_result split: if_splits)

section \<open>Packet identifiers\<close>

definition next_id :: "uint16 \<Rightarrow> uint16" where
  "next_id n = (if n + 1 = 0 then 1 else n + 1)"

lemma allocate_eq:
  "allocate qos c = (next_id (nextID c), c\<lparr>nextID := next_id (nextID c),
     outbound2 := (if qos = 2 then insert (next_id (nextID c)) (outbound2 c) else outbound2 c)\<rparr>)"
  by (simp add: allocate_def next_id_def Let_def)

lemma next_id_nonzero [simp]: "next_id n \<noteq> 0"
  by (simp add: next_id_def)

lemma unat_next_id: "unat (next_id n) = unat n mod 65535 + 1"
proof -
  have "unat n < 2 ^ 16"
    using unsigned_less [of n] by simp
  then have n: "unat n \<le> 65535" by simp
  show ?thesis
  proof (cases "unat n = 65535")
    case True
    then have "n + 1 = 0" by (simp add: word_unat_eq_iff unat_word_ariths)
    with True show ?thesis by (simp add: next_id_def)
  next
    case False
    with n have "unat (n + 1) = unat n + 1" by (simp add: unat_word_ariths)
    moreover from this have "n + 1 \<noteq> 0" by (metis Suc_eq_plus1 nat.distinct(1) unat_0)
    ultimately show ?thesis using n False by (simp add: next_id_def)
  qed
qed

lemma unat_next_id_pow: "unat ((next_id ^^ Suc k) n) = (unat n + k) mod 65535 + 1"
proof (induction k)
  case (Suc k)
  then show ?case
    by (simp add: unat_next_id mod_Suc_eq)
qed (simp add: unat_next_id)

text \<open>Identifiers repeat only after all 65535 of them were used.\<close>

lemma next_id_window:
  assumes "i < 65535" and "j < 65535" and "(next_id ^^ Suc i) n = (next_id ^^ Suc j) n"
  shows "i = j"
proof -
  define r where "r = unat n mod 65535"
  have "(unat n + k) mod 65535 = (r + k) mod 65535" for k
    by (simp add: r_def mod_simps)
  with assms(3) have "(r + i) mod 65535 = (r + j) mod 65535"
    by (metis add_right_cancel unat_next_id_pow)
  moreover have "x mod 65535 = (if x < 65535 then x else x - 65535)" if "x < 2 * 65535" for x :: nat
    using that by (simp add: mod_if)
  moreover have "r < 65535" by (simp add: r_def)
  ultimately show ?thesis using assms(1,2) by (simp split: if_splits)
qed

section \<open>What a client is sent\<close>

lemma outgoing_simps [simp]:
  "TopicName (outgoing p qos i) = TopicName p" "Payload (outgoing p qos i) = Payload p"
  "pub_MessageID (outgoing p qos i) = i"
  "pub_FixedHeader (outgoing p qos i) = zeroHeader Publish qos"
  by (simp_all add: outgoing_def PublishPacket_Copy_def new_PublishPacket_def zeroHeader_def Let_def)

lemma outgoing_valid:
  assumes "ValidateTopic (TopicName p) = None" and "qos > 0 \<Longrightarrow> i \<noteq> 0"
  shows "PublishPacket_Validate (outgoing p qos i) = None"
  using assms by (simp add: PublishPacket_Validate_def zeroHeader_def)

definition granted_qos :: "PublishPacket \<Rightarrow> client \<Rightarrow> byte" where
  "granted_qos p c = min (Max (matching p (subs c))) (Qos (pub_FixedHeader p))"

definition delivery :: "PublishPacket \<Rightarrow> client \<Rightarrow> PublishPacket" where
  "delivery p c = outgoing p (granted_qos p c)
     (if granted_qos p c > 0 then next_id (nextID c) else 0)"

lemma deliver_locked_eq:
  "deliver_locked p c =
     (if matching p (subs c) = {} then (None, c)
      else (Some (delivery p c),
            if granted_qos p c > 0 then snd (allocate (granted_qos p c) c) else c))"
  by (simp add: deliver_locked_def match_subs_result granted_qos_def [symmetric] delivery_def
      allocate_eq)

lemma deliver_client_eq:
  "deliver_client p c =
     (if matching p (subs c) = {} then c
      else let c' = (if granted_qos p c > 0 then snd (allocate (granted_qos p c) c) else c)
           in c'\<lparr>c_sock := snd (Send (c_sock c) (PublishP (delivery p c)))\<rparr>)"
  by (simp add: deliver_client_def deliver_locked_eq allocate_eq Let_def)

lemma deliver_client_simps [simp]:
  "subs (deliver_client p c) = subs c" "inbound2 (deliver_client p c) = inbound2 c"
  "c_id (deliver_client p c) = c_id c"
  "input (c_sock (deliver_client p c)) = input (c_sock c)"
  "sockClosed (c_sock c) \<Longrightarrow> sockClosed (c_sock (deliver_client p c))"
  by (simp_all add: deliver_client_eq allocate_eq Let_def)

lemma deliver_client_packets:
  "packets (c_sock (deliver_client p c)) = packets (c_sock c) @
     (if matching p (subs c) \<noteq> {} \<and> fst (Send (c_sock c) (PublishP (delivery p c))) = None
      then [PublishP (delivery p c)] else [])"
  by (auto simp: deliver_client_eq Send_packets Let_def)

lemma deliver_heap:
  "distinct ts \<Longrightarrow> deliver ts p b =
     b\<lparr>heap := (\<lambda>i. if i \<in> set ts then map_option (deliver_client p) (heap b i) else heap b i)\<rparr>"
proof (induction ts arbitrary: b)
  case Nil
  then show ?case by (simp add: deliver_def)
next
  case (Cons t ts)
  have "deliver (t # ts) p b = deliver ts p (deliver_to p t b)"
    by (simp add: deliver_def)
  also have "\<dots> = (deliver_to p t b)\<lparr>heap := (\<lambda>i. if i \<in> set ts
      then map_option (deliver_client p) (heap (deliver_to p t b) i) else heap (deliver_to p t b) i)\<rparr>"
    using Cons by simp
  finally show ?case
    using Cons.prems
    by (auto simp: deliver_to_def fun_eq_iff split: option.splits intro!: Broker.equality)
qed

section \<open>Quality of service 2, receiving side\<close>

text \<open>
  The messages a client's handler hands to \<^verbatim>\<open>deliver\<close> for a sequence of received packets, the
  error that ended it, if any, and the client afterwards.
\<close>

fun dispatch_run ::
    "client \<Rightarrow> ControlPacket list \<Rightarrow> PublishPacket list \<times> error option \<times> client" where
  "dispatch_run c [] = ([], None, c)"
| "dispatch_run c (pkt # pkts) = (case dispatch_client c pkt of
      (Inl err, c') \<Rightarrow> ([], Some err, c')
    | (Inr None, c') \<Rightarrow> dispatch_run c' pkts
    | (Inr (Some p), c') \<Rightarrow> (case dispatch_run c' pkts of (ps, e, c'') \<Rightarrow> (p # ps, e, c'')))"

text \<open>
  The specification, for one packet identifier: nothing is held, or one message is held until
  its release; a retransmission is absorbed, a repeated release delivers nothing.
\<close>

fun qos2_receiver ::
    "PublishPacket option \<Rightarrow> ControlPacket list \<Rightarrow> PublishPacket list \<times> PublishPacket option" where
  "qos2_receiver held [] = ([], held)"
| "qos2_receiver held (pkt # pkts) = (case pkt of
      PublishP p \<Rightarrow> qos2_receiver (case held of None \<Rightarrow> Some p | Some m \<Rightarrow> Some m) pkts
    | PubrelP _ \<Rightarrow> (case held of
        None \<Rightarrow> qos2_receiver None pkts
      | Some m \<Rightarrow> (case qos2_receiver None pkts of (ps, h) \<Rightarrow> (m # ps, h)))
    | _ \<Rightarrow> qos2_receiver held pkts)"

text \<open>The packets and messages that belong to quality 2 exchanges under identifier \<open>i\<close>.\<close>

definition concerns :: "uint16 \<Rightarrow> ControlPacket \<Rightarrow> bool" where
  "concerns i pkt = (case pkt of
      PublishP p \<Rightarrow> Qos (pub_FixedHeader p) = 2 \<and> pub_MessageID p = i
    | PubrelP r \<Rightarrow> pubrel_MessageID r = i
    | _ \<Rightarrow> False)"

definition qos2_message :: "uint16 \<Rightarrow> PublishPacket \<Rightarrow> bool" where
  "qos2_message i p \<longleftrightarrow> Qos (pub_FixedHeader p) = 2 \<and> pub_MessageID p = i"

definition inbound_ok :: "client \<Rightarrow> bool" where
  "inbound_ok c \<longleftrightarrow> (\<forall>i p. inbound2 c i = Some p \<longrightarrow> qos2_message i p)"

lemmas dispatch_defs = dispatch_locked_def dispatch_subscribe_def dispatch_unsubscribe_def
  dispatch_publish_def dispatch_pubrel_def dispatch_pubrec_def

lemma dispatch_locked_inbound_ok:
  "inbound_ok c \<Longrightarrow> inbound_ok (snd (dispatch_locked c pkt))"
  by (cases pkt)
    (auto simp: dispatch_defs inbound_ok_def qos2_message_def Let_def split: option.splits prod.splits)

lemma dispatch_locked_sock [simp]: "c_sock (snd (dispatch_locked c pkt)) = c_sock c"
  by (cases pkt) (auto simp: dispatch_defs Let_def split: option.splits prod.splits)

text \<open>The send afterwards changes the socket only.\<close>

lemma dispatch_client_eq:
  "dispatch_client c pkt = (case dispatch_locked c pkt of
      (Inl err, c1) \<Rightarrow> (Inl err, c1)
    | (Inr (None, msg), c1) \<Rightarrow> (Inr msg, c1)
    | (Inr (Some ack, msg), c1) \<Rightarrow>
        (case fst (Send (c_sock c) ack) of Some err \<Rightarrow> Inl err | None \<Rightarrow> Inr msg,
         c1\<lparr>c_sock := snd (Send (c_sock c) ack)\<rparr>))"
proof -
  obtain res c1 where l: "dispatch_locked c pkt = (res, c1)" by (cases "dispatch_locked c pkt")
  moreover have "c_sock c1 = c_sock c" using dispatch_locked_sock [of c pkt] l by simp
  ultimately show ?thesis
    by (simp add: dispatch_client_def reply_eq split: sum.split option.split)
qed

lemma dispatch_client_Inr:
  assumes "dispatch_client c pkt = (Inr res, c')"
  obtains ack c1 where "dispatch_locked c pkt = (Inr (ack, res), c1)" "inbound2 c' = inbound2 c1"
  using assms by (auto simp: dispatch_client_eq split: prod.splits sum.splits option.splits)

lemma dispatch_client_inbound_ok:
  assumes "inbound_ok c"
  shows "inbound_ok (snd (dispatch_client c pkt))"
  using dispatch_locked_inbound_ok [OF assms, of pkt]
  by (auto simp: dispatch_client_eq inbound_ok_def split: prod.splits sum.splits option.splits)

lemma dispatch_publish_Inr:
  assumes "dispatch_publish c p = (Inr (ack, res), c')"
  shows "inbound2 c' = (if Qos (pub_FixedHeader p) = 2 \<and> inbound2 c (pub_MessageID p) = None
      then (inbound2 c)(pub_MessageID p \<mapsto> p) else inbound2 c)"
    and "res = (if Qos (pub_FixedHeader p) \<in> {0, 1} then Some p else None)"
  using assms by (auto simp: dispatch_publish_def Let_def split: option.splits if_splits)

lemma dispatch_pubrel_Inr:
  assumes "dispatch_pubrel c p = (Inr (ack, res), c')"
  shows "inbound2 c' = (inbound2 c)(pubrel_MessageID p := None)"
    and "res = inbound2 c (pubrel_MessageID p)"
  using assms by (auto simp: dispatch_pubrel_def Let_def)

text \<open>Every other packet leaves the held messages alone and delivers nothing.\<close>

lemma dispatch_other_Inr:
  assumes "dispatch_locked c pkt = (Inr (ack, res), c')"
    and "kind pkt \<noteq> Publish" and "kind pkt \<noteq> Pubrel"
  shows "inbound2 c' = inbound2 c" and "res = None"
  using assms
  by (cases pkt; auto simp: dispatch_locked_def dispatch_subscribe_def dispatch_unsubscribe_def
      dispatch_pubrec_def split: option.splits prod.splits)+

text \<open>One received packet, seen from identifier \<open>i\<close>.\<close>

lemma dispatch_locked_receiver:
  assumes "inbound_ok c" and "dispatch_locked c pkt = (Inr (ack, res), c')"
  shows "qos2_receiver (inbound2 c i) (filter (concerns i) [pkt]) =
    (filter (qos2_message i) (case res of None \<Rightarrow> [] | Some p \<Rightarrow> [p]), inbound2 c' i)"
proof -
  consider (publish) p where "pkt = PublishP p" | (pubrel) p where "pkt = PubrelP p"
    | (other) "kind pkt \<noteq> Publish" "kind pkt \<noteq> Pubrel"
    by (cases pkt) auto
  then show ?thesis
  proof cases
    case publish
    with assms(2) have d: "dispatch_publish c p = (Inr (ack, res), c')"
      by (simp add: dispatch_locked_def)
    show ?thesis
      using dispatch_publish_Inr [OF d]
      by (auto simp: publish concerns_def qos2_message_def split: option.splits)
  next
    case pubrel
    with assms(2) have d: "dispatch_pubrel c p = (Inr (ack, res), c')"
      by (simp add: dispatch_locked_def)
    show ?thesis
      using dispatch_pubrel_Inr [OF d] assms(1)
      by (auto simp: pubrel concerns_def qos2_message_def inbound_ok_def split: option.splits)
  next
    case other
    then have "\<not> concerns i pkt" by (cases pkt) (auto simp: concerns_def)
    with dispatch_other_Inr [OF assms(2) other] show ?thesis by simp
  qed
qed

lemma dispatch_client_receiver:
  assumes "inbound_ok c" and "dispatch_client c pkt = (Inr res, c')"
  shows "qos2_receiver (inbound2 c i) (filter (concerns i) [pkt]) =
    (filter (qos2_message i) (case res of None \<Rightarrow> [] | Some p \<Rightarrow> [p]), inbound2 c' i)"
  using assms(2) by (rule dispatch_client_Inr) (use dispatch_locked_receiver [OF assms(1)] in simp)

lemma qos2_receiver_append:
  "qos2_receiver held (xs @ ys) =
     (case qos2_receiver held xs of (ps, h) \<Rightarrow>
        (case qos2_receiver h ys of (qs, h') \<Rightarrow> (ps @ qs, h')))"
  by (induction held xs rule: qos2_receiver.induct)
    (auto split: ControlPacket.splits option.splits prod.splits)

text \<open>The refinement: per identifier, the handler is the specified receiver.\<close>

lemma dispatch_run_receiver:
  assumes "inbound_ok c" and "dispatch_run c pkts = (ps, None, c')"
  shows "qos2_receiver (inbound2 c i) (filter (concerns i) pkts) =
    (filter (qos2_message i) ps, inbound2 c' i)"
  using assms
proof (induction pkts arbitrary: c ps)
  case (Cons pkt pkts)
  obtain res c1 where d: "dispatch_client c pkt = (Inr res, c1)"
    using Cons.prems(2) by (cases "dispatch_client c pkt"; cases "fst (dispatch_client c pkt)") auto
  have ok: "inbound_ok c1"
    using dispatch_client_inbound_ok [OF Cons.prems(1), of pkt] d by simp
  obtain ps' where run: "dispatch_run c1 pkts = (ps', None, c')"
    and ps: "ps = (case res of None \<Rightarrow> [] | Some p \<Rightarrow> [p]) @ ps'"
    using Cons.prems(2) d by (auto split: option.splits prod.splits)
  have "filter (concerns i) (pkt # pkts) = filter (concerns i) [pkt] @ filter (concerns i) pkts"
    by simp
  then show ?case
    using dispatch_client_receiver [OF Cons.prems(1) d, of i] Cons.IH [OF ok run]
    by (simp only: qos2_receiver_append) (simp add: ps)
qed simp

lemma qos2_receiver_held:
  "qos2_receiver (Some m) (replicate k (PublishP p)) = ([], Some m)"
  by (induction k) simp_all

lemma qos2_receiver_released: "qos2_receiver None (replicate j (PubrelP r)) = ([], None)"
  by (induction j) simp_all

lemma qos2_receiver_once:
  "qos2_receiver None (replicate (Suc k) (PublishP p) @ replicate (Suc j) (PubrelP r)) = ([p], None)"
  by (simp add: qos2_receiver_append qos2_receiver_held qos2_receiver_released)

section \<open>Properties\<close>

text \<open>A client with an open socket, for the witnesses.\<close>

definition sample_client :: client where
  "sample_client = new_client
     \<lparr>input = buffer [], packets = [], outcomes = [], sockTimeout = 0, sockClosed = False\<rparr> []"

definition sample_message :: "byte \<Rightarrow> PublishPacket" where
  "sample_message q = \<lparr>pub_FixedHeader = zeroHeader Publish q, TopicName = lit ''a/b'',
     pub_MessageID = 7, Payload = lit ''x''\<rparr>"

lemma sample_valid: "PublishPacket_Validate (sample_message 2) = None"
  by (simp add: sample_message_def PublishPacket_Validate_def zeroHeader_def ValidateTopic_None
      topic_string_def plain_level_def ValidUTF8String_def lit_def)

lemma sample_inbound_ok: "inbound_ok sample_client"
  by (simp add: sample_client_def new_client_def inbound_ok_def)

lemma sample_run:
  "dispatch_run sample_client
     [PublishP (sample_message 2), PublishP (sample_message 2), PubrelP
       \<lparr>pubrel_FixedHeader = zeroHeader Pubrel 1, pubrel_MessageID = 7\<rparr>] =
   ([sample_message 2], None, snd (snd (dispatch_run sample_client
     [PublishP (sample_message 2), PublishP (sample_message 2), PubrelP
       \<lparr>pubrel_FixedHeader = zeroHeader Pubrel 1, pubrel_MessageID = 7\<rparr>])))"
  by (simp add: dispatch_client_def dispatch_locked_def dispatch_publish_def dispatch_pubrel_def
      sample_valid reply_def Send_def sample_client_def new_client_def)
    (simp add: sample_message_def zeroHeader_def)

text \<open>
  Exactly once. While the handler of a client meets no error, and whatever else it receives
  in between, a message published at quality 2 one or more times under a free identifier, then
  released one or more times, is handed to \<^verbatim>\<open>deliver\<close> exactly once, and the identifier is free
  again.
\<close>

theorem qos2_exactly_once:
  assumes "inbound_ok c" and "inbound2 c i = None"
    and "dispatch_run c pkts = (ps, None, c')"
    and "filter (concerns i) pkts =
      replicate (Suc k) (PublishP p) @ replicate (Suc j) (PubrelP r)"
  shows "filter (qos2_message i) ps = [p] \<and> inbound2 c' i = None"
  using dispatch_run_receiver [OF assms(1,3), of i] qos2_receiver_once [of k p j r] assms(2,4)
  by simp

theorem qos2_exactly_once_witness:
  "filter (qos2_message 7) [sample_message 2] = [sample_message 2]"
  using qos2_exactly_once [OF sample_inbound_ok _ sample_run, of 7 1 "sample_message 2" 0
      "\<lparr>pubrel_FixedHeader = zeroHeader Pubrel 1, pubrel_MessageID = 7\<rparr>"]
  by (simp add: concerns_def sample_client_def new_client_def sample_message_def zeroHeader_def)

text \<open>
  Refinement. For every packet identifier, what the handler of a client delivers and holds
  at quality 2 is what the specified receiver delivers and holds on the packets that concern
  this identifier, over any error free run.
\<close>

theorem qos2_receiver_refinement:
  assumes "inbound_ok c" and "dispatch_run c pkts = (ps, None, c')"
  shows "qos2_receiver (inbound2 c i) (filter (concerns i) pkts) =
    (filter (qos2_message i) ps, inbound2 c' i)"
  using assms by (rule dispatch_run_receiver)

theorem qos2_receiver_refinement_witness:
  "fst (qos2_receiver None [PublishP (sample_message 2), PublishP (sample_message 2), PubrelP
      \<lparr>pubrel_FixedHeader = zeroHeader Pubrel 1, pubrel_MessageID = 7\<rparr>]) = [sample_message 2]"
  using qos2_receiver_refinement [OF sample_inbound_ok sample_run, of 7]
  by (simp add: concerns_def qos2_message_def sample_client_def new_client_def sample_message_def
      zeroHeader_def)

text \<open>
  C15: delivery to one client. A client none of whose filters matches is left alone. Otherwise
  one PUBLISH with the topic and payload of the message is sent, however many filters match, at
  the highest granted quality but not above the message's own; it carries an identifier exactly
  when the quality is positive, and is itself a valid packet if the message's topic is valid.
\<close>

theorem deliver_client_sends:
  assumes "ValidateTopic (TopicName p) = None" and "deliver_client p c = c'"
  shows "if matching p (subs c) = {} then c' = c
    else \<exists>out. c_sock c' = snd (Send (c_sock c) (PublishP out)) \<and>
      TopicName out = TopicName p \<and> Payload out = Payload p \<and>
      Qos (pub_FixedHeader out) = min (Max (matching p (subs c))) (Qos (pub_FixedHeader p)) \<and>
      (pub_MessageID out \<noteq> 0 \<longleftrightarrow> Qos (pub_FixedHeader out) > 0) \<and>
      PublishPacket_Validate out = None"
proof (cases "matching p (subs c) = {}")
  case False
  have "PublishPacket_Validate (delivery p c) = None"
    unfolding delivery_def by (rule outgoing_valid [OF assms(1)]) simp
  moreover have "c_sock c' = snd (Send (c_sock c) (PublishP (delivery p c)))"
    using assms(2) False by (auto simp: deliver_client_eq Let_def)
  ultimately show ?thesis
    using False by (auto simp: delivery_def zeroHeader_def granted_qos_def)
qed (use assms(2) in \<open>simp add: deliver_client_eq\<close>)

theorem deliver_client_sends_witness:
  "\<exists>out. c_sock (deliver_client (sample_message 2) (sample_client\<lparr>subs := [(lit ''a/b'', 1)]\<rparr>)) =
      snd (Send (c_sock sample_client) (PublishP out)) \<and>
    Qos (pub_FixedHeader out) = 1 \<and> pub_MessageID out \<noteq> 0"
proof -
  let ?c = "sample_client\<lparr>subs := [(lit ''a/b'', 1)]\<rparr>"
  have "ValidateTopic (TopicName (sample_message 2)) = None"
    by (simp add: sample_message_def ValidateTopic_None topic_string_def plain_level_def
        ValidUTF8String_def lit_def)
  moreover have "matching (sample_message 2) (subs ?c) = {1}"
    by (auto simp: matching_def sample_message_def MatchFilter_plain plain_level_def lit_def)
  ultimately show ?thesis
    using deliver_client_sends [of "sample_message 2" ?c "deliver_client (sample_message 2) ?c"]
    by (auto simp: sample_message_def zeroHeader_def min_def)
qed

text \<open>
  The order in which \<^verbatim>\<open>deliver\<close> visits the clients, which Go leaves open, does not matter:
  any two orders of the same clients leave the same broker.
\<close>

theorem deliver_any_order:
  assumes "distinct ts" and "distinct ts'" and "set ts = set ts'"
  shows "deliver ts p b = deliver ts' p b"
  using assms by (simp add: deliver_heap)

theorem deliver_any_order_witness:
  "deliver [1, 2] (sample_message 2) NewBroker = deliver [2, 1] (sample_message 2) NewBroker"
  by (rule deliver_any_order) auto

text \<open>
  C17: packet identifiers. An allocated identifier is never zero, the counter follows it, and
  among any 65535 allocations in a row no identifier occurs twice.
\<close>

theorem allocate_identifiers:
  "fst (allocate q c) \<noteq> 0 \<and> nextID (snd (allocate q c)) = fst (allocate q c) \<and>
   fst (allocate q c) = next_id (nextID c) \<and>
   inj_on (\<lambda>k. (next_id ^^ Suc k) (nextID c)) {..<65535}"
  unfolding inj_on_def by (auto simp: allocate_eq simp del: funpow.simps dest: next_id_window)

text \<open>
  C18: subscribing. An accepted SUBSCRIBE gives every filter in it the last quality it lists for
  it, leaves the other subscriptions alone, and is answered by a SUBACK with its identifier and
  one return code per filter, in order.
\<close>

theorem dispatch_subscribe_table:
  assumes "SubscribePacket_Validate p = None" and "dispatch_client c (SubscribeP p) = (res, c')"
  shows "map_of (subs c') = map_of (subs c) ++ map_of (rev (zip (sub_Topics p) (Qoss p))) \<and>
    c_sock c' = snd (Send (c_sock c) (SubackP \<lparr>suback_FixedHeader = zeroHeader Suback 0,
      suback_MessageID = sub_MessageID p, ReturnCodes = Qoss p\<rparr>))"
proof -
  have "length (sub_Topics p) = length (Qoss p)"
    using assms(1) by (simp add: SubscribePacket_Validate_None)
  from subscribe_loop_eq [OF this, of "subs c" "[]"] show ?thesis
    using assms by (auto simp: dispatch_client_def dispatch_locked_def dispatch_subscribe_def reply_eq
        new_SubackPacket_def split: prod.splits)
qed

theorem dispatch_subscribe_table_witness:
  "map_of (subs (snd (dispatch_client sample_client (SubscribeP
      \<lparr>sub_FixedHeader = zeroHeader Subscribe 1, sub_MessageID = 5,
       sub_Topics = [lit ''a''], Qoss = [1]\<rparr>)))) = [lit ''a'' \<mapsto> 1]"
proof -
  let ?p = "\<lparr>sub_FixedHeader = zeroHeader Subscribe 1, sub_MessageID = 5,
       sub_Topics = [lit ''a''], Qoss = [1]\<rparr> :: SubscribePacket"
  have "SubscribePacket_Validate ?p = None"
    by (simp add: SubscribePacket_Validate_None ValidatePattern_None topic_string_def
        filter_levels_def plain_level_def ValidUTF8String_def lit_def)
  from dispatch_subscribe_table [OF this surjective_pairing, of sample_client] show ?thesis
    by (simp add: sample_client_def new_client_def)
qed

text \<open>
  Unsubscribing. An accepted UNSUBSCRIBE removes exactly the filters it lists and is
  answered by an UNSUBACK with its identifier.
\<close>

theorem dispatch_unsubscribe_table:
  assumes "UnsubscribePacket_Validate p = None" and "dispatch_client c (UnsubscribeP p) = (res, c')"
  shows "map_of (subs c') = map_of (subs c) |` (- set (unsub_Topics p)) \<and>
    c_sock c' = snd (Send (c_sock c) (UnsubackP \<lparr>unsuback_FixedHeader = zeroHeader Unsuback 0,
      unsuback_MessageID = unsub_MessageID p\<rparr>))"
  using assms by (auto simp: dispatch_client_def dispatch_locked_def dispatch_unsubscribe_def reply_eq
      new_UnsubackPacket_def unsubscribe_loop_eq)

theorem dispatch_unsubscribe_table_witness:
  "map_of (subs (snd (dispatch_client (sample_client\<lparr>subs := [(lit ''a'', 1), (lit ''b'', 2)]\<rparr>)
      (UnsubscribeP \<lparr>unsub_FixedHeader = zeroHeader Unsubscribe 1, unsub_MessageID = 5,
       unsub_Topics = [lit ''a'']\<rparr>)))) (lit ''b'') = Some 2"
proof -
  let ?p = "\<lparr>unsub_FixedHeader = zeroHeader Unsubscribe 1, unsub_MessageID = 5,
       unsub_Topics = [lit ''a'']\<rparr> :: UnsubscribePacket"
  have "UnsubscribePacket_Validate ?p = None"
    by (simp add: UnsubscribePacket_Validate_None ValidatePattern_None topic_string_def
        filter_levels_def plain_level_def ValidUTF8String_def lit_def)
  from dispatch_unsubscribe_table [OF this surjective_pairing,
      of "sample_client\<lparr>subs := [(lit ''a'', 1), (lit ''b'', 2)]\<rparr>"] show ?thesis
    by (simp add: restrict_map_def lit_def)
qed

end
