(* ===== verification/BrokerSystem.thy ===== *)
theory BrokerSystem
  imports InteropBroker
begin

text \<open>
  The broker with all its handlers as a transition system: every connection runs \<^verbatim>\<open>handle\<close> in
  a goroutine of its own, and the steps of the handlers interleave in any way. A step is what a
  goroutine does under one lock or in one call of a socket: the handshake with the registration,
  a receive with the change of the client's state, the send of the reply, the snapshot of the
  clients for a delivery, for each of them the choice of the packet and its send, and for
  \<^verbatim>\<open>Close\<close> its snapshot and the closing of one socket.

  The invariant of the reachable states says what is true of every client at every moment, and
  a measure of the handlers shows that a closed broker comes to rest.
\<close>

section \<open>Handlers\<close>

text \<open>
  Where the goroutine of a connection stands: before the CONNECT (with its socket), in the
  receive loop, about to send a reply (and then to deliver a message, if any), about to call
  \<^verbatim>\<open>deliver\<close>, inside its loop with the clients still to visit, about to send to one of them, or
  returned.
\<close>

datatype phase =
    Connecting sock
  | Running
  | Replying ControlPacket "PublishPacket option"
  | Publishing PublishPacket
  | Delivering PublishPacket "cid list"
  | Sending PublishPacket cid PublishPacket "cid list"
  | Finished

text \<open>\<open>closing\<close> are the clients whose sockets a call of \<^verbatim>\<open>Close\<close> has still to close.\<close>

record system =
  broker :: Broker
  phases :: "cid \<rightharpoonup> phase"
  closing :: "cid list"

definition init_system :: system where
  "init_system = \<lparr>broker = NewBroker, phases = Map.empty, closing = []\<rparr>"

definition set_client :: "cid \<Rightarrow> client \<Rightarrow> system \<Rightarrow> system" where
  "set_client i c s = s\<lparr>broker := (broker s)\<lparr>heap := (heap (broker s))(i \<mapsto> c)\<rparr>\<rparr>"

definition set_phase :: "cid \<Rightarrow> phase \<Rightarrow> system \<Rightarrow> system" where
  "set_phase i ph s = s\<lparr>phases := (phases s)(i \<mapsto> ph)\<rparr>"

text \<open>The handler returns: its deferred functions run.\<close>

definition finish :: "cid \<Rightarrow> system \<Rightarrow> system" where
  "finish i s = set_phase i Finished (s\<lparr>broker := unregister i (broker s)\<rparr>)"

definition handle_connect :: "cid \<Rightarrow> sock \<Rightarrow> system \<Rightarrow> system" where
  "handle_connect i sk s = (case handshake sk of
      (None, _) \<Rightarrow> set_phase i Finished s
    | (Some c, _) \<Rightarrow> (case register i c (broker s) of
        None \<Rightarrow> set_phase i Finished s
      | Some b \<Rightarrow> set_phase i Running (s\<lparr>broker := b\<rparr>)))"

text \<open>What follows a successful reply: the delivery of a message, or the next receive.\<close>

definition next_phase :: "PublishPacket option \<Rightarrow> phase" where
  "next_phase msg = (case msg of None \<Rightarrow> Running | Some p \<Rightarrow> Publishing p)"

text \<open>One turn of the loop of \<^verbatim>\<open>handle\<close>: receive and change the client, then send the reply.\<close>

definition handle_receive :: "cid \<Rightarrow> client \<Rightarrow> system \<Rightarrow> system" where
  "handle_receive i c s = (case recv (c_sock c) of (m, sk) \<Rightarrow>
     (let c = c\<lparr>c_sock := sk\<rparr>
      in case m of
        Inl err \<Rightarrow> finish i (set_client i c s)
      | Inr pkt \<Rightarrow> (case dispatch_locked c pkt of
          (Inl err, c) \<Rightarrow> finish i (set_client i c s)
        | (Inr (None, msg), c) \<Rightarrow> set_phase i (next_phase msg) (set_client i c s)
        | (Inr (Some ack, msg), c) \<Rightarrow> set_phase i (Replying ack msg) (set_client i c s))))"

definition handle_reply :: "cid \<Rightarrow> ControlPacket \<Rightarrow> PublishPacket option \<Rightarrow> client \<Rightarrow> system \<Rightarrow> system" where
  "handle_reply i ack msg c s = (case reply c ack msg of
      (Inl err, c) \<Rightarrow> finish i (set_client i c s)
    | (Inr msg, c) \<Rightarrow> set_phase i (next_phase msg) (set_client i c s))"

text \<open>One turn of the loop of \<^verbatim>\<open>deliver\<close>: choose the packet for a client, then send it.\<close>

definition handle_visit :: "cid \<Rightarrow> PublishPacket \<Rightarrow> cid \<Rightarrow> cid list \<Rightarrow> client \<Rightarrow> system \<Rightarrow> system" where
  "handle_visit i p t ts c s = (case deliver_locked p c of
      (None, c) \<Rightarrow> set_phase i (Delivering p ts) (set_client t c s)
    | (Some out, c) \<Rightarrow> set_phase i (Sending p t out ts) (set_client t c s))"

definition handle_send :: "cid \<Rightarrow> PublishPacket \<Rightarrow> cid \<Rightarrow> PublishPacket \<Rightarrow> cid list \<Rightarrow> client \<Rightarrow>
    system \<Rightarrow> system" where
  "handle_send i p t out ts c s = set_phase i (Delivering p ts)
     (set_client t (c\<lparr>c_sock := snd (Send (c_sock c) (PublishP out))\<rparr>) s)"

text \<open>\<^verbatim>\<open>Close\<close>: the flag and the snapshot under the lock, then one socket after the other.\<close>

definition begin_close :: "system \<Rightarrow> system" where
  "begin_close s = s\<lparr>broker := (broker s)\<lparr>b_closed := True\<rparr>,
     closing := closing s @ clients (broker s)\<rparr>"

text \<open>The steps of the handlers. \<^verbatim>\<open>deliver\<close> takes its snapshot of the clients in any order.\<close>

inductive hstep :: "system \<Rightarrow> system \<Rightarrow> bool" where
  connect: "phases s i = Some (Connecting sk) \<Longrightarrow> hstep s (handle_connect i sk s)"
| receive: "phases s i = Some Running \<Longrightarrow> heap (broker s) i = Some c \<Longrightarrow>
    hstep s (handle_receive i c s)"
| respond: "phases s i = Some (Replying ack msg) \<Longrightarrow> heap (broker s) i = Some c \<Longrightarrow>
    hstep s (handle_reply i ack msg c s)"
| snapshot: "phases s i = Some (Publishing p) \<Longrightarrow> distinct ts \<Longrightarrow> set ts = set (clients (broker s)) \<Longrightarrow>
    hstep s (set_phase i (Delivering p ts) s)"
| visit: "phases s i = Some (Delivering p (t # ts)) \<Longrightarrow> heap (broker s) t = Some c \<Longrightarrow>
    hstep s (handle_visit i p t ts c s)"
| send: "phases s i = Some (Sending p t out ts) \<Longrightarrow> heap (broker s) t = Some c \<Longrightarrow>
    hstep s (handle_send i p t out ts c s)"
| delivered: "phases s i = Some (Delivering p []) \<Longrightarrow> hstep s (set_phase i Running s)"

text \<open>All steps: of a handler, a new connection, and those of \<^verbatim>\<open>Close\<close>.\<close>

inductive bstep :: "system \<Rightarrow> system \<Rightarrow> bool" where
  handler: "hstep s s' \<Longrightarrow> bstep s s'"
| accept: "phases s i = None \<Longrightarrow> heap (broker s) i = None \<Longrightarrow> packets sk = [] \<Longrightarrow>
    bstep s (set_phase i (Connecting sk) s)"
| close: "bstep s (begin_close s)"
| close_one: "i \<in> set (closing s) \<Longrightarrow>
    bstep s (s\<lparr>broker := close_client i (broker s), closing := remove1 i (closing s)\<rparr>)"

inductive reachable :: "system \<Rightarrow> bool" where
  init: "reachable init_system"
| step: "reachable s \<Longrightarrow> bstep s s' \<Longrightarrow> reachable s'"

section \<open>What is true of a client\<close>

text \<open>A packet worth sending: the codec can encode it and its own validation accepts it.\<close>

definition sent_ok :: "ControlPacket \<Rightarrow> bool" where
  "sent_ok cp \<longleftrightarrow> sendable maxPacketSize cp \<and> (case cp of
      PublishP p \<Rightarrow> PublishPacket_Validate p = None
    | SubackP p \<Rightarrow> SubackPacket_Validate p = None
    | _ \<Rightarrow> True)"

definition message_ok :: "PublishPacket \<Rightarrow> bool" where
  "message_ok p \<longleftrightarrow> PublishPacket_Validate p = None \<and> Qos (pub_FixedHeader p) \<le> 2 \<and>
     int (length (publish_content p)) \<le> maxPacketSize"

definition connack_accepted :: ControlPacket where
  "connack_accepted = ConnackP ((new_ConnackPacket (zeroHeader Connack 0))\<lparr>ReturnCode := Accepted\<rparr>)"

definition client_inv :: "client \<Rightarrow> bool" where
  "client_inv c \<longleftrightarrow>
     distinct (map fst (subs c)) \<and>
     (\<forall>(f, g) \<in> set (subs c). ValidatePattern f = None \<and> g \<le> 2) \<and>
     (\<forall>i p. inbound2 c i = Some p \<longrightarrow> qos2_message i p \<and> i \<noteq> 0 \<and> message_ok p) \<and>
     0 \<notin> outbound2 c \<and>
     (\<exists>ps. packets (c_sock c) = connack_accepted # ps \<and> (\<forall>cp \<in> set ps. sent_ok cp))"

lemma clampLimit_maxPacketSize [simp]: "clampLimit maxPacketSize = maxPacketSize"
  by (simp add: clampLimit_def maxPacketSize_def MaxRemainingLength_def)

lemma client_inv_Send:
  assumes "client_inv c" and "sent_ok cp"
  shows "client_inv (c\<lparr>c_sock := snd (Send (c_sock c) cp)\<rparr>)"
  using assms by (auto simp: client_inv_def Send_packets)

lemma client_inv_sock:
  "client_inv c \<Longrightarrow> packets s = packets (c_sock c) \<Longrightarrow> client_inv (c\<lparr>c_sock := s\<rparr>)"
  by (simp add: client_inv_def)

text \<open>The acknowledgements are all worth sending.\<close>

lemmas sendable_defs = sendable_def control_wf_def header_ok_def zeroHeader_def maxPacketSize_def
  clampLimit_def MaxRemainingLength_def

lemma acks_ok [simp]:
  "sent_ok (PingrespP \<lparr>pingresp_FixedHeader = zeroHeader Pingresp 0\<rparr>)"
  "sent_ok (PubackP ((new_PubackPacket (zeroHeader Puback 0))\<lparr>puback_MessageID := i\<rparr>))"
  "sent_ok (PubrecP ((new_PubrecPacket (zeroHeader Pubrec 0))\<lparr>pubrec_MessageID := i\<rparr>))"
  "sent_ok (PubrelP ((new_PubrelPacket (zeroHeader Pubrel 1))\<lparr>pubrel_MessageID := i\<rparr>))"
  "sent_ok (PubcompP ((new_PubcompPacket (zeroHeader Pubcomp 0))\<lparr>pubcomp_MessageID := i\<rparr>))"
  "sent_ok (UnsubackP ((new_UnsubackPacket (zeroHeader Unsuback 0))\<lparr>unsuback_MessageID := i\<rparr>))"
  by (simp_all add: sent_ok_def sendable_defs new_PubackPacket_def new_PubrecPacket_def
      new_PubrelPacket_def new_PubcompPacket_def new_UnsubackPacket_def)

lemma connack_sendable: "sendable maxPacketSize connack_accepted"
  by (simp add: connack_accepted_def sendable_defs new_ConnackPacket_def connack_content_def)

lemma suback_ok:
  assumes "codes \<noteq> []" and "\<forall>q \<in> set codes. q \<le> 2" and "int (length codes) + 2 \<le> maxPacketSize"
  shows "sent_ok (SubackP ((new_SubackPacket (zeroHeader Suback 0))
    \<lparr>suback_MessageID := i, ReturnCodes := codes\<rparr>))"
proof -
  have "validate_codes codes = None"
    unfolding validate_codes_None
  proof
    fix q assume "q \<in> set codes"
    with assms(2) have "unat q \<le> 2" by (auto simp: word_le_nat_alt)
    then have "unat q = 0 \<or> unat q = 1 \<or> unat q = 2" by arith
    then show "q \<in> {0, 1, 2, 0x80}" by (auto simp: word_unat_eq_iff)
  qed
  with assms(1,3) show ?thesis
    by (simp add: sent_ok_def sendable_def control_wf_def header_ok_def zeroHeader_def
        new_SubackPacket_def suback_content_def SubackPacket_Validate_def)
qed

lemma outgoing_ok:
  assumes "message_ok p" and "qos \<le> Qos (pub_FixedHeader p)" and "i = 0 \<longleftrightarrow> qos = 0"
  shows "sent_ok (PublishP (outgoing p qos i))"
proof -
  have topic: "ValidateTopic (TopicName p) = None"
    using assms(1) by (auto simp: message_ok_def PublishPacket_Validate_def split: if_splits)
  have "length (publish_content (outgoing p qos i)) \<le> length (publish_content p)"
    using assms(2) by (auto simp: publish_content_def zeroHeader_def)
  then have "int (length (publish_content (outgoing p qos i))) \<le> maxPacketSize"
    using assms(1) by (simp add: message_ok_def)
  moreover have "qos \<le> 2"
    using assms(1,2) by (auto simp: message_ok_def)
  moreover have "publish_wf (outgoing p qos i)"
    using ValidateTopic_length [OF topic] assms(3)
    by (auto simp: publish_wf_def zeroHeader_def word_gt_0)
  ultimately show ?thesis
    using outgoing_valid [OF topic, of qos i] assms(3)
    by (simp add: sent_ok_def sendable_def control_wf_def header_ok_def zeroHeader_def word_gt_0)
qed

section \<open>The operations keep a client in order\<close>

lemma deliver_locked_inv:
  assumes "client_inv c" and "message_ok p" and "deliver_locked p c = (out, c')"
  shows "client_inv c'" and "out = Some q \<Longrightarrow> sent_ok (PublishP q)" and "c_sock c' = c_sock c"
proof -
  have "sent_ok (PublishP (delivery p c))"
    unfolding delivery_def
    by (rule outgoing_ok [OF assms(2)]) (auto simp: granted_qos_def word_gt_0 min_def split: if_splits)
  then show "out = Some q \<Longrightarrow> sent_ok (PublishP q)"
    using assms(3) by (auto simp: deliver_locked_eq split: if_splits)
  have c': "c' = (if matching p (subs c) = {} \<or> granted_qos p c = 0 then c
      else snd (allocate (granted_qos p c) c))"
    using assms(3) by (auto simp: deliver_locked_eq word_gt_0 split: if_splits)
  show "client_inv c'"
    using assms(1) unfolding c' by (simp add: client_inv_def allocate_eq)
  show "c_sock c' = c_sock c"
    unfolding c' by (simp add: allocate_eq)
qed

text \<open>What a handler knows of a packet it received.\<close>

definition received_ok :: "ControlPacket \<Rightarrow> bool" where
  "received_ok cp \<longleftrightarrow> header_ok (fixedHeader cp) \<and>
     (reencodable cp \<longrightarrow> control_wf cp \<and> int (length (control_content cp)) \<le> maxPacketSize)"

lemma recv_received_ok:
  assumes "recv s = (Inr cp, s')"
  shows "received_ok cp"
proof -
  from assms obtain r where "ReadPacketLimit maxPacketSize (input s) = (Inr cp, r)"
    by (auto simp: recv_def split: if_splits prod.splits)
  then show ?thesis
    by (rule ReadPacketLimit_Inr) (auto simp: received_ok_def)
qed

lemma recv_simps:
  assumes "recv s = (m, s')"
  shows "packets s' = packets s" and "sockClosed s' = sockClosed s"
  using assms by (auto simp: recv_def split: if_splits prod.splits)

text \<open>What a handler may go on with: a reply worth sending, a message worth delivering.\<close>

definition outcome_ok :: "outcome \<Rightarrow> bool" where
  "outcome_ok res \<longleftrightarrow> (\<forall>ack msg. res = Inr (ack, msg) \<longrightarrow>
     (\<forall>cp. ack = Some cp \<longrightarrow> sent_ok cp) \<and> (\<forall>q. msg = Some q \<longrightarrow> message_ok q))"

lemma outcome_ok_simps [simp]:
  "outcome_ok (Inl err)"
  "outcome_ok (Inr (ack, msg)) \<longleftrightarrow>
     (\<forall>cp. ack = Some cp \<longrightarrow> sent_ok cp) \<and> (\<forall>q. msg = Some q \<longrightarrow> message_ok q)"
  by (simp_all add: outcome_ok_def)

lemma dispatch_publish_inv:
  assumes "client_inv c" and "received_ok (PublishP p)" and "dispatch_publish c p = (res, c')"
  shows "client_inv c' \<and> outcome_ok res"
proof (cases "PublishPacket_Validate p")
  case None
  have ok: "message_ok p"
    using assms(2) None header_ok_qos [of "pub_FixedHeader p"]
    by (simp add: received_ok_def message_ok_def control_wf_def)
  have "client_inv (c\<lparr>inbound2 := (inbound2 c)(pub_MessageID p \<mapsto> p)\<rparr>)"
    if "Qos (pub_FixedHeader p) = 2"
  proof -
    have "pub_MessageID p \<noteq> 0"
      using None that by (auto simp: PublishPacket_Validate_def split: if_splits)
    then show ?thesis using assms(1) ok that by (auto simp: client_inv_def qos2_message_def)
  qed
  then show ?thesis
    using assms(1,3) None ok by (auto simp: dispatch_publish_def Let_def split: if_splits)
qed (use assms in \<open>auto simp: dispatch_publish_def\<close>)

lemma length_subscriptions_bytes:
  "length ts = length qs \<Longrightarrow> length qs \<le> length (subscriptions_bytes ts qs)"
  by (induction ts qs rule: list_induct2) auto

lemma dispatch_subscribe_inv:
  assumes "client_inv c" and "received_ok (SubscribeP p)" and "dispatch_subscribe c p = (res, c')"
  shows "client_inv c' \<and> outcome_ok res"
proof (cases "SubscribePacket_Validate p")
  case None
  note v = None [unfolded SubscribePacket_Validate_None]
  obtain sb codes where loop: "subscribe_loop (sub_Topics p) (Qoss p) (subs c, []) = (sb, codes)"
    by (cases "subscribe_loop (sub_Topics p) (Qoss p) (subs c, [])")
  have codes: "codes = Qoss p"
    using subscribe_loop_eq [of "sub_Topics p" "Qoss p" "subs c" "[]"] loop v by simp
  have "int (length codes) + 2 \<le> maxPacketSize"
    using assms(2) v length_subscriptions_bytes [of "sub_Topics p" "Qoss p"]
    by (simp add: received_ok_def subscribe_content_def codes)
  then have "sent_ok (SubackP ((new_SubackPacket (zeroHeader Suback 0))
      \<lparr>suback_MessageID := sub_MessageID p, ReturnCodes := codes\<rparr>))"
    using v by (intro suback_ok) (auto simp: codes)
  moreover have "client_inv (c\<lparr>subs := sb\<rparr>)"
  proof -
    have "set sb \<subseteq> set (subs c) \<union> set (zip (sub_Topics p) (Qoss p))"
      using set_subscribe_loop [of "sub_Topics p" "Qoss p" "subs c" "[]"] loop by simp
    moreover have "distinct (map fst sb)"
      using distinct_subscribe_loop [of "subs c" "sub_Topics p" "Qoss p" "[]"] loop assms(1)
      by (simp add: client_inv_def)
    ultimately show ?thesis
      using assms(1) v by (fastforce simp: client_inv_def dest: set_zip_leftD set_zip_rightD)
  qed
  ultimately show ?thesis
    using assms(3) None loop by (auto simp: dispatch_subscribe_def)
qed (use assms in \<open>auto simp: dispatch_subscribe_def\<close>)

lemma dispatch_locked_inv:
  assumes "client_inv c" and "received_ok pkt" and "dispatch_locked c pkt = (res, c')"
  shows "client_inv c' \<and> outcome_ok res"
proof (cases pkt)
  case (PublishP p)
  then show ?thesis using dispatch_publish_inv assms by (simp add: dispatch_locked_def)
next
  case (SubscribeP p)
  then show ?thesis using dispatch_subscribe_inv assms by (simp add: dispatch_locked_def)
next
  case (UnsubscribeP p)
  have "client_inv (c\<lparr>subs := unsubscribe_loop (unsub_Topics p) (subs c)\<rparr>)"
    using assms(1) set_unsubscribe_loop distinct_unsubscribe_loop by (fastforce simp: client_inv_def)
  then show ?thesis
    using assms UnsubscribeP
    by (auto simp: dispatch_locked_def dispatch_unsubscribe_def split: option.splits)
next
  case (PubrelP p)
  have "client_inv (c\<lparr>inbound2 := (inbound2 c)(pubrel_MessageID p := None)\<rparr>)"
    using assms(1) by (simp add: client_inv_def)
  moreover have "message_ok q" if "inbound2 c (pubrel_MessageID p) = Some q" for q
    using assms(1) that unfolding client_inv_def by blast
  ultimately show ?thesis
    using assms(3) PubrelP by (auto simp: dispatch_locked_def dispatch_pubrel_def Let_def)
next
  case (PubrecP p)
  have "client_inv (c\<lparr>outbound2 := outbound2 c - {pubrec_MessageID p}\<rparr>)"
    using assms(1) by (simp add: client_inv_def)
  then show ?thesis
    using assms(3) PubrecP by (auto simp: dispatch_locked_def dispatch_pubrec_def)
qed (use assms in \<open>auto simp: dispatch_locked_def\<close>)

lemma handshake_inv:
  assumes "packets sk = []" and "handshake sk = (Some c, sk')"
  shows "client_inv c" and "c_sock c = sk'"
proof -
  show "client_inv c"
    using assms
    by (auto simp: handshake_def Let_def SetTimeOut_def client_inv_def new_client_def
        connack_accepted_def Send_def
        split: prod.splits sum.splits ControlPacket.splits if_splits option.splits list.splits
        dest: recv_simps)
  show "c_sock c = sk'"
    using assms
    by (auto simp: handshake_def Let_def new_client_def
        split: prod.splits sum.splits ControlPacket.splits if_splits)
qed

section \<open>The invariant of the system\<close>

fun active :: "phase \<Rightarrow> bool" where
  "active (Connecting sk) = False"
| "active Finished = False"
| "active _ = True"

fun phase_ok :: "phase \<Rightarrow> bool" where
  "phase_ok (Connecting sk) \<longleftrightarrow> packets sk = []"
| "phase_ok (Replying ack msg) \<longleftrightarrow> sent_ok ack \<and> (\<forall>p. msg = Some p \<longrightarrow> message_ok p)"
| "phase_ok (Publishing p) \<longleftrightarrow> message_ok p"
| "phase_ok (Delivering p ts) \<longleftrightarrow> message_ok p"
| "phase_ok (Sending p t out ts) \<longleftrightarrow> message_ok p \<and> sent_ok (PublishP out)"
| "phase_ok _ \<longleftrightarrow> True"

text \<open>The clients a handler still holds pointers to.\<close>

fun targets :: "phase \<Rightarrow> cid set" where
  "targets (Delivering p ts) = set ts"
| "targets (Sending p t out ts) = insert t (set ts)"
| "targets _ = {}"

definition heap_inv :: "system \<Rightarrow> bool" where
  "heap_inv s \<longleftrightarrow> (\<forall>i c. heap (broker s) i = Some c \<longrightarrow> client_inv c)"

definition phases_inv :: "system \<Rightarrow> bool" where
  "phases_inv s \<longleftrightarrow> finite (dom (phases s)) \<and>
     (\<forall>i ph. phases s i = Some ph \<longrightarrow> phase_ok ph \<and> targets ph \<subseteq> dom (heap (broker s)))"

text \<open>Registered are exactly the connections whose handler is past the handshake.\<close>

definition registered_inv :: "system \<Rightarrow> bool" where
  "registered_inv s \<longleftrightarrow>
     distinct (clients (broker s)) \<and> set (clients (broker s)) \<subseteq> dom (heap (broker s)) \<and>
     (\<forall>i. i \<in> set (clients (broker s)) \<longleftrightarrow> (\<exists>ph. phases s i = Some ph \<and> active ph))"

text \<open>
  Once the broker is closed, a registered client has a closed socket, or its socket is still to
  be closed by the call of \<^verbatim>\<open>Close\<close>.
\<close>

definition closed_inv :: "system \<Rightarrow> bool" where
  "closed_inv s \<longleftrightarrow> (b_closed (broker s) \<longrightarrow>
     (\<forall>i c. i \<in> set (clients (broker s)) \<and> heap (broker s) i = Some c \<longrightarrow>
        sockClosed (c_sock c) \<or> i \<in> set (closing s)))"

definition system_inv :: "system \<Rightarrow> bool" where
  "system_inv s \<longleftrightarrow> heap_inv s \<and> phases_inv s \<and> registered_inv s \<and> closed_inv s"

lemmas system_inv_defs = system_inv_def heap_inv_def phases_inv_def registered_inv_def closed_inv_def

lemma system_inv_phase:
  "system_inv s \<Longrightarrow> phases s i = Some ph \<Longrightarrow> phase_ok ph \<and> targets ph \<subseteq> dom (heap (broker s))"
  by (simp add: system_inv_def phases_inv_def)

lemma system_inv_client: "system_inv s \<Longrightarrow> heap (broker s) i = Some c \<Longrightarrow> client_inv c"
  by (simp add: system_inv_def heap_inv_def)

lemma system_inv_registered:
  "system_inv s \<Longrightarrow> phases s i = Some ph \<Longrightarrow> active ph \<Longrightarrow> i \<in> set (clients (broker s))"
  by (auto simp: system_inv_def registered_inv_def)

lemma system_inv_init: "system_inv init_system"
  by (simp add: system_inv_defs init_system_def NewBroker_def)

lemma set_simps [simp]:
  "phases (set_client i c s) = phases s" "closing (set_client i c s) = closing s"
  "heap (broker (set_client i c s)) = (heap (broker s))(i \<mapsto> c)"
  "clients (broker (set_client i c s)) = clients (broker s)"
  "b_closed (broker (set_client i c s)) = b_closed (broker s)"
  "phases (set_phase i ph s) = (phases s)(i \<mapsto> ph)"
  "broker (set_phase i ph s) = broker s" "closing (set_phase i ph s) = closing s"
  by (simp_all add: set_client_def set_phase_def)

text \<open>The pointers held by the handlers stay valid as long as no client leaves the heap.\<close>

lemma phases_inv_same:
  "phases_inv s \<Longrightarrow> phases s' = phases s \<Longrightarrow> dom (heap (broker s')) = dom (heap (broker s)) \<Longrightarrow>
    phases_inv s'"
  by (simp add: phases_inv_def)

lemma phases_inv_upd:
  assumes "phases_inv s" and "phases s' = (phases s)(i \<mapsto> ph)"
    and "dom (heap (broker s)) \<subseteq> dom (heap (broker s'))"
    and "phase_ok ph" and "targets ph \<subseteq> dom (heap (broker s'))"
  shows "phases_inv s'"
  using assms unfolding phases_inv_def by (metis dom_fun_upd finite_insert fun_upd_apply option.distinct(1)
      option.inject subset_trans)

lemmas client_inv_defs = heap_inv_def registered_inv_def closed_inv_def

text \<open>A new phase for a connection, with the same standing as the old one.\<close>

lemma system_inv_set_phase:
  assumes "system_inv s" and "phase_ok ph" and "targets ph \<subseteq> dom (heap (broker s))"
    and "active ph \<longleftrightarrow> (\<exists>ph. phases s i = Some ph \<and> active ph)"
  shows "system_inv (set_phase i ph s)"
  using assms unfolding system_inv_defs by simp

text \<open>A new state of a client that does not reopen its socket.\<close>

lemma system_inv_set_client:
  assumes "system_inv s" and "heap (broker s) i = Some c" and "client_inv c'"
    and "sockClosed (c_sock c) \<longrightarrow> sockClosed (c_sock c')"
  shows "system_inv (set_client i c' s)"
proof -
  have "phases_inv (set_client i c' s)"
    using assms(1,2) by (auto simp: system_inv_def intro!: phases_inv_same [of s] split: if_splits)
  moreover have "closed_inv (set_client i c' s)"
    using assms(1,2,4) by (simp add: system_inv_def closed_inv_def) blast
  ultimately show ?thesis
    using assms(1-3) unfolding system_inv_def heap_inv_def registered_inv_def by auto
qed

text \<open>Both at once, as in most steps: a client changes, and a handler goes on.\<close>

lemma system_inv_update:
  assumes "system_inv s" and "phases s i = Some ph" and "active ph" and "active ph'"
    and "heap (broker s) j = Some c" and "client_inv c'"
    and "sockClosed (c_sock c) \<longrightarrow> sockClosed (c_sock c')"
    and "phase_ok ph'" and "targets ph' \<subseteq> dom (heap (broker s))"
  shows "system_inv (set_phase i ph' (set_client j c' s))"
  using assms by (intro system_inv_set_phase system_inv_set_client) auto

lemma sockClosed_Close_sock [simp]: "sockClosed (Close_sock s)"
  by (simp add: Close_sock_def)

lemma client_inv_Close_sock: "client_inv c \<Longrightarrow> client_inv (c\<lparr>c_sock := Close_sock (c_sock c)\<rparr>)"
  by (simp add: client_inv_def Close_sock_def)

lemma system_inv_finish:
  assumes "system_inv s"
  shows "system_inv (finish i s)"
proof -
  have "phases_inv (finish i s)"
    using assms by (auto simp: system_inv_def finish_def unregister_def
        intro!: phases_inv_upd [of s _ i Finished])
  then show ?thesis
    using assms unfolding system_inv_def client_inv_defs finish_def unregister_def
    by (auto simp: client_inv_Close_sock distinct_removeAll split: if_splits)
qed

lemma system_inv_begin_close: "system_inv s \<Longrightarrow> system_inv (begin_close s)"
  by (auto simp: system_inv_defs begin_close_def)

lemma system_inv_close_one:
  assumes "system_inv s"
  shows "system_inv (s\<lparr>broker := close_client i (broker s), closing := remove1 i (closing s)\<rparr>)"
    (is "system_inv ?s")
proof -
  have "phases_inv ?s"
    using assms by (auto simp: system_inv_def close_client_def intro!: phases_inv_same [of s]
        split: if_splits)
  then show ?thesis
    using assms unfolding system_inv_def client_inv_defs close_client_def
    by (auto simp: client_inv_Close_sock in_set_remove1 split: if_splits)
qed

lemma system_inv_connect:
  assumes "system_inv s" and "phases s i = Some (Connecting sk)"
  shows "system_inv (handle_connect i sk s)"
proof -
  have out: "system_inv (set_phase i Finished s)"
    using assms by (intro system_inv_set_phase) auto
  have "system_inv (set_phase i Running (s\<lparr>broker := b\<rparr>))"
    if "handshake sk = (Some c, sk')" "register i c (broker s) = Some b" for c sk' b
  proof -
    have "packets sk = []" using system_inv_phase [OF assms] by simp
    note c = handshake_inv(1) [OF this that(1)]
    have "phases_inv (set_phase i Running (s\<lparr>broker := b\<rparr>))"
      using assms that(2) by (auto simp: system_inv_def register_def intro!: phases_inv_upd [of s]
          split: if_splits)
    moreover have "i \<notin> set (clients (broker s))"
      using assms by (auto simp: system_inv_def registered_inv_def)
    moreover have "\<not> b_closed (broker s)"
      "b = (broker s)\<lparr>clients := List.insert i (clients (broker s)), heap := (heap (broker s))(i \<mapsto> c)\<rparr>"
      using that(2) by (auto simp: register_def split: if_splits)
    ultimately show ?thesis
      using assms(1) c unfolding system_inv_def client_inv_defs
      by (simp add: distinct_insert in_set_insert dom_fun_upd subset_insertI2)
  qed
  with out show ?thesis
    by (auto simp: handle_connect_def split: prod.splits option.splits)
qed

lemma next_phase_simps [simp]:
  "active (next_phase msg)" "targets (next_phase msg) = {}"
  "phase_ok (next_phase msg) \<longleftrightarrow> (\<forall>p. msg = Some p \<longrightarrow> message_ok p)"
  by (simp_all add: next_phase_def split: option.split)

lemma system_inv_receive:
  assumes "system_inv s" and "phases s i = Some Running" and "heap (broker s) i = Some c"
  shows "system_inv (handle_receive i c s)"
proof -
  obtain m sk where recv: "recv (c_sock c) = (m, sk)" by (cases "recv (c_sock c)")
  let ?c = "c\<lparr>c_sock := sk\<rparr>"
  have c: "client_inv ?c"
    using system_inv_client [OF assms(1,3)] recv_simps(1) [OF recv] by (rule client_inv_sock)
  note closed = recv_simps(2) [OF recv]
  show ?thesis
  proof (cases m)
    case (Inl err)
    then show ?thesis
      using system_inv_finish [OF system_inv_set_client [OF assms(1,3) c]] closed recv
      by (simp add: handle_receive_def)
  next
    case (Inr pkt)
    obtain res c' where d: "dispatch_locked ?c pkt = (res, c')" by (cases "dispatch_locked ?c pkt")
    have "received_ok pkt" using recv_received_ok recv Inr by blast
    note c' = dispatch_locked_inv [OF c this d]
    have same: "sockClosed (c_sock c') = sockClosed (c_sock c)"
      using dispatch_locked_sock [of ?c pkt] d closed by simp
    have "system_inv (set_phase i ph (set_client i c' s))"
      if "active ph" "phase_ok ph" "targets ph = {}" for ph
      using that same c' by (intro system_inv_update [OF assms(1,2) _ _ assms(3)]) auto
    moreover have "system_inv (finish i (set_client i c' s))"
      using same c' by (intro system_inv_finish system_inv_set_client [OF assms(1,3)]) auto
    ultimately show ?thesis
      using c' by (auto simp: handle_receive_def recv Inr d split: sum.splits option.splits)
  qed
qed

lemma system_inv_reply:
  assumes "system_inv s" and "phases s i = Some (Replying ack msg)" and "heap (broker s) i = Some c"
  shows "system_inv (handle_reply i ack msg c s)"
proof -
  let ?c = "c\<lparr>c_sock := snd (Send (c_sock c) ack)\<rparr>"
  have ok: "sent_ok ack" "\<forall>p. msg = Some p \<longrightarrow> message_ok p"
    using system_inv_phase [OF assms(1,2)] by simp_all
  have c: "client_inv ?c"
    using system_inv_client [OF assms(1,3)] ok(1) by (rule client_inv_Send)
  have "system_inv (finish i (set_client i ?c s))"
    using c by (intro system_inv_finish system_inv_set_client [OF assms(1,3)]) auto
  moreover have "system_inv (set_phase i (next_phase msg) (set_client i ?c s))"
    using c ok(2) by (intro system_inv_update [OF assms(1,2) _ _ assms(3)]) auto
  ultimately show ?thesis
    by (auto simp: handle_reply_def reply_eq split: option.splits)
qed

lemma system_inv_visit:
  assumes "system_inv s" and "phases s i = Some (Delivering p (t # ts))"
    and "heap (broker s) t = Some c"
  shows "system_inv (handle_visit i p t ts c s)"
proof -
  obtain out c' where d: "deliver_locked p c = (out, c')" by (cases "deliver_locked p c")
  have ok: "message_ok p" "set ts \<subseteq> dom (heap (broker s))"
    using system_inv_phase [OF assms(1,2)] by simp_all
  note c' = deliver_locked_inv [OF system_inv_client [OF assms(1,3)] ok(1) d]
  have "system_inv (set_phase i ph (set_client t c' s))"
    if "active ph" "phase_ok ph" "targets ph \<subseteq> dom (heap (broker s))" for ph
    using that c' by (intro system_inv_update [OF assms(1,2) _ _ assms(3)]) auto
  note this [of "Delivering p ts"] this [of "Sending p t q ts" for q]
  moreover have "t \<in> dom (heap (broker s))" using assms(3) by blast
  ultimately show ?thesis
    using ok c'(2) by (simp add: handle_visit_def d split: option.split)
qed

lemma system_inv_send:
  assumes "system_inv s" and "phases s i = Some (Sending p t out ts)"
    and "heap (broker s) t = Some c"
  shows "system_inv (handle_send i p t out ts c s)"
proof -
  have "message_ok p" "sent_ok (PublishP out)" "set ts \<subseteq> dom (heap (broker s))"
    using system_inv_phase [OF assms(1,2)] by simp_all
  then show ?thesis
    unfolding handle_send_def
    using client_inv_Send [OF system_inv_client [OF assms(1,3)]]
    by (intro system_inv_update [OF assms(1,2) _ _ assms(3)]) auto
qed

lemma system_inv_hstep: "hstep s s' \<Longrightarrow> system_inv s \<Longrightarrow> system_inv s'"
proof (induction rule: hstep.induct)
  case (snapshot s i p ts)
  then show ?case
    using system_inv_phase [of s i "Publishing p"]
    by (intro system_inv_set_phase) (auto simp: system_inv_def registered_inv_def)
next
  case (delivered s i p)
  then show ?case by (intro system_inv_set_phase) auto
qed (auto intro: system_inv_connect system_inv_receive system_inv_reply system_inv_visit system_inv_send)

lemma system_inv_step: "bstep s s' \<Longrightarrow> system_inv s \<Longrightarrow> system_inv s'"
proof (induction rule: bstep.induct)
  case (accept s i sk)
  then show ?case by (intro system_inv_set_phase) auto
qed (auto intro: system_inv_hstep system_inv_begin_close system_inv_close_one)

lemma reachable_system_inv: "reachable s \<Longrightarrow> system_inv s"
  by (induction rule: reachable.induct) (auto intro: system_inv_init system_inv_step)

section \<open>Closing the broker\<close>

text \<open>
  How many steps a handler of a closed broker may still make, \<open>n\<close> being the number of
  registered clients: with its socket closed the next receive or reply makes it return, and a
  delivery in progress ends first.
\<close>

fun phase_measure :: "nat \<Rightarrow> phase \<Rightarrow> nat" where
  "phase_measure n Finished = 0"
| "phase_measure n (Publishing p) = 3 + 2 * n"
| "phase_measure n (Delivering p ts) = 2 + 2 * length ts"
| "phase_measure n (Sending p t out ts) = 3 + 2 * length ts"
| "phase_measure n _ = 1"

definition shutdown_measure :: "system \<Rightarrow> nat" where
  "shutdown_measure s =
     (\<Sum>i \<in> dom (phases s). phase_measure (length (clients (broker s))) (the (phases s i)))"

lemma phase_measure_mono: "m \<le> n \<Longrightarrow> phase_measure m ph \<le> phase_measure n ph"
  by (cases ph) simp_all

text \<open>A step changes the phase of one handler; the clients of a closed broker only get fewer.\<close>

definition progresses :: "system \<Rightarrow> system \<Rightarrow> bool" where
  "progresses s s' \<longleftrightarrow> b_closed (broker s') \<and> closing s' = closing s \<and>
     length (clients (broker s')) \<le> length (clients (broker s)) \<and>
     (\<exists>i ph ph'. phases s i = Some ph \<and> phases s' = (phases s)(i \<mapsto> ph') \<and>
        phase_measure (length (clients (broker s'))) ph' < phase_measure (length (clients (broker s))) ph)"

lemma progresses_measure:
  assumes "progresses s s'" and "finite (dom (phases s))"
  shows "shutdown_measure s' < shutdown_measure s"
proof -
  from assms(1) obtain i ph ph' where i: "phases s i = Some ph" "phases s' = (phases s)(i \<mapsto> ph')"
    and less: "phase_measure (length (clients (broker s'))) ph' <
      phase_measure (length (clients (broker s))) ph"
    and n: "length (clients (broker s')) \<le> length (clients (broker s))"
    by (auto simp: progresses_def)
  have "dom (phases s') = dom (phases s)" using i by auto
  moreover have "(\<Sum>j \<in> dom (phases s). phase_measure (length (clients (broker s'))) (the (phases s' j)))
      < (\<Sum>j \<in> dom (phases s). phase_measure (length (clients (broker s))) (the (phases s j)))"
  proof (rule sum_strict_mono_ex1 [OF assms(2)])
    show "\<forall>j \<in> dom (phases s). phase_measure (length (clients (broker s'))) (the (phases s' j))
        \<le> phase_measure (length (clients (broker s))) (the (phases s j))"
      using i less phase_measure_mono [OF n] by auto
    show "\<exists>j \<in> dom (phases s). phase_measure (length (clients (broker s'))) (the (phases s' j))
        < phase_measure (length (clients (broker s))) (the (phases s j))"
      using i less by (intro bexI [of _ i]) auto
  qed
  ultimately show ?thesis by (simp add: shutdown_measure_def)
qed

lemma progresses_set:
  assumes "b_closed (broker s)" and "phases s i = Some ph"
    and "phase_measure (length (clients (broker s))) ph' < phase_measure (length (clients (broker s))) ph"
  shows "progresses s (set_phase i ph' (set_client j c s))" and "progresses s (set_phase i ph' s)"
  unfolding progresses_def using assms by auto

lemma progresses_finish:
  assumes "b_closed (broker s)" and "phases s i = Some ph"
    and "0 < phase_measure (length (clients (broker s))) ph"
  shows "progresses s (finish i (set_client i c s))"
  using assms unfolding progresses_def finish_def unregister_def
  by simp (metis length_removeAll_less_eq phase_measure.simps(1))

lemma recv_closed: "sockClosed s \<Longrightarrow> recv s = (Inl ErrClosed, s)"
  by (simp add: recv_def)

lemma Send_closed: "sockClosed s \<Longrightarrow> Send s cp = (Some ErrClosed, s)"
  by (simp add: Send_def)

lemma closed_socket:
  assumes "system_inv s" and "b_closed (broker s)" and "closing s = []"
    and "phases s i = Some ph" and "active ph" and "heap (broker s) i = Some c"
  shows "sockClosed (c_sock c)"
  using system_inv_registered [OF assms(1,4,5)] assms by (auto simp: system_inv_def closed_inv_def)

lemma hstep_progresses:
  assumes "hstep s s'" and "system_inv s" and "b_closed (broker s)" and "closing s = []"
  shows "progresses s s'"
  using assms(1)
proof cases
  case (connect i sk)
  then have "s' = set_phase i Finished s"
    using assms(3) by (auto simp: handle_connect_def register_def split: prod.splits option.splits)
  then show ?thesis
    using progresses_set(2) [OF assms(3) connect(2), of Finished] by simp
next
  case (receive i c)
  then have "sockClosed (c_sock c)" using closed_socket assms(2-4) by simp
  then have "s' = finish i (set_client i (c\<lparr>c_sock := c_sock c\<rparr>) s)"
    using receive by (simp add: handle_receive_def recv_closed)
  then show ?thesis using progresses_finish [OF assms(3) receive(2)] by simp
next
  case (respond i ack msg c)
  then have "sockClosed (c_sock c)" using closed_socket assms(2-4) by simp
  then have "s' = finish i (set_client i (c\<lparr>c_sock := c_sock c\<rparr>) s)"
    using respond by (simp add: handle_reply_def reply_def Send_closed)
  then show ?thesis using progresses_finish [OF assms(3) respond(2)] by simp
next
  case (snapshot i p ts)
  have "length ts = length (clients (broker s))"
    using snapshot(3,4) assms(2) distinct_card
    by (metis system_inv_def registered_inv_def)
  then show ?thesis using snapshot progresses_set(2) [OF assms(3)] by simp
next
  case (visit i p t ts c)
  then show ?thesis
    using progresses_set(1) [OF assms(3) visit(2)]
    by (auto simp: handle_visit_def split: prod.split option.split)
next
  case (send i p t out ts c)
  then show ?thesis
    using progresses_set(1) [OF assms(3) send(2)] by (simp add: handle_send_def)
next
  case (delivered i p)
  then show ?thesis using progresses_set(2) [OF assms(3)] by simp
qed

text \<open>A handler that has not returned is never stuck.\<close>

lemma hstep_enabled:
  assumes "system_inv s" and "phases s i = Some ph" and "ph \<noteq> Finished"
  shows "\<exists>s'. hstep s s'"
proof -
  have own: "\<exists>c. heap (broker s) i = Some c" if "active ph"
    using system_inv_registered [OF assms(1,2) that] assms(1)
    by (auto simp: system_inv_def registered_inv_def)
  show ?thesis
  proof (cases ph)
    case (Delivering p ts)
    with assms show ?thesis
      using system_inv_phase [OF assms(1,2)] by (cases ts) (auto intro: hstep.delivered hstep.visit)
  next
    case (Sending p t out ts)
    with assms show ?thesis
      using system_inv_phase [OF assms(1,2)] by (auto intro: hstep.send)
  next
    case (Publishing p)
    with assms show ?thesis
      by (metis hstep.snapshot system_inv_def registered_inv_def)
  qed (use own assms in \<open>auto intro: hstep.connect hstep.receive hstep.respond\<close>)
qed

lemma hstep_run:
  assumes "(hstep ^^ k) s s'" and "system_inv s" and "b_closed (broker s)" and "closing s = []"
  shows "system_inv s' \<and> b_closed (broker s') \<and> closing s' = [] \<and>
    k + shutdown_measure s' \<le> shutdown_measure s"
  using assms(1)
proof (induction k arbitrary: s')
  case (Suc k)
  then obtain s1 where s1: "(hstep ^^ k) s s1" "hstep s1 s'" by auto
  note IH = Suc.IH [OF s1(1)]
  then have p: "progresses s1 s'" using hstep_progresses [OF s1(2)] by simp
  moreover have "shutdown_measure s' < shutdown_measure s1"
    using IH by (intro progresses_measure [OF p]) (auto simp: system_inv_def phases_inv_def)
  ultimately show ?case
    using IH system_inv_hstep [OF s1(2)] by (auto simp: progresses_def)
qed (use assms in simp)

section \<open>Properties\<close>

text \<open>
  C14: the invariant of the running broker. However the handlers interleave, in every reachable
  state every client has one grant of at most 2 per filter, all of them valid filters, holds for
  release only valid quality 2 messages under their own, non-zero identifiers, and has been sent
  an accepting CONNACK first and after it only packets that are valid and that the codec can
  encode.
\<close>

theorem reachable_clients:
  assumes "reachable s" and "heap (broker s) i = Some c"
  shows "distinct (map fst (subs c)) \<and>
    (\<forall>(f, g) \<in> set (subs c). ValidatePattern f = None \<and> g \<le> 2) \<and>
    (\<forall>j p. inbound2 c j = Some p \<longrightarrow>
      j \<noteq> 0 \<and> pub_MessageID p = j \<and> Qos (pub_FixedHeader p) = 2 \<and> PublishPacket_Validate p = None) \<and>
    0 \<notin> outbound2 c \<and>
    (\<exists>ps. packets (c_sock c) = connack_accepted # ps \<and> (\<forall>cp \<in> set ps. sent_ok cp))"
proof -
  have "client_inv c"
    using reachable_system_inv [OF assms(1)] assms(2) by (simp add: system_inv_def heap_inv_def)
  then show ?thesis
    unfolding client_inv_def qos2_message_def message_ok_def by blast
qed

text \<open>
  A run for the witnesses: one client connects; it has a message of quality 2 and its release
  to send after the CONNECT.
\<close>

definition sample_connect :: ControlPacket where
  "sample_connect = ConnectP ((new_ConnectPacket (zeroHeader Connect 0))
     \<lparr>ProtocolName := lit ''MQTT'', ProtocolVersion := 4, CleanSession := True\<rparr>)"

definition sample_publish2 :: ControlPacket where
  "sample_publish2 = PublishP (sample_message 2)"

definition sample_release :: ControlPacket where
  "sample_release = PubrelP \<lparr>pubrel_FixedHeader = zeroHeader Pubrel 1, pubrel_MessageID = 7\<rparr>"

definition sample_sock :: sock where
  "sample_sock = \<lparr>input = buffer (encode sample_connect @ encode sample_publish2 @ encode sample_release), packets = [], outcomes = [],
     sockTimeout = 0, sockClosed = False\<rparr>"

definition sample_sock_after :: sock where
  "sample_sock_after = \<lparr>input = buffer (encode sample_publish2 @ encode sample_release),
     packets = [connack_accepted], outcomes = [],
     sockTimeout = 0, sockClosed = False\<rparr>"

lemma sample_connect_sendable: "sendable maxPacketSize sample_connect"
  by (simp add: sendable_def sample_connect_def control_wf_def connect_wf_def new_ConnectPacket_def
      header_ok_def zeroHeader_def connect_content_def lit_def maxPacketSize_def clampLimit_def
      MaxRemainingLength_def)

lemma sample_handshake:
  "handshake sample_sock = (Some (new_client sample_sock_after []), sample_sock_after)"
proof -
  have "ReadPacketLimit maxPacketSize (buffer (encode sample_connect @ rest)) =
      (Inr (as_received sample_connect), buffer rest)" for rest
    using ReadPacketLimit_frame [of sample_connect maxPacketSize] sample_connect_sendable
    by (simp add: sendable_def encode_def)
  then show ?thesis
    by (simp add: handshake_def sample_sock_def recv_def SetTimeOut_def as_received_def
        sample_connect_def Send_def new_ConnectPacket_def ConnectPacket_Validate_def
        ValidUTF8String_def lit_def Let_def sample_sock_after_def connack_accepted_def)
qed

definition sample_system :: system where
  "sample_system = handle_connect 0 sample_sock (set_phase 0 (Connecting sample_sock) init_system)"

lemma sample_reachable: "reachable sample_system"
proof -
  have "reachable (set_phase 0 (Connecting sample_sock) init_system)"
    by (rule reachable.step [OF reachable.init bstep.accept])
      (simp_all add: init_system_def NewBroker_def sample_sock_def)
  then show ?thesis
    unfolding sample_system_def
    by (rule reachable.step) (rule bstep.handler [OF hstep.connect], simp)
qed

lemma sample_system_client:
  "heap (broker sample_system) 0 = Some (new_client sample_sock_after [])"
  "phases sample_system = [0 \<mapsto> Running]" "clients (broker sample_system) = [0]"
  "closing sample_system = []"
  using sample_handshake
  by (simp_all add: sample_system_def handle_connect_def register_def set_phase_def init_system_def
      NewBroker_def)

theorem reachable_clients_witness:
  "\<exists>ps. packets sample_sock_after = connack_accepted # ps"
  using reachable_clients [OF sample_reachable sample_system_client(1)]
  by (auto simp: new_client_def)

text \<open>
  C21: closing. After \<^verbatim>\<open>Close\<close> has closed the sockets of its clients, the handlers can make
  only so many steps, however they interleave, before they come to rest; and at rest every
  handler has returned and no client is registered. In particular no handler is ever stuck.
\<close>

theorem closed_broker_drains:
  assumes "reachable s" and "b_closed (broker s)" and "closing s = []" and "(hstep ^^ k) s s'"
  shows "k \<le> shutdown_measure s \<and>
    ((\<forall>s''. \<not> hstep s' s'') \<longrightarrow>
       clients (broker s') = [] \<and> (\<forall>i ph. phases s' i = Some ph \<longrightarrow> ph = Finished))"
proof -
  note run = hstep_run [OF assms(4) reachable_system_inv [OF assms(1)] assms(2,3)]
  have "phases s' i = Some ph \<Longrightarrow> ph = Finished" if "\<forall>s''. \<not> hstep s' s''" for i ph
    using hstep_enabled [of s' i ph] run that by blast
  moreover have "clients (broker s') = []" if "\<And>i ph. phases s' i = Some ph \<Longrightarrow> ph = Finished"
  proof -
    have "i \<notin> set (clients (broker s'))" for i
      using run that by (fastforce simp: system_inv_def registered_inv_def)
    then show ?thesis by (metis list.set_intros(1) neq_Nil_conv)
  qed
  ultimately show ?thesis using run by simp
qed

theorem closed_broker_drains_witness:
  "let s = (begin_close sample_system)\<lparr>broker := close_client 0 (broker (begin_close sample_system)),
       closing := []\<rparr>
   in \<exists>s'. hstep s s' \<and> clients (broker s') = []"
proof -
  let ?b = "begin_close sample_system"
  let ?s = "?b\<lparr>broker := close_client 0 (broker ?b), closing := []\<rparr>"
  have closing: "closing ?b = [0]"
    by (simp add: begin_close_def sample_system_client)
  have "reachable ?b" using reachable.step [OF sample_reachable bstep.close] .
  then have r: "reachable ?s"
    using reachable.step [OF _ bstep.close_one [of 0 ?b]] closing by simp
  have b: "b_closed (broker ?s)" by (simp add: close_client_def begin_close_def)
  have m: "shutdown_measure ?s = 1"
    by (simp add: shutdown_measure_def begin_close_def sample_system_client)
  obtain s' where s': "hstep ?s s'"
    using hstep_enabled [OF reachable_system_inv [OF r], of 0 Running]
    by (auto simp: begin_close_def sample_system_client)
  have "\<not> hstep s' s''" for s''
  proof
    assume "hstep s' s''"
    with s' have "(hstep ^^ 2) ?s s''" by (auto simp: numeral_2_eq_2)
    from closed_broker_drains [OF r b _ this] m show False by simp
  qed
  moreover have "(hstep ^^ 1) ?s s'" using s' by auto
  from closed_broker_drains [OF r b _ this] have
    "(\<forall>s''. \<not> hstep s' s'') \<longrightarrow> clients (broker s') = []" by simp
  ultimately show ?thesis
    using s' by (auto simp: Let_def)
qed

text \<open>
  C22: the handshake. A connection becomes a client only if its first packet is a CONNECT that
  validates as accepted and the CONNACK went out; then exactly that CONNACK was sent, and the
  receive timeout is one and a half times the keep alive interval, or none.
\<close>

theorem handshake_accepts:
  assumes "handshake sk = (Some c, sk')"
  shows "\<exists>connect sk1. recv (SetTimeOut (30 * second) sk) = (Inr (ConnectP connect), sk1) \<and>
    ConnectPacket_Validate connect = Accepted \<and>
    packets (c_sock c) = packets sk1 @ [connack_accepted] \<and>
    sockTimeout (c_sock c) = (if Keepalive connect > 0
      then int (unat (Keepalive connect)) * second * 3 div 2 else 0) \<and>
    c_id c = ClientIdentifier connect \<and> subs c = [] \<and> inbound2 c = Map.empty \<and> outbound2 c = {}"
proof -
  obtain m sk1 where r: "recv (SetTimeOut (30 * second) sk) = (m, sk1)"
    by (cases "recv (SetTimeOut (30 * second) sk)")
  with assms obtain connect where m: "m = Inr (ConnectP connect)"
    by (auto simp: handshake_def Let_def split: sum.splits ControlPacket.splits)
  let ?ack = "(new_ConnackPacket (zeroHeader Connack 0))\<lparr>ReturnCode := ConnectPacket_Validate connect\<rparr>"
  obtain err sk2 where s: "Send sk1 (ConnackP ?ack) = (err, sk2)"
    by (cases "Send sk1 (ConnackP ?ack)")
  have ok: "err = None" "ConnectPacket_Validate connect = Accepted"
    using assms r m s by (auto simp: handshake_def Let_def split: if_splits)
  have c: "c = new_client (if Keepalive connect > 0
      then SetTimeOut (int (unat (Keepalive connect)) * second * 3 div 2) sk2 else SetTimeOut 0 sk2)
      (ClientIdentifier connect)"
    using assms r m s ok by (auto simp: handshake_def Let_def)
  have "packets sk2 = packets sk1 @ [connack_accepted]"
    using Send_packets [of sk1 "ConnackP ?ack"] s ok by (simp add: connack_accepted_def)
  with r m ok c show ?thesis
    by (auto simp: new_client_def SetTimeOut_def)
qed

theorem handshake_accepts_witness:
  "\<exists>connect sk1. recv (SetTimeOut (30 * second) sample_sock) = (Inr (ConnectP connect), sk1) \<and>
    ConnectPacket_Validate connect = Accepted \<and>
    packets sample_sock_after = packets sk1 @ [connack_accepted]"
  using handshake_accepts [OF sample_handshake] by (auto simp: new_client_def)

text \<open>
  End to end. In every reachable state, whatever reader gets the bytes of the packets sent
  to a client, however they are cut into chunks, decodes them to exactly these packets, in
  order, with their actual remaining lengths.
\<close>

theorem client_decodes_broker:
  assumes "reachable s" and "heap (broker s) i = Some c"
    and "data r = concat (map encode (packets (c_sock c)))"
  shows "\<exists>r'. read_packets maxPacketSize (length (packets (c_sock c))) r =
    (Inr (map as_received (packets (c_sock c))), r') \<and> data r' = []"
proof -
  have "client_inv c"
    using reachable_system_inv [OF assms(1)] assms(2) by (simp add: system_inv_def heap_inv_def)
  then have "\<forall>cp \<in> set (packets (c_sock c)). sendable maxPacketSize cp"
    using connack_sendable by (auto simp: client_inv_def sent_ok_def)
  from read_packets_stream [OF this, of r "[]"] assms(3) show ?thesis by auto
qed

theorem client_decodes_broker_witness:
  "\<exists>r'. read_packets maxPacketSize (length (packets sample_sock_after))
      (flat (concat (map encode (packets sample_sock_after))) EOF False) =
    (Inr (map as_received (packets sample_sock_after)), r') \<and> data r' = []"
  using client_decodes_broker [OF sample_reachable sample_system_client(1),
      of "flat (concat (map encode (packets sample_sock_after))) EOF False"]
  by (simp add: new_client_def)

end
