(* ===== verification/BrokerRuns.thy ===== *)
theory BrokerRuns
  imports BrokerSystem
begin

text \<open>
  Runs of the broker. The steps of \<open>BrokerSystem\<close> get labels that say what a handler received
  and what it handed to \<^verbatim>\<open>deliver\<close>, and the guarantees for quality 2 are shown for every run, with
  all handlers interleaving; and an undisturbed handler does in several steps what \<open>dispatch\<close> and
  \<open>deliver\<close> do in one.
\<close>

section \<open>Labelled steps\<close>

datatype event = Received cid ControlPacket | Handed cid PublishPacket | Silent

inductive lstep :: "event \<Rightarrow> system \<Rightarrow> system \<Rightarrow> bool" where
  received: "phases s i = Some Running \<Longrightarrow> heap (broker s) i = Some c \<Longrightarrow>
    recv (c_sock c) = (Inr pkt, sk) \<Longrightarrow> lstep (Received i pkt) s (handle_receive i c s)"
| lost: "phases s i = Some Running \<Longrightarrow> heap (broker s) i = Some c \<Longrightarrow>
    recv (c_sock c) = (Inl err, sk) \<Longrightarrow> lstep Silent s (handle_receive i c s)"
| handed: "phases s i = Some (Publishing p) \<Longrightarrow> distinct ts \<Longrightarrow> set ts = set (clients (broker s)) \<Longrightarrow>
    lstep (Handed i p) s (set_phase i (Delivering p ts) s)"
| connect: "phases s i = Some (Connecting sk) \<Longrightarrow> lstep Silent s (handle_connect i sk s)"
| respond: "phases s i = Some (Replying ack msg) \<Longrightarrow> heap (broker s) i = Some c \<Longrightarrow>
    lstep Silent s (handle_reply i ack msg c s)"
| visit: "phases s i = Some (Delivering p (t # ts)) \<Longrightarrow> heap (broker s) t = Some c \<Longrightarrow>
    lstep Silent s (handle_visit i p t ts c s)"
| send: "phases s i = Some (Sending p t out ts) \<Longrightarrow> heap (broker s) t = Some c \<Longrightarrow>
    lstep Silent s (handle_send i p t out ts c s)"
| delivered: "phases s i = Some (Delivering p []) \<Longrightarrow> lstep Silent s (set_phase i Running s)"
| accept: "phases s i = None \<Longrightarrow> heap (broker s) i = None \<Longrightarrow> packets sk = [] \<Longrightarrow>
    lstep Silent s (set_phase i (Connecting sk) s)"
| close: "lstep Silent s (begin_close s)"
| close_one: "i \<in> set (closing s) \<Longrightarrow>
    lstep Silent s (s\<lparr>broker := close_client i (broker s), closing := remove1 i (closing s)\<rparr>)"

text \<open>The labels neither add nor remove steps.\<close>

lemma lstep_hstep:
  assumes "hstep s s'"
  shows "\<exists>e. lstep e s s'"
  using assms
proof cases
  case (receive i c)
  then show ?thesis
    by (cases "recv (c_sock c)"; cases "fst (recv (c_sock c))") (auto intro: lstep.received lstep.lost)
qed (auto intro: lstep.intros)

lemma bstep_lstep: "bstep s s' \<longleftrightarrow> (\<exists>e. lstep e s s')"
proof
  assume "bstep s s'"
  then show "\<exists>e. lstep e s s'"
    by cases (auto intro: lstep.accept lstep.close lstep.close_one lstep_hstep)
next
  assume "\<exists>e. lstep e s s'"
  then obtain e where "lstep e s s'" ..
  then show "bstep s s'"
    by cases (auto intro: bstep.intros hstep.intros)
qed

inductive run :: "system \<Rightarrow> event list \<Rightarrow> system \<Rightarrow> bool" where
  start: "run s [] s"
| step: "run s evs s' \<Longrightarrow> lstep e s' s'' \<Longrightarrow> run s (evs @ [e]) s''"

lemma reachable_run: "reachable s \<longleftrightarrow> (\<exists>evs. run init_system evs s)"
proof
  show "reachable s \<Longrightarrow> \<exists>evs. run init_system evs s"
    by (induction rule: reachable.induct) (auto simp: bstep_lstep intro: run.intros)
  have "run s0 evs s \<Longrightarrow> s0 = init_system \<Longrightarrow> reachable s" for s0 evs
    by (induction rule: run.induct) (use bstep_lstep in \<open>blast intro: reachable.intros\<close>)+
  then show "\<exists>evs. run init_system evs s \<Longrightarrow> reachable s" by blast
qed

fun received_by :: "cid \<Rightarrow> event \<Rightarrow> ControlPacket list" where
  "received_by i (Received j pkt) = (if i = j then [pkt] else [])"
| "received_by i _ = []"

fun handed_by :: "cid \<Rightarrow> event \<Rightarrow> PublishPacket list" where
  "handed_by i (Handed j p) = (if i = j then [p] else [])"
| "handed_by i _ = []"

abbreviation received_in :: "cid \<Rightarrow> event list \<Rightarrow> ControlPacket list" where
  "received_in i evs \<equiv> concat (map (received_by i) evs)"

abbreviation handed_in :: "cid \<Rightarrow> event list \<Rightarrow> PublishPacket list" where
  "handed_in i evs \<equiv> concat (map (handed_by i) evs)"

section \<open>What a run shows of one handler\<close>

text \<open>The message a handler is about to hand to \<^verbatim>\<open>deliver\<close>, and the messages its client holds.\<close>

fun pending :: "phase \<Rightarrow> PublishPacket list" where
  "pending (Replying ack (Some p)) = [p]"
| "pending (Publishing p) = [p]"
| "pending _ = []"

definition held :: "cid \<Rightarrow> system \<Rightarrow> (uint16 \<rightharpoonup> PublishPacket) option" where
  "held i s = map_option inbound2 (heap (broker s) i)"

lemma held_simps [simp]:
  "held i (set_phase j ph s) = held i s"
  "held i (set_client j c s) = (if i = j then Some (inbound2 c) else held i s)"
  "held i (finish j s) = held i s" "held i (begin_close s) = held i s"
  "held i (s\<lparr>broker := close_client j (broker s), closing := cl\<rparr>) = held i s"
  by (auto simp: held_def finish_def unregister_def begin_close_def close_client_def map_option.compositionality o_def)

lemma phases_finish [simp]: "phases (finish i s) = (phases s)(i \<mapsto> Finished)"
  by (simp add: finish_def)

lemma held_deliver_locked:
  "deliver_locked p c = (out, c') \<Longrightarrow> inbound2 c' = inbound2 c"
  by (auto simp: deliver_locked_def allocate_def Let_def split: prod.splits if_splits)

lemma pending_next_phase [simp]:
  "pending (next_phase msg) = (case msg of None \<Rightarrow> [] | Some p \<Rightarrow> [p])"
  "pending (Replying ack msg) = (case msg of None \<Rightarrow> [] | Some p \<Rightarrow> [p])"
  by (simp_all add: next_phase_def split: option.split)

text \<open>
  How far the handler of connection \<open>i\<close> is, for one packet identifier: nothing has happened, or
  it has handed over, or is about to, what the specified receiver delivers, and holds what the
  receiver holds; after its return what it handed over is a part of that from the start.
\<close>

definition tracks :: "uint16 \<Rightarrow> ControlPacket list \<Rightarrow> PublishPacket list \<Rightarrow> phase option \<Rightarrow>
    (uint16 \<rightharpoonup> PublishPacket) option \<Rightarrow> bool" where
  "tracks m pkts ps ph h = (case ph of
      None \<Rightarrow> pkts = [] \<and> ps = []
    | Some (Connecting sk) \<Rightarrow> pkts = [] \<and> ps = []
    | Some Finished \<Rightarrow> (\<exists>rest. fst (qos2_receiver None (filter (concerns m) pkts)) =
        filter (qos2_message m) ps @ rest)
    | Some ph \<Rightarrow> (\<exists>h'. h = Some h' \<and> qos2_receiver None (filter (concerns m) pkts) =
        (filter (qos2_message m) (ps @ pending ph), h' m)))"

lemma tracks_active:
  "active ph \<Longrightarrow> tracks m pkts ps (Some ph) h \<longleftrightarrow> (\<exists>h'. h = Some h' \<and>
     qos2_receiver None (filter (concerns m) pkts) = (filter (qos2_message m) (ps @ pending ph), h' m))"
  by (cases ph) (simp_all add: tracks_def)

lemma tracks_finished:
  assumes "tracks m pkts ps (Some ph) h"
  shows "tracks m (pkts @ pkts') ps (Some Finished) h'"
proof -
  obtain outs h1 where r: "qos2_receiver None (filter (concerns m) pkts) = (outs, h1)" by fastforce
  from assms obtain rest where "outs = filter (qos2_message m) ps @ rest"
    using r by (cases ph) (auto simp: tracks_def)
  then show ?thesis
    using r by (auto simp: tracks_def qos2_receiver_append split: prod.split)
qed


text \<open>The steps of a handler itself.\<close>

lemma tracks_receive:
  assumes "system_inv s" and "phases s i = Some Running" and "heap (broker s) i = Some c"
    and "recv (c_sock c) = (Inr pkt, sk)" and "tracks m pkts ps (phases s i) (held i s)"
  shows "tracks m (pkts @ [pkt]) ps (phases (handle_receive i c s) i) (held i (handle_receive i c s))"
proof -
  let ?c = "c\<lparr>c_sock := sk\<rparr>"
  obtain res c' where d: "dispatch_locked ?c pkt = (res, c')" by fastforce
  have ok: "inbound_ok ?c"
    using system_inv_client [OF assms(1,3)] by (auto simp: client_inv_def inbound_ok_def)
  have r: "qos2_receiver None (filter (concerns m) pkts) = (filter (qos2_message m) ps, inbound2 c m)"
    using assms(2,3,5) by (simp add: tracks_active held_def)
  have "tracks m (pkts @ [pkt]) ps (Some ph) (Some (inbound2 c'))"
    if "res = Inr (ack, msg)" "active ph" "pending ph = (case msg of None \<Rightarrow> [] | Some p \<Rightarrow> [p])"
    for ack msg ph
    using dispatch_locked_receiver [OF ok d [unfolded that(1)], of m] r that(2,3)
    by (simp add: tracks_active qos2_receiver_append)
  moreover have "tracks m (pkts @ [pkt]) ps (Some Finished) h" for h
    using assms(2,5) tracks_finished by metis
  ultimately show ?thesis
    using d by (auto simp: handle_receive_def assms(4) split: sum.split option.split)
qed

lemma tracks_reply:
  assumes "phases s i = Some (Replying ack msg)" and "heap (broker s) i = Some c"
    and "tracks m pkts ps (phases s i) (held i s)"
  shows "tracks m pkts ps (phases (handle_reply i ack msg c s) i) (held i (handle_reply i ack msg c s))"
proof -
  have "tracks m pkts ps (Some (next_phase msg)) (held i s)"
    using assms(1,3) by (simp add: tracks_active)
  moreover have "tracks m pkts ps (Some Finished) h" for h
    using assms(1,3) tracks_finished [of m pkts ps _ _ "[]"] by simp
  ultimately show ?thesis
    using assms(2) by (auto simp: handle_reply_def reply_eq held_def split: option.split)
qed

lemma tracks_connect:
  assumes "phases s i = Some (Connecting sk)" and "tracks m pkts ps (phases s i) (held i s)"
  shows "tracks m pkts ps (phases (handle_connect i sk s) i) (held i (handle_connect i sk s))"
proof -
  have "pkts = []" "ps = []" using assms by (simp_all add: tracks_def)
  moreover have "inbound2 c = Map.empty" if "handshake sk = (Some c, sk')" for c sk'
    using that by (auto simp: handshake_def Let_def new_client_def
        split: prod.splits sum.splits ControlPacket.splits if_splits)
  ultimately show ?thesis
    by (auto simp: handle_connect_def register_def tracks_def held_def split: prod.splits option.splits if_splits)
qed

text \<open>What one handler does shows nothing of another.\<close>

lemma other_receive:
  assumes "i \<noteq> j"
  shows "phases (handle_receive j c s) i = phases s i" and "held i (handle_receive j c s) = held i s"
  using assms by (auto simp: handle_receive_def Let_def split: prod.splits sum.splits option.splits)

lemma other_reply:
  assumes "i \<noteq> j"
  shows "phases (handle_reply j ack msg c s) i = phases s i" and "held i (handle_reply j ack msg c s) = held i s"
  using assms by (auto simp: handle_reply_def split: prod.splits sum.splits)

lemma other_connect:
  assumes "i \<noteq> j"
  shows "phases (handle_connect j sk s) i = phases s i" and "held i (handle_connect j sk s) = held i s"
  using assms
  by (auto simp: handle_connect_def register_def held_def split: prod.splits option.splits if_splits)

text \<open>A delivery changes nothing that its own or another handler tracks.\<close>

lemma held_visit:
  "heap (broker s) t = Some c \<Longrightarrow> held i (handle_visit j p t ts c s) = held i s"
  by (auto simp: handle_visit_def held_def held_deliver_locked split: prod.splits option.splits)

lemma held_send:
  "heap (broker s) t = Some c \<Longrightarrow> held i (handle_send j p t out ts c s) = held i s"
  by (auto simp: handle_send_def held_def)

lemma tracks_delivering:
  assumes "phases s j = Some ph" and "active ph" and "pending ph = []"
    and "phases s' = (phases s)(j \<mapsto> ph')" and "active ph'" and "pending ph' = []"
    and "held i s' = held i s" and "tracks m pkts ps (phases s i) (held i s)"
  shows "tracks m pkts ps (phases s' i) (held i s')"
  using assms by (cases "i = j") (auto simp: tracks_active)

lemma tracks_step:
  assumes "lstep e s s'" and "system_inv s" and "tracks m pkts ps (phases s i) (held i s)"
  shows "tracks m (pkts @ received_by i e) (ps @ handed_by i e) (phases s' i) (held i s')"
  using assms(1)
proof cases
  case (received j c pkt sk)
  then show ?thesis
    using tracks_receive [OF assms(2) _ _ _ assms(3)] assms(3)
    by (cases "i = j") (auto simp: other_receive)
next
  case (lost j c err sk)
  then show ?thesis
    using assms(3) tracks_finished [of m pkts ps Running "held i s" "[]"]
    by (cases "i = j") (auto simp: handle_receive_def other_receive)
next
  case (handed j p ts)
  then show ?thesis
    using assms(3) by (cases "i = j") (auto simp: tracks_active)
next
  case (connect j sk)
  then show ?thesis
    using assms(3) tracks_connect [OF _ assms(3)] by (cases "i = j") (auto simp: other_connect)
next
  case (respond j ack msg c)
  then show ?thesis
    using assms(3) tracks_reply [OF _ _ assms(3)] by (cases "i = j") (auto simp: other_reply)
next
  case (visit j p t ts c)
  have "\<exists>ph'. phases s' = (phases s)(j \<mapsto> ph') \<and> active ph' \<and> pending ph' = []"
    using visit by (auto simp: handle_visit_def split: prod.splits option.splits)
  then show ?thesis
    using tracks_delivering [OF visit(3) _ _ _ _ _ _ assms(3)] held_visit [OF visit(4)] visit by auto
next
  case (send j p t out ts c)
  then show ?thesis
    using tracks_delivering [OF send(3) _ _ _ _ _ _ assms(3), of s' "Delivering p ts"] held_send [OF send(4)]
    by (auto simp: handle_send_def)
next
  case (delivered j p)
  then show ?thesis
    using tracks_delivering [OF delivered(3) _ _ _ _ _ _ assms(3), of s' Running] by simp
next
  case (accept j sk)
  then show ?thesis
    using assms(3) by (cases "i = j") (auto simp: tracks_def)
next
  case close
  then have "phases s' = phases s" "held i s' = held i s" by (simp_all add: begin_close_def held_def)
  with close assms(3) show ?thesis by simp
qed (use assms(3) in simp)

lemma tracks_run:
  assumes "run init_system evs s"
  shows "tracks m (received_in i evs) (handed_in i evs) (phases s i) (held i s)"
proof -
  have "s0 = init_system \<Longrightarrow> reachable s \<and>
      tracks m (received_in i evs) (handed_in i evs) (phases s i) (held i s)" if "run s0 evs s" for s0
    using that
  proof (induction rule: run.induct)
    case (start s)
    then show ?case by (simp add: reachable.init tracks_def) (simp add: init_system_def)
  next
    case (step s0 evs s e s')
    then have "reachable s'" using reachable.step bstep_lstep by blast
    with step tracks_step [OF step.hyps(2) reachable_system_inv] show ?case by simp
  qed
  with assms show ?thesis by blast
qed

text \<open>What was handed over never exceeds what the receiver delivers.\<close>

lemma handed_prefix:
  assumes "run init_system evs s"
  shows "\<exists>rest. fst (qos2_receiver None (filter (concerns m) (received_in i evs))) =
    filter (qos2_message m) (handed_in i evs) @ rest"
proof (cases "phases s i")
  case None
  with tracks_run [OF assms, of m i] have r: "received_in i evs = []" and h: "handed_in i evs = []"
    by (simp_all add: tracks_def)
  show ?thesis unfolding r h by simp
next
  case (Some ph)
  with tracks_run [OF assms, of m i] tracks_finished [of m _ _ ph _ "[]"]
  have "tracks m (received_in i evs) (handed_in i evs) (Some Finished) None" by simp
  then show ?thesis by (simp add: tracks_def)
qed

section \<open>An undisturbed handler\<close>

lemma visit_send:
  assumes "phases s i = Some (Delivering p (t # ts))" and "heap (broker s) t = Some c"
  shows "hstep\<^sup>*\<^sup>* s (s\<lparr>broker := deliver_to p t (broker s), phases := (phases s)(i \<mapsto> Delivering p ts)\<rparr>)"
proof (cases "deliver_locked p c")
  case (Pair out c')
  note visit = hstep.visit [OF assms]
  show ?thesis
  proof (cases out)
    case None
    with Pair visit assms(2) show ?thesis
      by (auto simp: handle_visit_def deliver_to_def deliver_client_def set_phase_def set_client_def)
  next
    case (Some o')
    with Pair visit have 1: "hstep s (set_phase i (Sending p t o' ts) (set_client t c' s))"
      by (simp add: handle_visit_def)
    have "hstep (set_phase i (Sending p t o' ts) (set_client t c' s))
        (handle_send i p t o' ts c' (set_phase i (Sending p t o' ts) (set_client t c' s)))"
      by (rule hstep.send) simp_all
    with 1 Pair Some assms(2) show ?thesis
      by (auto simp: handle_send_def deliver_to_def deliver_client_def set_phase_def set_client_def
          intro: rtranclp.rtrancl_into_rtrancl)
  qed
qed

lemma deliver_run:
  assumes "phases s i = Some (Delivering p ts)" and "set ts \<subseteq> dom (heap (broker s))"
  shows "hstep\<^sup>*\<^sup>* s (s\<lparr>broker := deliver ts p (broker s), phases := (phases s)(i \<mapsto> Running)\<rparr>)"
  using assms
proof (induction ts arbitrary: s)
  case Nil
  then have "hstep s (set_phase i Running s)" by (intro hstep.delivered) simp
  moreover have "set_phase i Running s =
      s\<lparr>broker := deliver [] p (broker s), phases := (phases s)(i \<mapsto> Running)\<rparr>"
    by (simp add: set_phase_def deliver_def)
  ultimately show ?case by (metis r_into_rtranclp)
next
  case (Cons t ts)
  let ?s = "s\<lparr>broker := deliver_to p t (broker s), phases := (phases s)(i \<mapsto> Delivering p ts)\<rparr>"
  from Cons.prems obtain c where c: "heap (broker s) t = Some c" by auto
  have "set ts \<subseteq> dom (heap (broker ?s))"
    using Cons.prems(2) by (auto simp: deliver_to_def split: option.splits)
  then have "hstep\<^sup>*\<^sup>* ?s (?s\<lparr>broker := deliver ts p (broker ?s), phases := (phases ?s)(i \<mapsto> Running)\<rparr>)"
    by (intro Cons.IH) simp_all
  moreover have "?s\<lparr>broker := deliver ts p (broker ?s), phases := (phases ?s)(i \<mapsto> Running)\<rparr> =
      s\<lparr>broker := deliver (t # ts) p (broker s), phases := (phases s)(i \<mapsto> Running)\<rparr>"
    by (simp add: deliver_def fun_upd_def cong: if_cong)
  ultimately have "hstep\<^sup>*\<^sup>* ?s
      (s\<lparr>broker := deliver (t # ts) p (broker s), phases := (phases s)(i \<mapsto> Running)\<rparr>)" by metis
  with visit_send [OF Cons.prems(1) c] show ?case by (rule rtranclp_trans)
qed

lemma next_run:
  assumes "phases s i = Some (next_phase msg)" and "distinct ts" and "set ts = set (clients (broker s))"
    and "set ts \<subseteq> dom (heap (broker s))"
  shows "hstep\<^sup>*\<^sup>* s (s\<lparr>broker := (case msg of None \<Rightarrow> broker s | Some p \<Rightarrow> deliver ts p (broker s)),
    phases := (phases s)(i \<mapsto> Running)\<rparr>)"
proof (cases msg)
  case None
  with assms(1) have "s\<lparr>broker := broker s, phases := (phases s)(i \<mapsto> Running)\<rparr> = s"
    by (simp add: next_phase_def map_upd_triv)
  with None show ?thesis by simp
next
  case (Some p)
  with assms have 1: "hstep s (set_phase i (Delivering p ts) s)"
    by (auto simp: next_phase_def intro: hstep.snapshot)
  from deliver_run [of "set_phase i (Delivering p ts) s" i p ts] assms(4)
  have "hstep\<^sup>*\<^sup>* (set_phase i (Delivering p ts) s)
      (s\<lparr>broker := deliver ts p (broker s), phases := (phases s)(i \<mapsto> Running)\<rparr>)"
    by (simp add: set_phase_def)
  with 1 Some show ?thesis by (simp add: converse_rtranclp_into_rtranclp)
qed


lemma continue_run:
  assumes "distinct ts" and "set ts = set (clients (broker s))" and "set ts \<subseteq> dom (heap (broker s))"
  shows "hstep\<^sup>*\<^sup>* (set_phase i (next_phase msg) (set_client i c' s))
    (s\<lparr>broker := (case msg of None \<Rightarrow> (broker s)\<lparr>heap := (heap (broker s))(i \<mapsto> c')\<rparr>
        | Some p \<Rightarrow> deliver ts p ((broker s)\<lparr>heap := (heap (broker s))(i \<mapsto> c')\<rparr>)),
      phases := (phases s)(i \<mapsto> Running)\<rparr>)"
  using next_run [of "set_phase i (next_phase msg) (set_client i c' s)" i msg ts] assms
  by (cases msg) (auto simp: set_phase_def set_client_def)

text \<open>A receive and the reply to it are what \<open>dispatch_client\<close> does.\<close>

lemma client_run:
  assumes "phases s i = Some Running" and "heap (broker s) i = Some c"
    and "recv (c_sock c) = (Inr pkt, sk)" and "dispatch_client (c\<lparr>c_sock := sk\<rparr>) pkt = (res, c')"
  shows "hstep\<^sup>*\<^sup>* s (case res of
      Inl err \<Rightarrow> finish i (set_client i c' s)
    | Inr msg \<Rightarrow> set_phase i (next_phase msg) (set_client i c' s))"
proof (cases "dispatch_locked (c\<lparr>c_sock := sk\<rparr>) pkt")
  case (Pair out c1)
  note receive = hstep.receive [OF assms(1,2)]
  consider e where "out = Inl e" | msg where "out = Inr (None, msg)"
    | ack msg where "out = Inr (Some ack, msg)" by (metis old.prod.exhaust option.exhaust sum.exhaust)
  then show ?thesis
  proof cases
    case (3 ack msg)
    let ?s = "set_phase i (Replying ack msg) (set_client i c1 s)"
    from 3 receive Pair assms(3) have 1: "hstep s ?s"
      by (simp add: handle_receive_def)
    have "hstep ?s (handle_reply i ack msg c1 ?s)" by (rule hstep.respond) simp_all
    moreover have r: "reply c1 ack msg = (res, c')"
      using assms(4) 3 Pair by (simp add: dispatch_client_def)
    then have "handle_reply i ack msg c1 ?s = (case res of
        Inl err \<Rightarrow> finish i (set_client i c' s)
      | Inr msg \<Rightarrow> set_phase i (next_phase msg) (set_client i c' s))"
      by (auto simp: handle_reply_def finish_def set_phase_def set_client_def split: sum.split)
    ultimately show ?thesis using 1 by (metis converse_rtranclp_into_rtranclp r_into_rtranclp)
  qed (use receive Pair assms(3,4) in \<open>auto simp: handle_receive_def dispatch_client_def\<close>)
qed

section \<open>Properties\<close>

text \<open>A run for the witnesses: the sample client publishes at quality 2 and releases.\<close>

lemma run_receive:
  assumes "run s0 evs s" and "phases s i = Some Running" and "heap (broker s) i = Some c"
    and "recv (c_sock c) = (Inr pkt, sk)"
    and "dispatch_locked (c\<lparr>c_sock := sk\<rparr>) pkt = (Inr (Some ack, msg), c')"
    and "reply c' ack msg = (Inr msg, c'')"
  shows "run s0 (evs @ [Received i pkt, Silent]) (set_phase i (next_phase msg) (set_client i c'' s))"
proof -
  let ?s = "set_phase i (Replying ack msg) (set_client i c' s)"
  have "handle_receive i c s = ?s" by (simp add: handle_receive_def assms(4,5))
  with lstep.received [OF assms(2-4)] have 1: "lstep (Received i pkt) s ?s" by simp
  have "handle_reply i ack msg c' ?s = set_phase i (next_phase msg) (set_client i c'' s)"
    using assms(6) by (simp add: handle_reply_def set_phase_def set_client_def)
  with lstep.respond [of ?s i ack msg c'] have 2: "lstep Silent ?s (set_phase i (next_phase msg) (set_client i c'' s))"
    by simp
  from run.step [OF run.step [OF assms(1) 1] 2] show ?thesis by simp
qed

definition sample_held :: PublishPacket where
  "sample_held = (sample_message 2)\<lparr>pub_FixedHeader := (zeroHeader Publish 2)\<lparr>RemainingLength := 8\<rparr>\<rparr>"

definition sample_released :: PubrelPacket where
  "sample_released = \<lparr>pubrel_FixedHeader = (zeroHeader Pubrel 1)\<lparr>RemainingLength := 2\<rparr>, pubrel_MessageID = 7\<rparr>"

definition sample_events :: "event list" where
  "sample_events = [Silent, Silent, Received 0 (PublishP sample_held), Silent,
     Received 0 (PubrelP sample_released), Silent, Handed 0 sample_held, Silent, Silent]"

lemma sample_reads:
  "ReadPacketLimit maxPacketSize (buffer (encode sample_publish2 @ rest)) = (Inr (PublishP sample_held), buffer rest)"
  "ReadPacketLimit maxPacketSize (buffer (encode sample_release)) = (Inr (PubrelP sample_released), buffer [])"
proof -
  have s: "sendable maxPacketSize sample_publish2" "sendable maxPacketSize sample_release"
    by (simp_all add: sample_publish2_def sample_release_def sample_message_def sendable_defs
        publish_wf_def publish_content_def lit_def)
  have r: "as_received sample_publish2 = PublishP sample_held"
    "as_received sample_release = PubrelP sample_released"
    by (simp_all add: as_received_def sample_publish2_def sample_release_def sample_message_def
        sample_held_def sample_released_def zeroHeader_def publish_content_def lit_def)
  from ReadPacketLimit_frame [of _ maxPacketSize] s r show
    "ReadPacketLimit maxPacketSize (buffer (encode sample_publish2 @ rest)) = (Inr (PublishP sample_held), buffer rest)"
    by (simp add: sendable_def encode_def)
  from ReadPacketLimit_frame [of sample_release maxPacketSize "[]"] s(2) r(2) show
    "ReadPacketLimit maxPacketSize (buffer (encode sample_release)) = (Inr (PubrelP sample_released), buffer [])"
    by (simp add: sendable_def encode_def)
qed

lemma sample_dispatch:
  "dispatch_locked c (PublishP sample_held) = (Inr (Some (PubrecP ((new_PubrecPacket (zeroHeader Pubrec 0))
     \<lparr>pubrec_MessageID := 7\<rparr>)), None),
   if inbound2 c 7 = None then c\<lparr>inbound2 := (inbound2 c)(7 \<mapsto> sample_held)\<rparr> else c)"
  using sample_valid
  by (simp add: dispatch_locked_def dispatch_publish_def sample_held_def sample_message_def zeroHeader_def
      PublishPacket_Validate_def)

abbreviation sample_pubrec :: ControlPacket where
  "sample_pubrec \<equiv> PubrecP ((new_PubrecPacket (zeroHeader Pubrec 0))\<lparr>pubrec_MessageID := 7\<rparr>)"

abbreviation sample_pubcomp :: ControlPacket where
  "sample_pubcomp \<equiv> PubcompP ((new_PubcompPacket (zeroHeader Pubcomp 0))\<lparr>pubcomp_MessageID := 7\<rparr>)"

lemma sample_run_connect: "run init_system [Silent, Silent] sample_system"
proof -
  have "lstep Silent init_system (set_phase 0 (Connecting sample_sock) init_system)"
    by (rule lstep.accept) (simp_all add: init_system_def NewBroker_def sample_sock_def)
  moreover have "lstep Silent (set_phase 0 (Connecting sample_sock) init_system) sample_system"
    unfolding sample_system_def by (rule lstep.connect) simp
  ultimately show ?thesis
    using run.step [OF run.step [OF run.start]] by fastforce
qed

lemma sample_run_released:
  "\<exists>s c. run init_system [Silent, Silent, Received 0 (PublishP sample_held), Silent,
      Received 0 (PubrelP sample_released), Silent] s \<and>
    phases s 0 = Some (Publishing sample_held) \<and> clients (broker s) = [0] \<and>
    heap (broker s) 0 = Some c \<and> subs c = []"
proof -
  let ?sk = "sample_sock_after\<lparr>input := buffer (encode sample_release)\<rparr>"
  let ?c0 = "new_client sample_sock_after []"
  let ?c1 = "?c0\<lparr>c_sock := ?sk, inbound2 := [7 \<mapsto> sample_held]\<rparr>"
  let ?c2 = "?c1\<lparr>c_sock := ?sk\<lparr>packets := [connack_accepted, sample_pubrec]\<rparr>\<rparr>"
  let ?c3 = "?c2\<lparr>c_sock := (c_sock ?c2)\<lparr>input := buffer []\<rparr>, inbound2 := Map.empty\<rparr>"
  let ?c4 = "?c3\<lparr>c_sock := (c_sock ?c3)\<lparr>packets := [connack_accepted, sample_pubrec, sample_pubcomp]\<rparr>\<rparr>"
  let ?s1 = "set_phase 0 (next_phase None) (set_client 0 ?c2 sample_system)"
  have r1: "run init_system ([Silent, Silent] @ [Received 0 (PublishP sample_held), Silent]) ?s1"
    by (rule run_receive [OF sample_run_connect, where c = ?c0 and c' = ?c1 and sk = ?sk and ack = sample_pubrec])
      (simp_all add: sample_system_client recv_def sample_sock_after_def new_client_def sample_reads
        sample_dispatch reply_def Send_def)
  let ?s2 = "set_phase 0 (next_phase (Some sample_held)) (set_client 0 ?c4 ?s1)"
  have "run init_system (([Silent, Silent] @ [Received 0 (PublishP sample_held), Silent]) @
      [Received 0 (PubrelP sample_released), Silent]) ?s2"
    by (rule run_receive [OF r1, where c = ?c2 and c' = ?c3 and sk = "c_sock ?c3" and ack = sample_pubcomp])
      (simp_all add: next_phase_def recv_def sample_sock_after_def new_client_def sample_reads
        dispatch_locked_def dispatch_pubrel_def sample_released_def reply_def Send_def)
  moreover have "phases ?s2 0 = Some (Publishing sample_held)" by (simp add: next_phase_def)
  moreover have "clients (broker ?s2) = [0]" by (simp add: sample_system_client)
  moreover have "heap (broker ?s2) 0 = Some ?c4" and "subs ?c4 = []" by (simp_all add: new_client_def)
  ultimately show ?thesis by (metis append_Cons append_Nil)
qed

lemma sample_qos2_run: "\<exists>s. run init_system sample_events s \<and> phases s 0 = Some Running"
proof -
  obtain s c where r: "run init_system [Silent, Silent, Received 0 (PublishP sample_held), Silent,
      Received 0 (PubrelP sample_released), Silent] s"
    and s: "phases s 0 = Some (Publishing sample_held)" "clients (broker s) = [0]"
      "heap (broker s) 0 = Some c" "subs c = []"
    using sample_run_released by blast
  let ?s1 = "set_phase 0 (Delivering sample_held [0]) s"
  let ?s2 = "set_phase 0 (Delivering sample_held []) (set_client 0 c ?s1)"
  have 1: "lstep (Handed 0 sample_held) s ?s1"
    by (rule lstep.handed) (simp_all add: s)
  have "handle_visit 0 sample_held 0 [] c ?s1 = ?s2"
    by (simp add: handle_visit_def deliver_locked_def s(4))
  with lstep.visit [of ?s1 0 sample_held 0 "[]" c] have 2: "lstep Silent ?s1 ?s2" by (simp add: s(3))
  have 3: "lstep Silent ?s2 (set_phase 0 Running ?s2)"
    by (rule lstep.delivered [where p = sample_held]) simp
  have "run init_system sample_events (set_phase 0 Running ?s2)"
    using run.step [OF run.step [OF run.step [OF r 1] 2] 3] by (simp add: sample_events_def)
  moreover have "phases (set_phase 0 Running ?s2) 0 = Some Running" by simp
  ultimately show ?thesis by blast
qed

text \<open>
  C13: refinement. In every run of the broker, whatever the handlers do in between, the handler of
  a connection and its client are, for every packet identifier, the specified receiver of
  quality 2 on the packets the handler received: while the handler is at work, it has handed to
  \<^verbatim>\<open>deliver\<close>, or is about to hand, what the receiver delivers, and its client holds what the
  receiver holds; once it has returned, it has handed over a part of that from the start.
\<close>

theorem qos2_run_refinement:
  assumes "run init_system evs s"
  shows "(\<forall>ph. phases s i = Some ph \<and> active ph \<longrightarrow> (\<exists>c. heap (broker s) i = Some c \<and>
      qos2_receiver None (filter (concerns m) (received_in i evs)) =
        (filter (qos2_message m) (handed_in i evs @ pending ph), inbound2 c m))) \<and>
    (\<exists>rest. fst (qos2_receiver None (filter (concerns m) (received_in i evs))) =
      filter (qos2_message m) (handed_in i evs) @ rest)"
  using tracks_run [OF assms, of m i] handed_prefix [OF assms, of m i]
  by (auto simp: tracks_active held_def)

theorem qos2_run_refinement_witness:
  "fst (qos2_receiver None [PublishP sample_held, PubrelP sample_released]) = [sample_held]"
proof -
  obtain s where "run init_system sample_events s" "phases s 0 = Some Running"
    using sample_qos2_run by blast
  with qos2_run_refinement [of sample_events s 0 7] show ?thesis
    by (auto simp: sample_events_def concerns_def qos2_message_def sample_held_def sample_released_def
        sample_message_def zeroHeader_def)
qed





end
