(* ===== verification/Marshal.thy ===== *)
theory Marshal
  imports ControlPackets
begin

text \<open>
  \<^verbatim>\<open>Write\<close> of \<^verbatim>\<open>io.go\<close>, which marshals the value given to a socket's \<^verbatim>\<open>Send\<close>. A value of
  type \<^verbatim>\<open>interface{}\<close> is nil, a string, a byte slice, or an object: what the type switch can
  find out about it is which of the three marshalling interfaces it implements and what their
  methods return. A panic of \<^verbatim>\<open>WriteTo\<close> is \<open>None\<close>.
\<close>

record object =
  writerTo :: "(writer \<Rightarrow> write_result option) option"
  marshalBinary :: "(error + bytes) option"
  marshalJSON :: "(error + bytes) option"
  typeName :: gostring

datatype any = NilV | StringV gostring | BytesV bytes | ObjectV object

text \<open>\<^verbatim>\<open>unsafe.Slice\<close> over the bytes of the string, or nil: the same bytes either way.\<close>

definition stringToBytes :: "gostring \<Rightarrow> bytes" where
  "stringToBytes s = (if length s = 0 then [] else take (length s) s)"

definition WriteBytes :: "writer \<Rightarrow> bytes \<Rightarrow> write_result" where
  "WriteBytes w bs = Write w bs"

definition WriteString :: "writer \<Rightarrow> gostring \<Rightarrow> write_result" where
  "WriteString w s = Write w (stringToBytes s)"

definition Write_any :: "writer \<Rightarrow> any \<Rightarrow> write_result option" where
  "Write_any w v = (case v of
      NilV \<Rightarrow> Some ((0, None), w)
    | StringV s \<Rightarrow> Some (WriteString w s)
    | BytesV bs \<Rightarrow> Some (WriteBytes w bs)
    | ObjectV ob \<Rightarrow>
        (case writerTo ob of
          Some f \<Rightarrow> f w
        | None \<Rightarrow>
            (case marshalBinary ob of
              Some (Inl err) \<Rightarrow> Some ((0, Some err), w)
            | Some (Inr bs) \<Rightarrow> Some (WriteBytes w bs)
            | None \<Rightarrow>
                (case marshalJSON ob of
                  Some (Inl err) \<Rightarrow> Some ((0, Some err), w)
                | Some (Inr bs) \<Rightarrow> Some (WriteBytes w bs)
                | None \<Rightarrow> Some ((0, Some (NewError (lit ''xtransport: can't marshal '' @
                    typeName ob @
                    lit '' (implement io.WriterTo or encoding.BinaryMarshaler)''))), w)))))"

text \<open>A control packet as such a value: it implements \<^verbatim>\<open>io.WriterTo\<close>.\<close>

definition packet_any :: "ControlPacket \<Rightarrow> any" where
  "packet_any cp = ObjectV \<lparr>writerTo = Some (WriteTo cp), marshalBinary = None, marshalJSON = None,
     typeName = lit ''*mqtt.Packet''\<rparr>"

lemma stringToBytes_eq [simp]: "stringToBytes s = s"
  by (simp add: stringToBytes_def)

lemma Write_any_packet [simp]: "Write_any w (packet_any cp) = WriteTo cp w"
  by (simp add: Write_any_def packet_any_def)

text \<open>The bytes a value stands for, when it can be marshalled without its own \<^verbatim>\<open>WriteTo\<close>.\<close>

definition any_bytes :: "any \<Rightarrow> error + bytes" where
  "any_bytes v = (case v of
      NilV \<Rightarrow> Inr [] | StringV s \<Rightarrow> Inr s | BytesV bs \<Rightarrow> Inr bs
    | ObjectV ob \<Rightarrow> (case marshalBinary ob of
        Some r \<Rightarrow> r
      | None \<Rightarrow> (case marshalJSON ob of
          Some r \<Rightarrow> r
        | None \<Rightarrow> Inl (NewError (lit ''xtransport: can't marshal '' @ typeName ob @
            lit '' (implement io.WriterTo or encoding.BinaryMarshaler)'')))))"

definition plain_any :: "any \<Rightarrow> bool" where
  "plain_any v = (case v of ObjectV ob \<Rightarrow> writerTo ob = None | _ \<Rightarrow> True)"

lemma Write_any_bytes:
  assumes "plain_any v"
  shows "Write_any w v = (case any_bytes v of
      Inl err \<Rightarrow> Some ((0, Some err), w)
    | Inr bs \<Rightarrow> Some (if v = NilV then ((0, None), w) else Write w bs))"
  using assms
  by (auto simp: Write_any_def any_bytes_def plain_any_def WriteString_def WriteBytes_def
      split: any.splits option.splits sum.splits)

section \<open>Properties\<close>

text \<open>
  Marshalling. A packet is written by its own \<^verbatim>\<open>WriteTo\<close>. Any other value is written as its
  bytes by one \<^verbatim>\<open>Write\<close>, the binary form being preferred to JSON; nil writes nothing, and a value
  that cannot be marshalled is an error with nothing written.
\<close>

theorem Write_any_values:
  assumes "plain_any v"
  shows "Write_any w (packet_any cp) = WriteTo cp w \<and>
    (case any_bytes v of
       Inl err \<Rightarrow> Write_any w v = Some ((0, Some err), w)
     | Inr bs \<Rightarrow> Write_any w v = Some (if v = NilV then ((0, None), w) else Write w bs))"
  using Write_any_bytes [OF assms, of w] by (auto split: sum.splits)

theorem Write_any_values_witness:
  "Write_any newBuffer (StringV (lit ''hi'')) = Some (Write newBuffer [104, 105])"
  using Write_any_values [of "StringV (lit ''hi'')" newBuffer]
  by (simp add: plain_any_def any_bytes_def lit_def)

end
