(* ===== verification/Session.thy ===== *)
theory Session
  imports Errors
begin

text \<open>
  The session store of a socket (\<^verbatim>\<open>context.go\<close>): a map from keys to values of any type, with a
  getter for each of the common types that answers the zero value when the key is missing, holds
  nil, or holds another type. Every method holds the lock while it touches the map, so the
  methods are atomic; \<^verbatim>\<open>time.Time\<close> and durations are nanoseconds, a float is its 64 bits.

  The interface \<open>key_value_store\<close> is what the users of a session rely on.
\<close>

datatype val =
    NilVal
  | StringVal gostring
  | BoolVal bool
  | IntVal int
  | Int64Val "64 word"
  | UintVal "64 word"
  | Uint64Val "64 word"
  | Float64Val "64 word"
  | TimeVal int
  | DurationVal "64 word"
  | StringSliceVal "gostring list"
  | StringMapVal "(gostring \<times> val) list"
  | StringMapStringVal "(gostring \<times> gostring) list"
  | StringMapStringSliceVal "(gostring \<times> gostring list) list"
  | OtherVal nat

text \<open>The nil map of a zero \<^verbatim>\<open>Context\<close> is \<open>None\<close>.\<close>

record Context =
  keys :: "(gostring \<rightharpoonup> val) option"

definition NewSession :: Context where
  "NewSession = \<lparr>keys = Some Map.empty\<rparr>"

definition Set :: "gostring \<Rightarrow> val \<Rightarrow> Context \<Rightarrow> Context" where
  "Set key v c =
     (let c = (if keys c = None then c\<lparr>keys := Some Map.empty\<rparr> else c)
      in case keys c of
        None \<Rightarrow> c
      | Some m \<Rightarrow> c\<lparr>keys := Some (m(key \<mapsto> v))\<rparr>)"

text \<open>The pair of a value and whether the key exists; reading a nil map finds nothing.\<close>

definition Get :: "gostring \<Rightarrow> Context \<Rightarrow> val \<times> bool" where
  "Get key c = (case keys c of
      None \<Rightarrow> (NilVal, False)
    | Some m \<Rightarrow> (case m key of None \<Rightarrow> (NilVal, False) | Some v \<Rightarrow> (v, True)))"

text \<open>\<^verbatim>\<open>MustGet\<close>; a panic is the error that a recovering caller would see.\<close>

definition MustGet :: "gostring \<Rightarrow> Context \<Rightarrow> error + val" where
  "MustGet key c = (case Get key c of
      (v, True) \<Rightarrow> Inr v
    | (_, False) \<Rightarrow> Inl (NewError (lit ''Key '' @ [0x22] @ key @ [0x22] @ lit '' does not exist'')))"

text \<open>
  The shape of every getter: \<^verbatim>\<open>if val, ok := c.Get(key); ok && val != nil\<close> then the result
  of the type assertion, whose failure leaves the zero value.
\<close>

definition typed :: "'a \<Rightarrow> (val \<Rightarrow> 'a option) \<Rightarrow> gostring \<Rightarrow> Context \<Rightarrow> 'a" where
  "typed zero as key c = (case Get key c of (v, ok) \<Rightarrow>
     (if ok \<and> v \<noteq> NilVal then (case as v of Some x \<Rightarrow> x | None \<Rightarrow> zero) else zero))"

definition GetString :: "gostring \<Rightarrow> Context \<Rightarrow> gostring" where
  "GetString = typed [] (\<lambda>v. case v of StringVal s \<Rightarrow> Some s | _ \<Rightarrow> None)"

definition GetBool :: "gostring \<Rightarrow> Context \<Rightarrow> bool" where
  "GetBool = typed False (\<lambda>v. case v of BoolVal b \<Rightarrow> Some b | _ \<Rightarrow> None)"

definition GetInt :: "gostring \<Rightarrow> Context \<Rightarrow> int" where
  "GetInt = typed 0 (\<lambda>v. case v of IntVal i \<Rightarrow> Some i | _ \<Rightarrow> None)"

definition GetInt64 :: "gostring \<Rightarrow> Context \<Rightarrow> 64 word" where
  "GetInt64 = typed 0 (\<lambda>v. case v of Int64Val i \<Rightarrow> Some i | _ \<Rightarrow> None)"

definition GetUint :: "gostring \<Rightarrow> Context \<Rightarrow> 64 word" where
  "GetUint = typed 0 (\<lambda>v. case v of UintVal i \<Rightarrow> Some i | _ \<Rightarrow> None)"

definition GetUint64 :: "gostring \<Rightarrow> Context \<Rightarrow> 64 word" where
  "GetUint64 = typed 0 (\<lambda>v. case v of Uint64Val i \<Rightarrow> Some i | _ \<Rightarrow> None)"

definition GetFloat64 :: "gostring \<Rightarrow> Context \<Rightarrow> 64 word" where
  "GetFloat64 = typed 0 (\<lambda>v. case v of Float64Val f \<Rightarrow> Some f | _ \<Rightarrow> None)"

definition GetTime :: "gostring \<Rightarrow> Context \<Rightarrow> int" where
  "GetTime = typed 0 (\<lambda>v. case v of TimeVal t \<Rightarrow> Some t | _ \<Rightarrow> None)"

definition GetDuration :: "gostring \<Rightarrow> Context \<Rightarrow> 64 word" where
  "GetDuration = typed 0 (\<lambda>v. case v of DurationVal d \<Rightarrow> Some d | _ \<Rightarrow> None)"

definition GetStringSlice :: "gostring \<Rightarrow> Context \<Rightarrow> gostring list" where
  "GetStringSlice = typed [] (\<lambda>v. case v of StringSliceVal ss \<Rightarrow> Some ss | _ \<Rightarrow> None)"

definition GetStringMap :: "gostring \<Rightarrow> Context \<Rightarrow> (gostring \<times> val) list" where
  "GetStringMap = typed [] (\<lambda>v. case v of StringMapVal sm \<Rightarrow> Some sm | _ \<Rightarrow> None)"

definition GetStringMapString :: "gostring \<Rightarrow> Context \<Rightarrow> (gostring \<times> gostring) list" where
  "GetStringMapString = typed [] (\<lambda>v. case v of StringMapStringVal sm \<Rightarrow> Some sm | _ \<Rightarrow> None)"

definition GetStringMapStringSlice ::
    "gostring \<Rightarrow> Context \<Rightarrow> (gostring \<times> gostring list) list" where
  "GetStringMapStringSlice =
     typed [] (\<lambda>v. case v of StringMapStringSliceVal sm \<Rightarrow> Some sm | _ \<Rightarrow> None)"

text \<open>\<^verbatim>\<open>Session\<close> returns the context itself.\<close>

definition Session_of :: "Context \<Rightarrow> Context" where
  "Session_of c = c"

section \<open>The interface of the store\<close>

locale key_value_store =
  fixes put :: "'k \<Rightarrow> 'v \<Rightarrow> 's \<Rightarrow> 's"
    and look :: "'k \<Rightarrow> 's \<Rightarrow> 'v option"
    and new :: 's
  assumes look_new: "look k new = None"
    and look_put: "look k (put k' v s) = (if k = k' then Some v else look k s)"
begin

text \<open>After any sequence of stores the last one for a key counts.\<close>

lemma look_fold:
  "look k (fold (\<lambda>(k, v). put k v) kvs s) =
     (case map_of (rev kvs) k of Some v \<Rightarrow> Some v | None \<Rightarrow> look k s)"
proof (induction kvs arbitrary: s)
  case (Cons kv kvs)
  then show ?case
    by (cases kv) (auto simp: look_put map_add_def split: option.splits)
qed simp

lemma look_fold_new: "look k (fold (\<lambda>(k, v). put k v) kvs new) = map_of (rev kvs) k"
  by (simp add: look_fold look_new split: option.splits)

text \<open>Stores under different keys commute, as far as any reader can tell.\<close>

lemma put_commute:
  "k \<noteq> k' \<Longrightarrow> look j (put k v (put k' v' s)) = look j (put k' v' (put k v s))"
  by (simp add: look_put)

end

definition lookup :: "gostring \<Rightarrow> Context \<Rightarrow> val option" where
  "lookup key c = (case Get key c of (v, ok) \<Rightarrow> if ok then Some v else None)"

lemma Get_lookup: "Get key c = (case lookup key c of Some v \<Rightarrow> (v, True) | None \<Rightarrow> (NilVal, False))"
  by (auto simp: lookup_def Get_def split: option.splits)

interpretation session: key_value_store Set lookup NewSession
  by unfold_locales
    (auto simp: lookup_def Get_def Set_def NewSession_def Let_def split: option.splits)

text \<open>A zero \<^verbatim>\<open>Context\<close>, whose map is nil, works as a store too.\<close>

interpretation zero_session: key_value_store Set lookup "\<lparr>keys = None\<rparr>"
  by unfold_locales
    (auto simp: lookup_def Get_def Set_def Let_def split: option.splits)

lemma typed_lookup:
  "typed zero as key c =
     (case lookup key c of
        Some v \<Rightarrow> if v = NilVal then zero else (case as v of Some x \<Rightarrow> x | None \<Rightarrow> zero)
      | None \<Rightarrow> zero)"
  by (auto simp: typed_def Get_lookup split: option.splits)

lemma typed_Set:
  "typed zero as key (Set key v c) =
     (if v = NilVal then zero else (case as v of Some x \<Rightarrow> x | None \<Rightarrow> zero))"
  by (simp add: typed_lookup session.look_put)

lemma typed_Set_other: "key \<noteq> key' \<Longrightarrow> typed zero as key (Set key' v c) = typed zero as key c"
  by (simp add: typed_lookup session.look_put)

text \<open>The session after a sequence of \<^verbatim>\<open>Set\<close> calls.\<close>

definition stored :: "(gostring \<times> val) list \<Rightarrow> Context" where
  "stored kvs = fold (\<lambda>(k, v). Set k v) kvs NewSession"

lemma lookup_stored: "lookup key (stored kvs) = map_of (rev kvs) key"
  by (simp add: stored_def session.look_fold_new)

lemma typed_stored:
  "typed zero as key (stored kvs) = (case map_of (rev kvs) key of
     Some v \<Rightarrow> if v = NilVal then zero else (case as v of Some x \<Rightarrow> x | None \<Rightarrow> zero)
   | None \<Rightarrow> zero)"
  by (simp add: typed_lookup lookup_stored)

lemma typed_getters:
  "GetString key (stored kvs) = (case map_of (rev kvs) key of Some (StringVal x) \<Rightarrow> x | _ \<Rightarrow> []) \<and>
   GetBool key (stored kvs) = (case map_of (rev kvs) key of Some (BoolVal x) \<Rightarrow> x | _ \<Rightarrow> False) \<and>
   GetInt key (stored kvs) = (case map_of (rev kvs) key of Some (IntVal x) \<Rightarrow> x | _ \<Rightarrow> 0) \<and>
   GetInt64 key (stored kvs) = (case map_of (rev kvs) key of Some (Int64Val x) \<Rightarrow> x | _ \<Rightarrow> 0) \<and>
   GetUint key (stored kvs) = (case map_of (rev kvs) key of Some (UintVal x) \<Rightarrow> x | _ \<Rightarrow> 0) \<and>
   GetUint64 key (stored kvs) = (case map_of (rev kvs) key of Some (Uint64Val x) \<Rightarrow> x | _ \<Rightarrow> 0) \<and>
   GetFloat64 key (stored kvs) = (case map_of (rev kvs) key of Some (Float64Val x) \<Rightarrow> x | _ \<Rightarrow> 0) \<and>
   GetTime key (stored kvs) = (case map_of (rev kvs) key of Some (TimeVal x) \<Rightarrow> x | _ \<Rightarrow> 0) \<and>
   GetDuration key (stored kvs) = (case map_of (rev kvs) key of Some (DurationVal x) \<Rightarrow> x | _ \<Rightarrow> 0) \<and>
   GetStringSlice key (stored kvs) = (case map_of (rev kvs) key of Some (StringSliceVal x) \<Rightarrow> x | _ \<Rightarrow> []) \<and>
   GetStringMap key (stored kvs) = (case map_of (rev kvs) key of Some (StringMapVal x) \<Rightarrow> x | _ \<Rightarrow> []) \<and>
   GetStringMapString key (stored kvs) = (case map_of (rev kvs) key of Some (StringMapStringVal x) \<Rightarrow> x | _ \<Rightarrow> []) \<and>
   GetStringMapStringSlice key (stored kvs) = (case map_of (rev kvs) key of Some (StringMapStringSliceVal x) \<Rightarrow> x | _ \<Rightarrow> [])"
  unfolding GetString_def GetBool_def GetInt_def GetInt64_def GetUint_def GetUint64_def
    GetFloat64_def GetTime_def GetDuration_def GetStringSlice_def
    GetStringMap_def GetStringMapString_def GetStringMapStringSlice_def
proof (cases "map_of (rev kvs) key", goal_cases)
  case 1
  then show ?case by (intro conjI) (simp_all add: typed_stored)
next
  case (2 v)
  then show ?case by (intro conjI; cases v; simp add: typed_stored)
qed

section \<open>Properties\<close>

text \<open>
  C28: the store. After any sequence of \<^verbatim>\<open>Set\<close> calls on a new session, or on a zero \<^verbatim>\<open>Context\<close>,
  \<^verbatim>\<open>Get\<close> finds the last value set under a key, \<^verbatim>\<open>MustGet\<close> panics exactly when there is none, and
  each typed getter returns that value if it has the getter's type, and the zero value of the
  type if it has another one, is nil or is missing.
\<close>

theorem session_last_set:
  "Get key (stored kvs) = (case map_of (rev kvs) key of Some v \<Rightarrow> (v, True) | None \<Rightarrow> (NilVal, False)) \<and>
   Get key (fold (\<lambda>(k, v). Set k v) kvs \<lparr>keys = None\<rparr>) = Get key (stored kvs) \<and>
   (case MustGet key (stored kvs) of
      Inr v \<Rightarrow> map_of (rev kvs) key = Some v | Inl e \<Rightarrow> map_of (rev kvs) key = None) \<and>
   GetString key (stored kvs) = (case map_of (rev kvs) key of Some (StringVal x) \<Rightarrow> x | _ \<Rightarrow> []) \<and>
   GetBool key (stored kvs) = (case map_of (rev kvs) key of Some (BoolVal x) \<Rightarrow> x | _ \<Rightarrow> False) \<and>
   GetInt key (stored kvs) = (case map_of (rev kvs) key of Some (IntVal x) \<Rightarrow> x | _ \<Rightarrow> 0) \<and>
   GetInt64 key (stored kvs) = (case map_of (rev kvs) key of Some (Int64Val x) \<Rightarrow> x | _ \<Rightarrow> 0) \<and>
   GetUint key (stored kvs) = (case map_of (rev kvs) key of Some (UintVal x) \<Rightarrow> x | _ \<Rightarrow> 0) \<and>
   GetUint64 key (stored kvs) = (case map_of (rev kvs) key of Some (Uint64Val x) \<Rightarrow> x | _ \<Rightarrow> 0) \<and>
   GetFloat64 key (stored kvs) = (case map_of (rev kvs) key of Some (Float64Val x) \<Rightarrow> x | _ \<Rightarrow> 0) \<and>
   GetTime key (stored kvs) = (case map_of (rev kvs) key of Some (TimeVal x) \<Rightarrow> x | _ \<Rightarrow> 0) \<and>
   GetDuration key (stored kvs) = (case map_of (rev kvs) key of Some (DurationVal x) \<Rightarrow> x | _ \<Rightarrow> 0) \<and>
   GetStringSlice key (stored kvs) = (case map_of (rev kvs) key of Some (StringSliceVal x) \<Rightarrow> x | _ \<Rightarrow> []) \<and>
   GetStringMap key (stored kvs) = (case map_of (rev kvs) key of Some (StringMapVal x) \<Rightarrow> x | _ \<Rightarrow> []) \<and>
   GetStringMapString key (stored kvs) = (case map_of (rev kvs) key of Some (StringMapStringVal x) \<Rightarrow> x | _ \<Rightarrow> []) \<and>
   GetStringMapStringSlice key (stored kvs) = (case map_of (rev kvs) key of Some (StringMapStringSliceVal x) \<Rightarrow> x | _ \<Rightarrow> [])"
  by (intro conjI typed_getters)
    (auto simp: Get_lookup MustGet_def lookup_stored zero_session.look_fold_new split: option.splits)

end
