(* ===== verification/PacketSocket.thy ===== *)
theory PacketSocket
  imports Codec Marshal Session
begin

text \<open>
  What the sockets of the transports have in common: connections of package \<^verbatim>\<open>net\<close> with their
  deadlines, the callback of \<^verbatim>\<open>Recv\<close>, and the interface \<open>packet_socket\<close>, what a user of
  sockets relies on (\<^verbatim>\<open>socket.go\<close>): a packet whose send succeeds is on the wire as a whole, and
  after a send that failed half way the socket is closed, so the peer never reads a packet out of
  step. Deadlines and durations are nanoseconds, \<open>now\<close> is the clock.
\<close>

section \<open>Connections\<close>

text \<open>
  A \<^verbatim>\<open>net.Conn\<close>: what the peer sends (through the buffered reader), what is written to it,
  its deadlines and addresses, and, for a \<^verbatim>\<open>*tls.Conn\<close>, its state once the handshake is
  complete and, while it has not run yet, the handshake's coming result.
\<close>

record ConnectionState =
  ServerName :: gostring
  PeerCertificates :: "gostring list"

record conn =
  incoming :: reader
  outgoing_wire :: writer
  connOpen :: bool
  closeResult :: "error option"
  readDeadline :: "int option"
  writeDeadline :: "int option"
  tlsState :: "ConnectionState option"
  pendingHandshake :: "error option option"
  localAddr :: gostring
  remoteAddr :: gostring

text \<open>
  After some reading, \<open>r\<close> is left. Reading drives a TLS handshake that has not run, and no data
  comes before it is complete.
\<close>

definition conn_read :: "reader \<Rightarrow> conn \<Rightarrow> conn" where
  "conn_read r c = c\<lparr>incoming := r,
     pendingHandshake := (if data r = data (incoming c) then pendingHandshake c else None)\<rparr>"

lemma conn_read_simps [simp]:
  "incoming (conn_read r c) = r" "outgoing_wire (conn_read r c) = outgoing_wire c"
  "connOpen (conn_read r c) = connOpen c" "tlsState (conn_read r c) = tlsState c"
  by (simp_all add: conn_read_def)

definition SetReadDeadline :: "int option \<Rightarrow> conn \<Rightarrow> error option \<times> conn" where
  "SetReadDeadline dl c =
     (if connOpen c then (None, c\<lparr>readDeadline := dl\<rparr>) else (Some ErrClosed, c))"

definition SetWriteDeadline :: "int option \<Rightarrow> conn \<Rightarrow> error option \<times> conn" where
  "SetWriteDeadline dl c =
     (if connOpen c then (None, c\<lparr>writeDeadline := dl\<rparr>) else (Some ErrClosed, c))"

lemma deadline_simps [simp]:
  "outgoing_wire (snd (SetWriteDeadline dl c)) = outgoing_wire c"
  "outgoing_wire (snd (SetReadDeadline dl c)) = outgoing_wire c"
  "connOpen (snd (SetWriteDeadline dl c)) = connOpen c"
  "connOpen (snd (SetReadDeadline dl c)) = connOpen c"
  "incoming (snd (SetWriteDeadline dl c)) = incoming c"
  "incoming (snd (SetReadDeadline dl c)) = incoming c"
  by (simp_all add: SetWriteDeadline_def SetReadDeadline_def)

text \<open>The zero time for no deadline.\<close>

definition deadline :: "int \<Rightarrow> int \<Rightarrow> int option" where
  "deadline now d = (if d > 0 then Some (now + d) else None)"

text \<open>What a packet's \<^verbatim>\<open>WriteTo\<close> leaves on the wire: a part of a frame, or all of it.\<close>

lemma WriteTo_part:
  assumes "WriteTo cp w = Some ((n, err), w')"
  shows "\<exists>part. sent w' = sent w @ part \<and> (part \<noteq> [] \<longrightarrow> n > 0)"
proof -
  consider "w' = w" | content where "Write w (frame (fixedHeader cp) content) = ((n, err), w')"
    using WriteTo_once [of w cp] assms by (auto simp: writes_once_def)
  then show ?thesis
  proof cases
    case (2 content)
    then show ?thesis using Write_sent [OF 2] by auto
  qed simp
qed

lemma WriteTo_whole:
  assumes "WriteTo cp w = Some ((n, None), w')" and "sendable m cp"
  shows "sent w' = sent w @ encode cp"
proof -
  have "Write w (encode cp) = ((n, None), w')"
    using WriteTo_encode [OF assms(2)] assms(1) by simp
  from Write_sent [OF this] Write_error_iff [OF this] show ?thesis by simp
qed

lemma ReadPacketLimit_at_end: "data r = [] \<Longrightarrow> fst (ReadPacketLimit m r) = Inl (final r)"
  by (simp add: from_flat_ReadPacketLimit(1) [of m r] ReadPacketLimit_Nil)

section \<open>The interface of a packet socket\<close>

text \<open>A callback's value or its panic, with the reader after it.\<close>

type_synonym 'a callback = "reader \<Rightarrow> (gostring + (error + 'a)) \<times> reader"

text \<open>The callback that reads one packet.\<close>

definition read_packet :: "int \<Rightarrow> ControlPacket callback" where
  "read_packet m r = (case ReadPacketLimit m r of (res, r') \<Rightarrow> (Inr res, r'))"

text \<open>
  A call of a socket at some time. \<^verbatim>\<open>Send\<close> first looks whether the socket is closed and then
  waits for the write lock: a send is \<open>late\<close> if the socket was still open when it looked, and
  may have been closed since by the calls before it in the list.
\<close>

datatype op =
    OpSend (op_now: int) (late: bool) (op_packet: ControlPacket)
  | OpRecv (op_now: int) (op_limit: int)
  | OpSetTimeOut (op_now: int) (op_duration: int)
  | OpClose (op_now: int)

text \<open>The packet a call has sent, if it is a send that returned nil.\<close>

definition accepted :: "op \<Rightarrow> error option \<Rightarrow> ControlPacket list" where
  "accepted a err = (if is_OpSend a \<and> err = None then [op_packet a] else [])"

text \<open>Calls one after the other, whatever they return, and the packets they have sent.\<close>

primrec run_ops :: "(op \<Rightarrow> 's \<Rightarrow> error option \<times> 's) \<Rightarrow> op list \<Rightarrow> 's \<Rightarrow> ControlPacket list \<times> 's" where
  "run_ops step [] s = ([], s)"
| "run_ops step (a # as) s = (case step a s of (err, s') \<Rightarrow>
     (case run_ops step as s' of (acc, s'') \<Rightarrow> (accepted a err @ acc, s'')))"

lemma run_ops_Cons:
  assumes "run_ops step (a # as) s = (acc, s')"
  obtains err s1 acc1 where "step a s = (err, s1)" "run_ops step as s1 = (acc1, s')"
    "acc = accepted a err @ acc1"
  using assms by (auto split: prod.splits)

locale packet_socket =
  fixes step :: "op \<Rightarrow> 's \<Rightarrow> error option \<times> 's"
    and wire :: "'s \<Rightarrow> bytes"
    and is_closed :: "'s \<Rightarrow> bool"
    and inv :: "'s \<Rightarrow> bool"
  assumes step_inv: "inv s \<Longrightarrow> inv (snd (step a s))"
    and step_closed: "is_closed s \<Longrightarrow> is_closed (snd (step a s))"
    and step_other: "\<not> is_OpSend a \<Longrightarrow> wire (snd (step a s)) = wire s"
    and send_ok: "inv s \<Longrightarrow> sendable m cp \<Longrightarrow> step (OpSend now lt cp) s = (None, s') \<Longrightarrow>
      \<not> is_closed s \<and> wire s' = wire s @ encode cp"
    and send_error: "inv s \<Longrightarrow> step (OpSend now lt cp) s = (Some err, s') \<Longrightarrow>
      \<exists>partial. wire s' = wire s @ partial \<and> (partial \<noteq> [] \<longrightarrow> \<not> is_closed s \<and> is_closed s')"
begin

abbreviation all_sendable :: "int \<Rightarrow> op list \<Rightarrow> bool" where
  "all_sendable m as \<equiv> \<forall>a \<in> set as. is_OpSend a \<longrightarrow> sendable m (op_packet a)"

text \<open>One call: what it adds to the wire.\<close>

lemma step_framed:
  assumes "inv s" and "is_OpSend a \<longrightarrow> sendable m (op_packet a)" and "step a s = (err, s')"
  shows "(\<exists>partial. wire s' = wire s @ concat (map encode (accepted a err)) @ partial \<and>
      (partial \<noteq> [] \<longrightarrow> is_closed s')) \<and>
    (is_closed s \<longrightarrow> wire s' = wire s \<and> accepted a err = [])"
proof (cases a)
  case (OpSend now lt cp)
  show ?thesis
  proof (cases err)
    case None
    with OpSend assms send_ok [of s m cp now lt s'] show ?thesis by (auto simp: accepted_def)
  next
    case (Some e)
    with OpSend assms(3) send_error [OF assms(1), of now lt cp e s'] show ?thesis
      by (auto simp: accepted_def)
  qed
qed (use step_other [of a s] assms(3) in \<open>auto simp: accepted_def\<close>)

lemma run_closed:
  assumes "run_ops step as s = (acc, s')" and "inv s" and "is_closed s" and "all_sendable m as"
  shows "acc = [] \<and> wire s' = wire s \<and> is_closed s'"
  using assms
proof (induction as arbitrary: s acc)
  case (Cons a as)
  from Cons.prems(1) obtain err s1 acc1 where s: "step a s = (err, s1)" "run_ops step as s1 = (acc1, s')"
    "acc = accepted a err @ acc1" by (rule run_ops_Cons)
  have "acc1 = [] \<and> wire s' = wire s1 \<and> is_closed s'"
    using Cons.IH [OF s(2)] Cons.prems step_inv [of s a] step_closed [of s a] s(1) by auto
  with step_framed [OF Cons.prems(2) _ s(1), of m] Cons.prems s(3) show ?case by auto
qed simp

text \<open>The wire holds whole packets, and a torn one at its end only if the socket is closed.\<close>

lemma run_framed:
  assumes "run_ops step as s = (acc, s')" and "inv s" and "all_sendable m as"
  shows "\<exists>partial. wire s' = wire s @ concat (map encode acc) @ partial \<and>
    (partial \<noteq> [] \<longrightarrow> is_closed s')"
  using assms
proof (induction as arbitrary: s acc)
  case (Cons a as)
  from Cons.prems(1) obtain err s1 acc1 where s: "step a s = (err, s1)" "run_ops step as s1 = (acc1, s')"
    "acc = accepted a err @ acc1" by (rule run_ops_Cons)
  have s1: "inv s1" using step_inv [OF Cons.prems(2), of a] s(1) by simp
  obtain p where p: "wire s1 = wire s @ concat (map encode (accepted a err)) @ p"
    "p \<noteq> [] \<longrightarrow> is_closed s1"
    using step_framed [OF Cons.prems(2) _ s(1), of m] Cons.prems(3) by auto
  show ?case
  proof (cases "p = []")
    case True
    with Cons.IH [OF s(2) s1] Cons.prems(3) p s(3) show ?thesis by auto
  next
    case False
    with run_closed [OF s(2) s1, of m] Cons.prems(3) p s(3) show ?thesis by auto
  qed
qed simp

lemma run_accepted: "run_ops step as s = (acc, s') \<Longrightarrow> set acc \<subseteq> op_packet ` {a \<in> set as. is_OpSend a}"
proof (induction as arbitrary: s acc)
  case (Cons a as)
  from Cons.prems obtain err s1 acc1 where s: "step a s = (err, s1)" "run_ops step as s1 = (acc1, s')"
    "acc = accepted a err @ acc1" by (rule run_ops_Cons)
  with Cons.IH [OF s(2)] show ?case by (auto simp: accepted_def split: if_splits)
qed simp

text \<open>So the peer of a socket that is still open reads exactly the accepted packets.\<close>

lemma run_read:
  assumes "run_ops step as s = (acc, s')" and "inv s" and "all_sendable m as"
    and "wire s = []" and "\<not> is_closed s'" and "data r = wire s'"
  shows "\<exists>r'. read_packets m (length acc) r = (Inr (map as_received acc), r') \<and> data r' = []"
proof -
  have "data r = concat (map encode acc)"
    using run_framed [OF assms(1-3)] assms(4-6) by auto
  moreover have "\<forall>cp \<in> set acc. sendable m cp"
    using run_accepted [OF assms(1)] assms(3) by auto
  ultimately show ?thesis
    using read_packets_stream [of acc m r "[]"] by auto
qed

end

end
