(* ===== verification/TcpSocket.thy ===== *)
theory TcpSocket
  imports PacketSocket
begin

text \<open>
  The socket of the TCP transport (\<^verbatim>\<open>transports/tcp/socket.go\<close>) over a connection of package
  \<^verbatim>\<open>net\<close>, plain or TLS. The lock \<^verbatim>\<open>wmu\<close> makes the writing part of \<^verbatim>\<open>Send\<close> atomic and the
  \<^verbatim>\<open>sync.Once\<close> makes \<^verbatim>\<open>Close\<close> take effect once. It is a \<open>packet_socket\<close>.
\<close>

section \<open>The socket\<close>

record tcpSocket =
  t_conn :: conn
  t_timeout :: int
  t_session :: Context
  t_closed :: bool
  t_closeErr :: "error option"

definition newSocket :: "conn \<Rightarrow> int \<Rightarrow> tcpSocket" where
  "newSocket c timeout =
     \<lparr>t_conn = c, t_timeout = timeout, t_session = NewSession, t_closed = False, t_closeErr = None\<rparr>"

definition tcpSocket_Recv ::
    "int \<Rightarrow> 'a callback option \<Rightarrow> tcpSocket \<Rightarrow> (error + 'a) \<times> tcpSocket" where
  "tcpSocket_Recv now fc t = (case fc of
      None \<Rightarrow> (Inl (NewError (lit ''tcp: nil recv callback'')), t)
    | Some f \<Rightarrow>
        (if t_closed t then (Inl ErrClosed, t)
         else case SetReadDeadline (deadline now (t_timeout t)) (t_conn t) of
           (Some err, c) \<Rightarrow> (Inl err, t\<lparr>t_conn := c\<rparr>)
         | (None, c) \<Rightarrow> (case f (incoming c) of (res, r) \<Rightarrow>
             (case res of
                Inl text \<Rightarrow> Inl (NewError (lit ''tcp: panic in recv: '' @ text))
              | Inr m \<Rightarrow> m,
              t\<lparr>t_conn := conn_read r c\<rparr>))))"

definition tcpSocket_Close :: "tcpSocket \<Rightarrow> error option \<times> tcpSocket" where
  "tcpSocket_Close t =
     (if t_closed t then (t_closeErr t, t)
      else (closeResult (t_conn t),
            t\<lparr>t_closed := True, t_closeErr := closeResult (t_conn t),
              t_conn := (t_conn t)\<lparr>connOpen := False\<rparr>\<rparr>))"

text \<open>The lazy server side handshake, driven by a \<^verbatim>\<open>Send\<close> that comes first.\<close>

definition tcpSocket_handshake :: "conn \<Rightarrow> error option \<times> conn" where
  "tcpSocket_handshake c =
     (if tlsState c = None then (None, c)
      else case pendingHandshake c of
        None \<Rightarrow> (None, c)
      | Some (Some err) \<Rightarrow> (Some err, c)
      | Some None \<Rightarrow> (None, c\<lparr>pendingHandshake := None\<rparr>))"

text \<open>The part of \<^verbatim>\<open>Send\<close> that runs under the write lock, and the whole.\<close>

definition tcpSocket_Send_locked :: "int \<Rightarrow> any \<Rightarrow> tcpSocket \<Rightarrow> error option \<times> tcpSocket" where
  "tcpSocket_Send_locked now m t = (case tcpSocket_handshake (t_conn t) of
      (Some err, c) \<Rightarrow> (Some err, t\<lparr>t_conn := c\<rparr>)
    | (None, c) \<Rightarrow>
        (case SetWriteDeadline (deadline now (t_timeout t)) c of
          (Some err, c) \<Rightarrow> (Some err, t\<lparr>t_conn := c\<rparr>)
        | (None, c) \<Rightarrow>
            (case Write_any (outgoing_wire c) m of
              None \<Rightarrow> (Some (NewError (lit ''tcp: panic in send: '')), t\<lparr>t_conn := c\<rparr>)
            | Some ((n, err), w) \<Rightarrow>
                (let t' = t\<lparr>t_conn := c\<lparr>outgoing_wire := w\<rparr>\<rparr>
                 in (err, if err \<noteq> None \<and> n > 0 then snd (tcpSocket_Close t') else t')))))"

definition tcpSocket_Send :: "int \<Rightarrow> any \<Rightarrow> tcpSocket \<Rightarrow> error option \<times> tcpSocket" where
  "tcpSocket_Send now m t =
     (if t_closed t then (Some ErrClosed, t) else tcpSocket_Send_locked now m t)"

definition tcpSocket_SetTimeOut :: "int \<Rightarrow> int \<Rightarrow> tcpSocket \<Rightarrow> tcpSocket" where
  "tcpSocket_SetTimeOut now duration t =
     (let dl = deadline now duration;
          c = snd (SetReadDeadline dl (t_conn t));
          c = snd (SetWriteDeadline dl c)
      in t\<lparr>t_timeout := duration, t_conn := c\<rparr>)"

definition tcpSocket_ConnectionState :: "tcpSocket \<Rightarrow> ConnectionState option" where
  "tcpSocket_ConnectionState t = (case tlsState (t_conn t) of
      Some tmp \<Rightarrow> if pendingHandshake (t_conn t) \<noteq> None then None else Some tmp
    | None \<Rightarrow> None)"

definition tcpSocket_Local :: "tcpSocket \<Rightarrow> gostring" where
  "tcpSocket_Local t = localAddr (t_conn t)"

definition tcpSocket_Remote :: "tcpSocket \<Rightarrow> gostring" where
  "tcpSocket_Remote t = remoteAddr (t_conn t)"

section \<open>The TCP socket is a packet socket\<close>

text \<open>The calls of the interface.\<close>

fun tcp_op :: "op \<Rightarrow> tcpSocket \<Rightarrow> error option \<times> tcpSocket" where
  "tcp_op (OpSend now lt cp) t =
     (if lt then tcpSocket_Send_locked now (packet_any cp) t else tcpSocket_Send now (packet_any cp) t)"
| "tcp_op (OpRecv now m) t = (case tcpSocket_Recv now (Some (read_packet m)) t of (res, t') \<Rightarrow>
     (case res of Inl err \<Rightarrow> Some err | Inr _ \<Rightarrow> None, t'))"
| "tcp_op (OpSetTimeOut now d) t = (None, tcpSocket_SetTimeOut now d t)"
| "tcp_op (OpClose now) t = tcpSocket_Close t"

text \<open>A closed socket has closed its connection.\<close>

definition tcp_inv :: "tcpSocket \<Rightarrow> bool" where
  "tcp_inv t \<longleftrightarrow> (t_closed t \<longrightarrow> \<not> connOpen (t_conn t))"

abbreviation tcp_wire :: "tcpSocket \<Rightarrow> bytes" where
  "tcp_wire t \<equiv> sent (outgoing_wire (t_conn t))"

lemma tcpSocket_Close_simps [simp]:
  "t_closed (snd (tcpSocket_Close t))"
  "outgoing_wire (t_conn (snd (tcpSocket_Close t))) = outgoing_wire (t_conn t)"
  "tcp_inv t \<Longrightarrow> tcp_inv (snd (tcpSocket_Close t))"
  by (simp_all add: tcpSocket_Close_def tcp_inv_def)

lemma tcpSocket_handshake_simps [simp]:
  "outgoing_wire (snd (tcpSocket_handshake c)) = outgoing_wire c"
  "connOpen (snd (tcpSocket_handshake c)) = connOpen c"
  by (simp_all add: tcpSocket_handshake_def split: option.splits)

text \<open>Either the send stops before the write, or it is the write's result.\<close>

lemma tcpSocket_Send_locked_cases:
  assumes "tcpSocket_Send_locked now (packet_any cp) t = (err, t')"
  obtains (stopped) c e where "err = Some e" "t' = t\<lparr>t_conn := c\<rparr>"
      "outgoing_wire c = outgoing_wire (t_conn t)" "connOpen c = connOpen (t_conn t)"
  | (through) c n w where "connOpen (t_conn t)" "connOpen c"
      "WriteTo cp (outgoing_wire (t_conn t)) = Some ((n, err), w)"
      "t' = (let t1 = t\<lparr>t_conn := c\<lparr>outgoing_wire := w\<rparr>\<rparr>
        in if err \<noteq> None \<and> n > 0 then snd (tcpSocket_Close t1) else t1)"
proof -
  obtain e1 c1 where h: "tcpSocket_handshake (t_conn t) = (e1, c1)"
    by (cases "tcpSocket_handshake (t_conn t)")
  obtain e2 c2 where d: "SetWriteDeadline (deadline now (t_timeout t)) c1 = (e2, c2)"
    by (cases "SetWriteDeadline (deadline now (t_timeout t)) c1")
  have c1: "outgoing_wire c1 = outgoing_wire (t_conn t)" "connOpen c1 = connOpen (t_conn t)"
    using tcpSocket_handshake_simps [of "t_conn t"] h by simp_all
  have c2: "outgoing_wire c2 = outgoing_wire (t_conn t)" "connOpen c2 = connOpen (t_conn t)"
    using deadline_simps [of "deadline now (t_timeout t)" c1] d c1 by simp_all
  obtain n er wr where wt: "WriteTo cp (outgoing_wire (t_conn t)) = Some ((n, er), wr)"
    using WriteTo_returns [of cp "outgoing_wire (t_conn t)"] by (metis not_None_eq prod.collapse)
  show thesis
  proof (cases e1)
    case None
    show thesis
    proof (cases e2)
      case None
      then have "connOpen c1" using d by (simp add: SetWriteDeadline_def split: if_splits)
      with \<open>e1 = None\<close> None show thesis
        using assms h d wt c1 c2 by (intro that(2) [of c2 n wr]) (auto simp: tcpSocket_Send_locked_def Let_def)
    qed (use assms h d c2 None in \<open>auto simp: tcpSocket_Send_locked_def intro: that(1)\<close>)
  qed (use assms h c1 in \<open>auto simp: tcpSocket_Send_locked_def intro: that(1)\<close>)
qed

lemma tcp_op_closed: "t_closed t \<Longrightarrow> t_closed (snd (tcp_op a t))"
  by (cases a) (auto simp: tcpSocket_Send_def tcpSocket_Send_locked_def tcpSocket_Recv_def
      tcpSocket_SetTimeOut_def tcpSocket_Close_def Let_def split: prod.splits option.splits sum.splits)

lemma tcp_op_other: "\<not> is_OpSend a \<Longrightarrow> tcp_wire (snd (tcp_op a t)) = tcp_wire t"
  by (cases a) (auto simp: tcpSocket_Recv_def tcpSocket_SetTimeOut_def SetReadDeadline_def Let_def
      split: prod.splits option.splits sum.splits if_splits)

lemma tcp_inv_Send_locked:
  assumes "tcp_inv t"
  shows "tcp_inv (snd (tcpSocket_Send_locked now (packet_any cp) t))"
proof -
  obtain err t' where s: "tcpSocket_Send_locked now (packet_any cp) t = (err, t')" by fastforce
  then have "tcp_inv t'"
    by (cases rule: tcpSocket_Send_locked_cases)
      (use assms in \<open>auto simp: tcp_inv_def Let_def tcpSocket_Close_def\<close>)
  with s show ?thesis by simp
qed

lemma tcp_inv_op:
  assumes "tcp_inv t"
  shows "tcp_inv (snd (tcp_op a t))"
proof (cases a)
  case (OpSend now lt cp)
  then show ?thesis using assms tcp_inv_Send_locked [OF assms] by (auto simp: tcpSocket_Send_def)
next
  case (OpRecv now m)
  then show ?thesis
    using assms by (auto simp: tcpSocket_Recv_def tcp_inv_def SetReadDeadline_def
        split: prod.splits sum.splits if_splits)
qed (use assms in \<open>auto simp: tcp_inv_def tcpSocket_SetTimeOut_def Let_def tcpSocket_Close_def\<close>)

interpretation tcp: packet_socket tcp_op tcp_wire t_closed tcp_inv
proof
  fix m now lt cp t t'
  assume t: "tcp_inv t" and s: "sendable m cp" and ok: "tcp_op (OpSend now lt cp) t = (None, t')"
  then have "tcpSocket_Send_locked now (packet_any cp) t = (None, t')"
    by (auto simp: tcpSocket_Send_def split: if_splits)
  then show "\<not> t_closed t \<and> tcp_wire t' = tcp_wire t @ encode cp"
  proof (cases rule: tcpSocket_Send_locked_cases)
    case (through c n w)
    with WriteTo_whole [OF through(3) s] t show ?thesis by (auto simp: tcp_inv_def)
  qed simp
next
  fix now lt cp t err t'
  assume t: "tcp_inv t" and e: "tcp_op (OpSend now lt cp) t = (Some err, t')"
  show "\<exists>partial. tcp_wire t' = tcp_wire t @ partial \<and> (partial \<noteq> [] \<longrightarrow> \<not> t_closed t \<and> t_closed t')"
  proof (cases "\<not> lt \<and> t_closed t")
    case False
    then have "tcpSocket_Send_locked now (packet_any cp) t = (Some err, t')"
      using e by (auto simp: tcpSocket_Send_def split: if_splits)
    then show ?thesis
    proof (cases rule: tcpSocket_Send_locked_cases)
      case (through c n w)
      with WriteTo_part [OF through(3)] t show ?thesis
        by (auto simp: tcp_inv_def Let_def split: if_splits)
    qed auto
  qed (use e in \<open>auto simp: tcpSocket_Send_def\<close>)
qed (auto intro: tcp_op_closed tcp_op_other tcp_inv_op)

text \<open>Closing is final and idempotent.\<close>

lemma tcpSocket_Recv_closed:
  "t_closed t \<Longrightarrow> tcpSocket_Recv now (Some f) t = (Inl ErrClosed, t)"
  by (simp add: tcpSocket_Recv_def)

lemma tcpSocket_Close_twice:
  "tcpSocket_Close (snd (tcpSocket_Close t)) = tcpSocket_Close t"
  by (simp add: tcpSocket_Close_def)

section \<open>Properties\<close>

definition sample_conn :: conn where
  "sample_conn = \<lparr>incoming = buffer [], outgoing_wire = newBuffer, connOpen = True,
     closeResult = None, readDeadline = None, writeDeadline = None, tlsState = None,
     pendingHandshake = None, localAddr = [], remoteAddr = []\<rparr>"

text \<open>
  C24: framing on the wire. Whatever calls of \<^verbatim>\<open>Send\<close>, \<^verbatim>\<open>Recv\<close>, \<^verbatim>\<open>SetTimeOut\<close> and \<^verbatim>\<open>Close\<close> a
  socket gets, at whatever times, also sends that have passed the check of the closed flag
  before another call closed the socket, and however much the connection accepts of each packet:
  the bytes written are the whole encodings of the packets whose send returned nil, in order,
  followed by a torn packet only if the socket is closed by then. If it is still open, any
  reader of those bytes gets exactly these packets.
\<close>

theorem tcp_framing:
  assumes "\<forall>a \<in> set as. is_OpSend a \<longrightarrow> sendable m (op_packet a)"
    and "run_ops tcp_op as (newSocket c timeout) = (acc, t')" and "sent (outgoing_wire c) = []"
  shows "(\<exists>partial. sent (outgoing_wire (t_conn t')) = concat (map encode acc) @ partial \<and>
      (partial \<noteq> [] \<longrightarrow> t_closed t')) \<and>
    (\<forall>r. \<not> t_closed t' \<and> data r = sent (outgoing_wire (t_conn t')) \<longrightarrow>
      (\<exists>r'. read_packets m (length acc) r = (Inr (map as_received acc), r') \<and> data r' = []))"
proof -
  have "tcp_inv (newSocket c timeout)" and "tcp_wire (newSocket c timeout) = []"
    using assms(3) by (simp_all add: tcp_inv_def newSocket_def)
  with tcp.run_framed [OF assms(2) _ assms(1)] tcp.run_read [OF assms(2) _ assms(1)] show ?thesis
    by auto
qed

theorem tcp_framing_witness:
  "\<exists>partial. sent (outgoing_wire (t_conn (snd (run_ops tcp_op
      [OpSetTimeOut 3 5, OpSend 4 False (PingreqP \<lparr>pingreq_FixedHeader = zeroHeader Pingreq 0\<rparr>)]
      (newSocket sample_conn 0))))) =
    concat (map encode (fst (run_ops tcp_op
      [OpSetTimeOut 3 5, OpSend 4 False (PingreqP \<lparr>pingreq_FixedHeader = zeroHeader Pingreq 0\<rparr>)]
      (newSocket sample_conn 0)))) @ partial"
proof -
  let ?as = "[OpSetTimeOut 3 5, OpSend 4 False (PingreqP \<lparr>pingreq_FixedHeader = zeroHeader Pingreq 0\<rparr>)]"
  have "\<forall>a \<in> set ?as. is_OpSend a \<longrightarrow> sendable 0 (op_packet a)"
    by (simp add: sendable_def control_wf_def header_ok_def zeroHeader_def clampLimit_def
        MaxRemainingLength_def)
  moreover have "sent (outgoing_wire sample_conn) = []"
    by (simp add: sample_conn_def newBuffer_def sent_def)
  ultimately show ?thesis
    using tcp_framing [where m = 0 and as = ?as and c = sample_conn and timeout = 0,
        OF _ surjective_pairing] by blast
qed

text \<open>
  Closing. After \<^verbatim>\<open>Close\<close>, \<^verbatim>\<open>Send\<close> and \<^verbatim>\<open>Recv\<close> return \<open>ErrClosed\<close> and change nothing,
  and closing again returns the first result and changes nothing.
\<close>

theorem tcp_closed:
  assumes "tcpSocket_Close t = (res, t')"
  shows "tcpSocket_Send now v t' = (Some ErrClosed, t') \<and>
    tcpSocket_Recv now (Some f) t' = (Inl ErrClosed, t') \<and> tcpSocket_Close t' = (res, t')"
proof -
  have "t_closed t'" using tcpSocket_Close_simps(1) [of t] assms by simp
  moreover have "tcpSocket_Close t' = tcpSocket_Close t"
    using tcpSocket_Close_twice [of t] assms by simp
  ultimately show ?thesis
    using assms by (simp add: tcpSocket_Send_def tcpSocket_Recv_def)
qed

theorem tcp_closed_witness:
  "fst (tcpSocket_Send 0 NilV (snd (tcpSocket_Close (newSocket sample_conn 5)))) = Some ErrClosed"
  using tcp_closed [OF surjective_pairing, of 0 NilV "newSocket sample_conn 5"
      "\<lambda>r. (Inr (Inr ()), r)"] by simp

end
