(* ===== verification/Options.thy ===== *)
theory Options
  imports Prelude
begin

text \<open>
  Options of the transports (\<^verbatim>\<open>options.go\<close>, \<^verbatim>\<open>dial.go\<close>): records changed by a list of option
  functions. Of a \<^verbatim>\<open>tls.Config\<close> only the protocol list is looked at; the rest is opaque. A
  \<^verbatim>\<open>context.Context\<close> is the chain of the values put into it, the innermost first. Durations
  are nanoseconds.
\<close>

section \<open>Durations\<close>

definition second_ns :: int where
  "second_ns = 1000000000"

definition millisecond_ns :: int where
  "millisecond_ns = 1000000"

definition minute_ns :: int where
  "minute_ns = 60 * second_ns"

section \<open>Options\<close>

record tls_config =
  NextProtos :: "gostring list"
  tls_other :: nat

text \<open>The keys of a context: the one of the WebSocket subprotocols, and others.\<close>

datatype context_key = subprotocolsKey | other_key nat

datatype context_value = StringSlice "gostring list" | other_value nat

type_synonym go_context = "(context_key \<times> context_value) list"

definition context_Background :: go_context where
  "context_Background = []"

definition context_WithValue :: "go_context \<Rightarrow> context_key \<Rightarrow> context_value \<Rightarrow> go_context" where
  "context_WithValue ctx k v = (k, v) # ctx"

definition context_Value :: "go_context \<Rightarrow> context_key \<Rightarrow> context_value option" where
  "context_Value ctx k = map_of ctx k"

record Options =
  o_Addrs :: "gostring list"
  o_Secure :: bool
  o_TLSConfig :: "tls_config option"
  o_Timeout :: int
  o_Context :: "go_context option"

type_synonym Option = "Options \<Rightarrow> Options"

definition Addrs :: "gostring list \<Rightarrow> Option" where
  "Addrs addrs opt = opt\<lparr>o_Addrs := addrs\<rparr>"

definition Timeout :: "int \<Rightarrow> Option" where
  "Timeout d opt = opt\<lparr>o_Timeout := d\<rparr>"

definition Secure :: "bool \<Rightarrow> Option" where
  "Secure b opt = opt\<lparr>o_Secure := b\<rparr>"

definition TLSConfig :: "tls_config option \<Rightarrow> Option" where
  "TLSConfig c opt = opt\<lparr>o_TLSConfig := c\<rparr>"

definition zeroOptions :: Options where
  "zeroOptions = \<lparr>o_Addrs = [], o_Secure = False, o_TLSConfig = None, o_Timeout = 0, o_Context = None\<rparr>"

record DialOptions =
  d_Stream :: bool
  d_Timeout :: int
  d_Context :: "go_context option"

type_synonym DialOption = "DialOptions \<Rightarrow> DialOptions"

definition WithStream :: DialOption where
  "WithStream opt = opt\<lparr>d_Stream := True\<rparr>"

definition WithTimeout :: "int \<Rightarrow> DialOption" where
  "WithTimeout d opt = opt\<lparr>d_Timeout := d\<rparr>"

text \<open>The dial options every \<^verbatim>\<open>Dial\<close> starts from.\<close>

definition defaultDialOptions :: DialOptions where
  "defaultDialOptions = \<lparr>d_Stream = False, d_Timeout = 5 * second_ns, d_Context = None\<rparr>"

text \<open>The loops \<^verbatim>\<open>for _, o := range opts { o(&options) }\<close>.\<close>

fun apply_options :: "('o \<Rightarrow> 'o) list \<Rightarrow> 'o \<Rightarrow> 'o" where
  "apply_options [] opt = opt"
| "apply_options (f # fs) opt = apply_options fs (f opt)"

lemma apply_options_append: "apply_options (fs @ gs) opt = apply_options gs (apply_options fs opt)"
  by (induction fs arbitrary: opt) simp_all

definition sample_tls :: tls_config where
  "sample_tls = \<lparr>NextProtos = [], tls_other = 1\<rparr>"

end
