(* ===== verification/QuicSocket.thy ===== *)
theory QuicSocket
  imports PacketSocket Options
begin

text \<open>
  The socket of the QUIC transport (\<^verbatim>\<open>transports/quic/socket.go\<close>). Streams and connections are
  those of the package \<^verbatim>\<open>quic-go\<close>, which is a parameter: the operations on a stream of some
  type \<open>'st\<close>, and what the socket relies on, as the predicate \<open>stream_laws\<close>. Under these laws
  the socket is a \<open>packet_socket\<close>.
\<close>

section \<open>Streams\<close>

text \<open>
  The methods of \<^verbatim>\<open>quic.Stream\<close>. A stream is an \<^verbatim>\<open>io.Reader\<close> and an \<^verbatim>\<open>io.Writer\<close>: \<open>s_reader\<close>
  and \<open>s_writer\<close> are these views of it, \<open>s_read\<close> and \<open>s_wrote\<close> put them back after use.
\<close>

record 'st stream_ops =
  s_SetReadDeadline :: "int option \<Rightarrow> 'st \<Rightarrow> error option \<times> 'st"
  s_SetWriteDeadline :: "int option \<Rightarrow> 'st \<Rightarrow> error option \<times> 'st"
  s_Close :: "'st \<Rightarrow> error option \<times> 'st"
  s_CancelRead :: "'st \<Rightarrow> 'st"
  s_reader :: "'st \<Rightarrow> reader"
  s_read :: "reader \<Rightarrow> 'st \<Rightarrow> 'st"
  s_writer :: "'st \<Rightarrow> writer"
  s_wrote :: "writer \<Rightarrow> 'st \<Rightarrow> 'st"

text \<open>
  What a stream that was closed, \<open>shut\<close>, does: it stays so, and refuses to write. What was
  written before stays written, whatever is called.
\<close>

definition stream_laws :: "'st stream_ops \<Rightarrow> ('st \<Rightarrow> bool) \<Rightarrow> bool" where
  "stream_laws q shut \<longleftrightarrow>
     (\<forall>d st. sent (s_writer q (snd (s_SetReadDeadline q d st))) = sent (s_writer q st) \<and>
        shut (snd (s_SetReadDeadline q d st)) = shut st) \<and>
     (\<forall>d st. sent (s_writer q (snd (s_SetWriteDeadline q d st))) = sent (s_writer q st) \<and>
        shut (snd (s_SetWriteDeadline q d st)) = shut st) \<and>
     (\<forall>st. sent (s_writer q (snd (s_Close q st))) = sent (s_writer q st) \<and> shut (snd (s_Close q st))) \<and>
     (\<forall>st. sent (s_writer q (s_CancelRead q st)) = sent (s_writer q st) \<and>
        shut (s_CancelRead q st) = shut st) \<and>
     (\<forall>r st. sent (s_writer q (s_read q r st)) = sent (s_writer q st) \<and> shut (s_read q r st) = shut st) \<and>
     (\<forall>w st. sent (s_writer q (s_wrote q w st)) = sent w \<and> shut (s_wrote q w st) = shut st) \<and>
     (\<forall>st b. shut st \<and> b \<noteq> [] \<longrightarrow> fst (fst (Write (s_writer q st) b)) = 0)"

section \<open>The socket\<close>

text \<open>
  \<open>q_linger\<close> is the time at which the goroutine started by \<^verbatim>\<open>Close\<close> tears the connection down,
  \<open>q_gone\<close> whether it has.
\<close>

record ('c, 'st) quicSocket =
  q_conn :: 'c
  q_stream :: 'st
  q_timeout :: int
  q_session :: Context
  q_closed :: bool
  q_closeErr :: "error option"
  q_linger :: "int option"
  q_gone :: bool

definition quic_newSocket :: "'c \<Rightarrow> 'st \<Rightarrow> int \<Rightarrow> ('c, 'st) quicSocket" where
  "quic_newSocket c stream timeout = \<lparr>q_conn = c, q_stream = stream, q_timeout = timeout,
     q_session = NewSession, q_closed = False, q_closeErr = None, q_linger = None, q_gone = False\<rparr>"

definition closeGracePeriod :: int where
  "closeGracePeriod = 3 * second_ns"

definition quicSocket_Close ::
    "'st stream_ops \<Rightarrow> int \<Rightarrow> ('c, 'st) quicSocket \<Rightarrow> error option \<times> ('c, 'st) quicSocket" where
  "quicSocket_Close q now t =
     (if q_closed t then (q_closeErr t, t)
      else case s_Close q (q_stream t) of (err, st) \<Rightarrow>
        (err, t\<lparr>q_closed := True, q_closeErr := err, q_stream := s_CancelRead q st,
           q_linger := Some (now + closeGracePeriod)\<rparr>))"

text \<open>The goroutine that \<^verbatim>\<open>Close\<close> leaves behind, woken by the timer or the end of the connection.\<close>

definition quicSocket_teardown :: "int \<Rightarrow> bool \<Rightarrow> ('c, 'st) quicSocket \<Rightarrow> ('c, 'st) quicSocket" where
  "quicSocket_teardown now ended t = (case q_linger t of
      None \<Rightarrow> t
    | Some tm \<Rightarrow> if ended \<or> tm \<le> now then t\<lparr>q_linger := None, q_gone := True\<rparr> else t)"

text \<open>\<open>closes\<close> tells whether another goroutine calls \<^verbatim>\<open>Close\<close> while the callback runs.\<close>

definition quicSocket_Recv ::
    "'st stream_ops \<Rightarrow> int \<Rightarrow> bool \<Rightarrow> 'a callback option \<Rightarrow> ('c, 'st) quicSocket \<Rightarrow>
     (error + 'a) \<times> ('c, 'st) quicSocket" where
  "quicSocket_Recv q now closes fc t = (case fc of
      None \<Rightarrow> (Inl (NewError (lit ''quic: nil recv callback'')), t)
    | Some f \<Rightarrow>
        (if q_closed t then (Inl ErrClosed, t)
         else case s_SetReadDeadline q (deadline now (q_timeout t)) (q_stream t) of
           (Some err, st) \<Rightarrow> (Inl err, t\<lparr>q_stream := st\<rparr>)
         | (None, st) \<Rightarrow> (case f (s_reader q st) of (res, r) \<Rightarrow>
             (let t' = t\<lparr>q_stream := s_read q r st\<rparr>;
                  t' = (if closes then snd (quicSocket_Close q now t') else t')
              in (case res of
                    Inl text \<Rightarrow> Inl (NewError (lit ''quic: panic in recv: '' @ text))
                  | Inr (Inl err) \<Rightarrow>
                      Inl (if \<not> errors_Is err EOF \<and> q_closed t' then ErrClosed else err)
                  | Inr (Inr m) \<Rightarrow> Inr m, t')))))"

text \<open>The part of \<^verbatim>\<open>Send\<close> that runs under the write lock, and the whole.\<close>

definition quicSocket_Send_locked ::
    "'st stream_ops \<Rightarrow> int \<Rightarrow> any \<Rightarrow> ('c, 'st) quicSocket \<Rightarrow> error option \<times> ('c, 'st) quicSocket" where
  "quicSocket_Send_locked q now m t =
     (case s_SetWriteDeadline q (deadline now (q_timeout t)) (q_stream t) of
        (Some err, st) \<Rightarrow> (Some err, t\<lparr>q_stream := st\<rparr>)
      | (None, st) \<Rightarrow>
          (case Write_any (s_writer q st) m of
            None \<Rightarrow> (Some (NewError (lit ''quic: panic in send: '')), t\<lparr>q_stream := st\<rparr>)
          | Some ((n, err), w) \<Rightarrow>
              (let t' = t\<lparr>q_stream := s_wrote q w st\<rparr>
               in (err, if err \<noteq> None \<and> n > 0 then snd (quicSocket_Close q now t') else t'))))"

definition quicSocket_Send ::
    "'st stream_ops \<Rightarrow> int \<Rightarrow> any \<Rightarrow> ('c, 'st) quicSocket \<Rightarrow> error option \<times> ('c, 'st) quicSocket" where
  "quicSocket_Send q now m t =
     (if q_closed t then (Some ErrClosed, t) else quicSocket_Send_locked q now m t)"

definition quicSocket_SetTimeOut :: "'st stream_ops \<Rightarrow> int \<Rightarrow> int \<Rightarrow> ('c, 'st) quicSocket \<Rightarrow> ('c, 'st) quicSocket" where
  "quicSocket_SetTimeOut q now duration t =
     (let dl = deadline now duration;
          st = snd (s_SetReadDeadline q dl (q_stream t));
          st = snd (s_SetWriteDeadline q dl st)
      in t\<lparr>q_timeout := duration, q_stream := st\<rparr>)"

text \<open>What the socket tells of its connection, given what \<^verbatim>\<open>quic-go\<close> tells of it.\<close>

definition quicSocket_ConnectionState ::
    "('c \<Rightarrow> ConnectionState) \<Rightarrow> ('c, 'st) quicSocket \<Rightarrow> ConnectionState option" where
  "quicSocket_ConnectionState tls t = Some (tls (q_conn t))"

definition quicSocket_Local :: "('c \<Rightarrow> gostring) \<Rightarrow> ('c, 'st) quicSocket \<Rightarrow> gostring" where
  "quicSocket_Local local_addr t = local_addr (q_conn t)"

definition quicSocket_Remote :: "('c \<Rightarrow> gostring) \<Rightarrow> ('c, 'st) quicSocket \<Rightarrow> gostring" where
  "quicSocket_Remote remote_addr t = remote_addr (q_conn t)"

section \<open>The QUIC socket is a packet socket\<close>

fun quic_op :: "'st stream_ops \<Rightarrow> op \<Rightarrow> ('c, 'st) quicSocket \<Rightarrow> error option \<times> ('c, 'st) quicSocket" where
  "quic_op q (OpSend now lt cp) t =
     (if lt then quicSocket_Send_locked q now (packet_any cp) t
      else quicSocket_Send q now (packet_any cp) t)"
| "quic_op q (OpRecv now m) t =
     (case quicSocket_Recv q now False (Some (read_packet m)) t of (res, t') \<Rightarrow>
        (case res of Inl err \<Rightarrow> Some err | Inr _ \<Rightarrow> None, t'))"
| "quic_op q (OpSetTimeOut now d) t = (None, quicSocket_SetTimeOut q now d t)"
| "quic_op q (OpClose now) t = quicSocket_Close q now t"

text \<open>A closed socket has closed its stream.\<close>

definition quic_inv :: "('st \<Rightarrow> bool) \<Rightarrow> ('c, 'st) quicSocket \<Rightarrow> bool" where
  "quic_inv shut t \<longleftrightarrow> (q_closed t \<longrightarrow> shut (q_stream t))"

abbreviation quic_wire :: "'st stream_ops \<Rightarrow> ('c, 'st) quicSocket \<Rightarrow> bytes" where
  "quic_wire q t \<equiv> sent (s_writer q (q_stream t))"

lemma stream_lawsD:
  assumes "stream_laws q shut"
  shows "s_SetReadDeadline q d st = (e, st') \<Longrightarrow>
      sent (s_writer q st') = sent (s_writer q st) \<and> shut st' = shut st"
    "s_SetWriteDeadline q d st = (e, st') \<Longrightarrow>
      sent (s_writer q st') = sent (s_writer q st) \<and> shut st' = shut st"
    "s_Close q st = (e, st') \<Longrightarrow> sent (s_writer q st') = sent (s_writer q st) \<and> shut st'"
    "shut st \<Longrightarrow> b \<noteq> [] \<Longrightarrow> fst (fst (Write (s_writer q st) b)) = 0"
  using assms unfolding stream_laws_def by (metis snd_conv)+

lemma stream_laws_simps:
  assumes "stream_laws q shut"
  shows "sent (s_writer q (s_CancelRead q st)) = sent (s_writer q st)"
    "shut (s_CancelRead q st) = shut st"
    "sent (s_writer q (s_read q r st)) = sent (s_writer q st)" "shut (s_read q r st) = shut st"
    "sent (s_writer q (s_wrote q w st)) = sent w" "shut (s_wrote q w st) = shut st"
    "sent (s_writer q (snd (s_SetReadDeadline q d st))) = sent (s_writer q st)"
    "shut (snd (s_SetReadDeadline q d st)) = shut st"
    "sent (s_writer q (snd (s_SetWriteDeadline q d st))) = sent (s_writer q st)"
    "shut (snd (s_SetWriteDeadline q d st)) = shut st"
  using assms by (simp_all add: stream_laws_def)

lemma quicSocket_Close_simps:
  assumes "stream_laws q shut"
  shows "q_closed (snd (quicSocket_Close q now t))"
    "quic_wire q (snd (quicSocket_Close q now t)) = quic_wire q t"
    "quic_inv shut t \<Longrightarrow> quic_inv shut (snd (quicSocket_Close q now t))"
  by (auto simp: quicSocket_Close_def quic_inv_def stream_laws_simps [OF assms] split: prod.splits
      dest: stream_lawsD(3) [OF assms])

text \<open>Either the send stops before the write, or it is the write's result.\<close>

lemma quicSocket_Send_locked_cases:
  assumes "stream_laws q shut" and "quicSocket_Send_locked q now (packet_any cp) t = (err, t')"
  obtains (stopped) st e where "err = Some e" "t' = t\<lparr>q_stream := st\<rparr>"
      "sent (s_writer q st) = quic_wire q t" "shut st = shut (q_stream t)"
  | (through) st n w where "shut st = shut (q_stream t)"
      "WriteTo cp (s_writer q st) = Some ((n, err), w)" "sent (s_writer q st) = quic_wire q t"
      "t' = (let t1 = t\<lparr>q_stream := s_wrote q w st\<rparr>
        in if err \<noteq> None \<and> n > 0 then snd (quicSocket_Close q now t1) else t1)"
proof -
  obtain e st where d: "s_SetWriteDeadline q (deadline now (q_timeout t)) (q_stream t) = (e, st)"
    by (cases "s_SetWriteDeadline q (deadline now (q_timeout t)) (q_stream t)")
  have st: "sent (s_writer q st) = quic_wire q t" "shut st = shut (q_stream t)"
    using stream_lawsD(2) [OF assms(1) d] by simp_all
  obtain n er wr where wt: "WriteTo cp (s_writer q st) = Some ((n, er), wr)"
    using WriteTo_returns [of cp "s_writer q st"] by (metis not_None_eq prod.collapse)
  show thesis
  proof (cases e)
    case None
    with assms(2) d wt st show thesis
      by (intro that(2) [of st n wr]) (auto simp: quicSocket_Send_locked_def Let_def)
  qed (use assms(2) d st in \<open>auto simp: quicSocket_Send_locked_def intro: that(1)\<close>)
qed

text \<open>A send on a stream that is shut writes nothing and fails.\<close>

lemma WriteTo_shut:
  assumes "stream_laws q shut" and "shut st" and "WriteTo cp (s_writer q st) = Some ((n, err), w)"
  shows "err \<noteq> None \<and> sent w = sent (s_writer q st)"
proof -
  consider e where "err = Some e" "w = s_writer q st"
    | content where "Write (s_writer q st) (frame (fixedHeader cp) content) = ((n, err), w)"
    using WriteTo_once [of "s_writer q st" cp] assms(3) by (auto simp: writes_once_def)
  then show ?thesis
  proof cases
    case (2 content)
    have "frame (fixedHeader cp) content \<noteq> []" by (simp add: frame_def)
    from stream_lawsD(4) [OF assms(1,2) this] 2 have "n = 0" by simp
    with Write_sent [OF 2] Write_error_iff [OF 2] show ?thesis by (auto simp: frame_def)
  qed simp
qed

lemma quic_inv_Send_locked:
  assumes laws: "stream_laws q shut" and t: "quic_inv shut t"
  shows "quic_inv shut (snd (quicSocket_Send_locked q now (packet_any cp) t))"
proof -
  obtain err t' where s: "quicSocket_Send_locked q now (packet_any cp) t = (err, t')" by fastforce
  with laws have "quic_inv shut t'"
    by (cases rule: quicSocket_Send_locked_cases)
      (use t in \<open>auto simp: quic_inv_def Let_def stream_laws_simps [OF laws]
        quicSocket_Close_simps [OF laws, unfolded quic_inv_def]\<close>)
  with s show ?thesis by simp
qed

lemma quic_inv_op:
  assumes laws: "stream_laws q shut" and t: "quic_inv shut t"
  shows "quic_inv shut (snd (quic_op q a t))"
proof (cases a)
  case (OpSend now lt cp)
  then show ?thesis using quic_inv_Send_locked [OF assms] t by (auto simp: quicSocket_Send_def)
next
  case (OpRecv now m)
  then show ?thesis
    using t by (auto simp: quicSocket_Recv_def quic_inv_def Let_def stream_laws_simps [OF laws]
        split: prod.splits option.splits)
next
  case (OpSetTimeOut now d)
  then show ?thesis
    using t by (auto simp: quicSocket_SetTimeOut_def quic_inv_def Let_def stream_laws_simps [OF laws])
next
  case (OpClose now)
  then show ?thesis using quicSocket_Close_simps(3) [OF laws t] by simp
qed

lemma quic_op_closed: "q_closed t \<Longrightarrow> q_closed (snd (quic_op q a t))"
  by (cases a) (auto simp: quicSocket_Send_def quicSocket_Send_locked_def quicSocket_Recv_def
      quicSocket_SetTimeOut_def quicSocket_Close_def Let_def
      split: prod.splits option.splits sum.splits)

lemma quic_op_other:
  assumes laws: "stream_laws q shut" and "\<not> is_OpSend a"
  shows "quic_wire q (snd (quic_op q a t)) = quic_wire q t"
  using assms(2)
proof (cases a)
  case (OpRecv now m)
  then show ?thesis
    by (auto simp: quicSocket_Recv_def Let_def stream_laws_simps [OF laws]
        split: prod.splits option.splits dest: stream_lawsD(1) [OF laws])
qed (auto simp: quicSocket_SetTimeOut_def Let_def stream_laws_simps [OF laws] quicSocket_Close_simps [OF laws])

text \<open>A send that returns nil wrote the packet, any other at most a part of it.\<close>

lemma quic_op_sent:
  assumes laws: "stream_laws q shut" and t: "quic_inv shut t" and s: "sendable m cp"
    and ok: "quic_op q (OpSend now lt cp) t = (None, t')"
  shows "\<not> q_closed t \<and> quic_wire q t' = quic_wire q t @ encode cp"
proof -
  have "quicSocket_Send_locked q now (packet_any cp) t = (None, t')"
    using ok by (auto simp: quicSocket_Send_def split: if_splits)
  with laws show ?thesis
  proof (cases rule: quicSocket_Send_locked_cases)
    case (through st n w)
    with WriteTo_whole [OF through(2) s] WriteTo_shut [OF laws _ through(2)] t show ?thesis
      by (auto simp: quic_inv_def stream_laws_simps [OF laws])
  qed simp
qed

lemma quic_op_failed:
  assumes laws: "stream_laws q shut" and t: "quic_inv shut t"
    and e: "quic_op q (OpSend now lt cp) t = (Some err, t')"
  shows "\<exists>partial. quic_wire q t' = quic_wire q t @ partial \<and>
    (partial \<noteq> [] \<longrightarrow> \<not> q_closed t \<and> q_closed t')"
proof (cases "\<not> lt \<and> q_closed t")
  case False
  then have "quicSocket_Send_locked q now (packet_any cp) t = (Some err, t')"
    using e by (auto simp: quicSocket_Send_def split: if_splits)
  with laws show ?thesis
  proof (cases rule: quicSocket_Send_locked_cases)
    case (through st n w)
    have w: "quic_wire q t' = sent w" "n > 0 \<Longrightarrow> q_closed t'"
      using through by (auto simp: Let_def stream_laws_simps [OF laws] quicSocket_Close_simps [OF laws])
    have "sent w = quic_wire q t" if "q_closed t"
      using that t through WriteTo_shut [OF laws _ through(2)] by (simp add: quic_inv_def)
    with WriteTo_part [OF through(2)] w through(3) show ?thesis by auto
  qed auto
qed (use e in \<open>auto simp: quicSocket_Send_def\<close>)

lemma quic_packet_socket:
  assumes "stream_laws q shut"
  shows "packet_socket (quic_op q) (quic_wire q) q_closed (quic_inv shut)"
  by unfold_locales
    (fact quic_inv_op [OF assms] quic_op_closed quic_op_other [OF assms] quic_op_sent [OF assms]
      quic_op_failed [OF assms])+

section \<open>Properties\<close>

text \<open>
  A stream for the witnesses: its writer, whether it is closed, and its reader. A closed one
  accepts nothing.
\<close>

definition sample_stream :: "(writer \<times> bool \<times> reader) stream_ops" where
  "sample_stream =
     \<lparr>s_SetReadDeadline = \<lambda>d st. (None, st), s_SetWriteDeadline = \<lambda>d st. (None, st),
      s_Close = \<lambda>(w, sh, r). (None, (w, True, r)), s_CancelRead = \<lambda>st. st,
      s_reader = \<lambda>(w, sh, r). r, s_read = \<lambda>r (w, sh, _). (w, sh, r),
      s_writer = \<lambda>(w, sh, r). if sh then w\<lparr>faults := [Some (0, ErrClosed)]\<rparr> else w,
      s_wrote = \<lambda>w (_, sh, r). (w, sh, r)\<rparr>"

lemma sample_stream_laws: "stream_laws sample_stream (\<lambda>(w, sh, r). sh)"
  by (auto simp: stream_laws_def sample_stream_def sent_def Write_def split: if_splits)

text \<open>
  C25: framing over QUIC. On any stream that keeps the laws, whatever calls a socket gets, the
  bytes handed to the stream are the whole encodings of the packets whose send returned nil, in
  order, followed by a torn packet only if the socket is closed by then; if it is still open,
  any reader of those bytes gets exactly these packets.
\<close>

theorem quic_framing:
  assumes "stream_laws q shut" and "\<forall>a \<in> set as. is_OpSend a \<longrightarrow> sendable m (op_packet a)"
    and "run_ops (quic_op q) as (quic_newSocket c st timeout) = (acc, t')"
    and "sent (s_writer q st) = []"
  shows "(\<exists>partial. sent (s_writer q (q_stream t')) = concat (map encode acc) @ partial \<and>
      (partial \<noteq> [] \<longrightarrow> q_closed t')) \<and>
    (\<forall>r. \<not> q_closed t' \<and> data r = sent (s_writer q (q_stream t')) \<longrightarrow>
      (\<exists>r'. read_packets m (length acc) r = (Inr (map as_received acc), r') \<and> data r' = []))"
proof -
  note sock = quic_packet_socket [OF assms(1)]
  have "quic_inv shut (quic_newSocket c st timeout)" and "quic_wire q (quic_newSocket c st timeout) = []"
    using assms(4) by (simp_all add: quic_inv_def quic_newSocket_def)
  with packet_socket.run_framed [OF sock assms(3) _ assms(2)]
    packet_socket.run_read [OF sock assms(3) _ assms(2)] show ?thesis
    by auto
qed

theorem quic_framing_witness:
  "\<exists>partial. sent (s_writer sample_stream (q_stream (snd (run_ops (quic_op sample_stream)
      [OpSend 4 False (PingreqP \<lparr>pingreq_FixedHeader = zeroHeader Pingreq 0\<rparr>), OpClose 5]
      (quic_newSocket () (newBuffer, False, buffer []) 0))))) =
    concat (map encode (fst (run_ops (quic_op sample_stream)
      [OpSend 4 False (PingreqP \<lparr>pingreq_FixedHeader = zeroHeader Pingreq 0\<rparr>), OpClose 5]
      (quic_newSocket () (newBuffer, False, buffer []) 0)))) @ partial"
proof -
  let ?as = "[OpSend 4 False (PingreqP \<lparr>pingreq_FixedHeader = zeroHeader Pingreq 0\<rparr>), OpClose 5]"
  have "\<forall>a \<in> set ?as. is_OpSend a \<longrightarrow> sendable 0 (op_packet a)"
    by (simp add: sendable_def control_wf_def header_ok_def zeroHeader_def clampLimit_def
        MaxRemainingLength_def)
  moreover have "sent (s_writer sample_stream (newBuffer, False, buffer [])) = []"
    by (simp add: sample_stream_def newBuffer_def sent_def)
  ultimately show ?thesis
    using quic_framing [where m = 0 and as = ?as and c = "()" and timeout = 0,
        OF sample_stream_laws _ surjective_pairing] by blast
qed

text \<open>
  C30: closing a QUIC socket. The connection outlives \<^verbatim>\<open>Close\<close> by the grace period, unless it
  ends by itself, so that data already accepted can drain, and is then torn down. After
  \<^verbatim>\<open>Close\<close>, \<^verbatim>\<open>Send\<close> and \<^verbatim>\<open>Recv\<close> return \<open>ErrClosed\<close>; a \<^verbatim>\<open>Recv\<close> that was under way returns its
  packet, the orderly end of the stream, or \<open>ErrClosed\<close>; and closing again changes nothing.
\<close>

theorem quic_close:
  assumes "\<not> q_closed t" and "quicSocket_Close q now t = (res, t')"
  shows "(\<forall>later ended. q_gone (quicSocket_teardown later ended t') \<longleftrightarrow>
      q_gone t \<or> ended \<or> now + 3000000000 \<le> later) \<and>
    quicSocket_Send q now2 v t' = (Some ErrClosed, t') \<and>
    quicSocket_Recv q now2 b (Some f) t' = (Inl ErrClosed, t') \<and>
    quicSocket_Close q now2 t' = (res, t') \<and>
    (case fst (quicSocket_Recv q now True (Some (read_packet m)) t) of
       Inr cp \<Rightarrow> True
     | Inl err \<Rightarrow> errors_Is err EOF \<or> err = ErrClosed \<or>
         fst (s_SetReadDeadline q (deadline now (q_timeout t)) (q_stream t)) = Some err)"
proof -
  have t': "q_closed t'" "q_linger t' = Some (now + closeGracePeriod)" "q_gone t' = q_gone t"
    "q_closeErr t' = res"
    using assms by (auto simp: quicSocket_Close_def split: prod.splits)
  then have "q_gone (quicSocket_teardown later ended t') \<longleftrightarrow> q_gone t \<or> ended \<or> now + 3000000000 \<le> later"
    for later ended
    by (auto simp: quicSocket_teardown_def closeGracePeriod_def second_ns_def)
  moreover have "q_closed (snd (quicSocket_Close q now t1))" for t1
    by (simp add: quicSocket_Close_def split: prod.splits)
  then have "case fst (quicSocket_Recv q now True (Some (read_packet m)) t) of
      Inr cp \<Rightarrow> True
    | Inl err \<Rightarrow> errors_Is err EOF \<or> err = ErrClosed \<or>
        fst (s_SetReadDeadline q (deadline now (q_timeout t)) (q_stream t)) = Some err"
    using assms(1)
    by (auto simp: quicSocket_Recv_def read_packet_def Let_def split: prod.splits option.splits sum.splits)
  ultimately show ?thesis
    using t' by (simp add: quicSocket_Send_def quicSocket_Recv_def quicSocket_Close_def)
qed

theorem quic_close_witness:
  "q_gone (quicSocket_teardown 3000000007 False (snd (quicSocket_Close sample_stream 7
      (quic_newSocket () (newBuffer, False, buffer []) 0))))"
proof -
  let ?t = "quic_newSocket () (newBuffer, False, buffer []) 0"
  have "\<not> q_closed ?t" by (simp add: quic_newSocket_def)
  from conjunct1 [OF quic_close [OF this surjective_pairing, of sample_stream 7]] show ?thesis
    by simp
qed

end
