(* ===== verification/WsSocket.thy ===== *)
theory WsSocket
  imports PacketSocket Options
begin

text \<open>
  The socket of the WebSocket transport (\<^verbatim>\<open>transports/ws/socket.go\<close>): a read loop that answers
  control frames and relays the data of messages into a pipe, from which \<^verbatim>\<open>Recv\<close> reads, and
  \<^verbatim>\<open>Send\<close>, which writes every packet as one binary frame. Frames are built, written and read by
  the packages \<^verbatim>\<open>gobwas/ws\<close> and \<^verbatim>\<open>wsutil\<close>, which are parameters: the functions on frames of
  some type \<open>'f\<close> as a record, and what the frame reader returns to the read loop as a sequence
  of events.
\<close>

section \<open>Frames\<close>

record 'f ws_lib =
  NewBinaryFrame :: "bytes \<Rightarrow> 'f"
  NewPongFrame :: "bytes \<Rightarrow> 'f"
  NewCloseFrame :: "bytes \<Rightarrow> 'f"
  NewCloseFrameBody :: "uint16 \<Rightarrow> gostring \<Rightarrow> bytes"
  ParseCloseFrameData :: "bytes \<Rightarrow> uint16 \<times> gostring"
  MaskFrameInPlace :: "'f \<Rightarrow> 'f"
  WriteFrame :: "writer \<Rightarrow> 'f \<Rightarrow> error option \<times> writer"

text \<open>
  What the socket relies on: \<^verbatim>\<open>WriteFrame\<close> writes the encoding of the frame, or a part of it if
  it fails; a binary frame carries its payload to the peer's data stream, masked or not, and pong
  and close frames carry nothing to it.
\<close>

definition ws_laws :: "'f ws_lib \<Rightarrow> ('f \<Rightarrow> bytes) \<Rightarrow> ('f \<Rightarrow> bytes option) \<Rightarrow> bool" where
  "ws_laws L wire_of payload \<longleftrightarrow>
     (\<forall>w f w'. WriteFrame L w f = (None, w') \<longrightarrow> sent w' = sent w @ wire_of f) \<and>
     (\<forall>w f err w'. WriteFrame L w f = (Some err, w') \<longrightarrow> (\<exists>part. sent w' = sent w @ part)) \<and>
     (\<forall>b. payload (NewBinaryFrame L b) = Some b) \<and> (\<forall>b. payload (NewPongFrame L b) = None) \<and>
     (\<forall>b. payload (NewCloseFrame L b) = None) \<and> (\<forall>f. payload (MaskFrameInPlace L f) = payload f)"

section \<open>The socket\<close>

text \<open>
  Where the read loop is: before \<^verbatim>\<open>NextFrame\<close>, inside \<^verbatim>\<open>io.Copy\<close> over a data message, with the
  flag \<^verbatim>\<open>progressed\<close> of the \<^verbatim>\<open>progressReader\<close> and whether bytes have been copied, or returned.
\<close>

datatype loop = Between | InMessage bool bool | Ended

text \<open>
  \<open>w_pipe\<close> is what the read loop has put through the pipe so far (a write to it returns when
  \<^verbatim>\<open>Recv\<close> has taken the bytes), \<open>w_cause\<close> what the pipe was closed with, \<open>w_src\<close> the bytes
  the frame reader starts from.
\<close>

record wsSocket =
  w_conn :: conn
  w_timeout :: int
  w_session :: Context
  w_src :: reader
  w_pipe :: bytes
  w_cause :: "error option"
  w_client :: bool
  w_closed :: bool
  w_closeErr :: "error option"
  w_loop :: loop

definition wsSocket_armReadDeadline :: "int \<Rightarrow> wsSocket \<Rightarrow> wsSocket" where
  "wsSocket_armReadDeadline now t =
     t\<lparr>w_conn := snd (SetReadDeadline (deadline now (w_timeout t)) (w_conn t))\<rparr>"

text \<open>\<^verbatim>\<open>io.MultiReader(extra, conn)\<close>, and the start of the read loop.\<close>

definition ws_newSocket :: "int \<Rightarrow> conn \<Rightarrow> bytes option \<Rightarrow> int \<Rightarrow> bool \<Rightarrow> wsSocket" where
  "ws_newSocket now c extra timeout client =
     (let src = (case extra of
            None \<Rightarrow> incoming c
          | Some bs \<Rightarrow> (incoming c)\<lparr>chunks := bs # chunks (incoming c), byteReader := False\<rparr>)
      in wsSocket_armReadDeadline now
        \<lparr>w_conn = c, w_timeout = timeout, w_session = NewSession, w_src = src, w_pipe = [],
         w_cause = None, w_client = client, w_closed = False, w_closeErr = None, w_loop = Between\<rparr>)"

definition wsSocket_closeWithCause :: "error \<Rightarrow> wsSocket \<Rightarrow> error option \<times> wsSocket" where
  "wsSocket_closeWithCause cause t =
     (if w_closed t then (w_closeErr t, t)
      else (closeResult (w_conn t),
            t\<lparr>w_closed := True, w_cause := Some cause, w_closeErr := closeResult (w_conn t),
              w_conn := (w_conn t)\<lparr>connOpen := False\<rparr>\<rparr>))"

definition wsSocket_Close :: "wsSocket \<Rightarrow> error option \<times> wsSocket" where
  "wsSocket_Close t = wsSocket_closeWithCause ErrClosed t"

definition wsSocket_SetTimeOut :: "int \<Rightarrow> int \<Rightarrow> wsSocket \<Rightarrow> wsSocket" where
  "wsSocket_SetTimeOut now duration t =
     t\<lparr>w_timeout := duration,
       w_conn := snd (SetReadDeadline (deadline now duration) (w_conn t))\<rparr>"

definition wsSocket_ConnectionState :: "wsSocket \<Rightarrow> ConnectionState option" where
  "wsSocket_ConnectionState t = (case tlsState (w_conn t) of Some tmp \<Rightarrow> Some tmp | None \<Rightarrow> None)"

definition wsSocket_Local :: "wsSocket \<Rightarrow> gostring" where
  "wsSocket_Local t = localAddr (w_conn t)"

definition wsSocket_Remote :: "wsSocket \<Rightarrow> gostring" where
  "wsSocket_Remote t = remoteAddr (w_conn t)"

section \<open>Writing\<close>

definition wsSocket_writeFrameLocked ::
    "'f ws_lib \<Rightarrow> int \<Rightarrow> 'f \<Rightarrow> int \<Rightarrow> wsSocket \<Rightarrow> error option \<times> wsSocket" where
  "wsSocket_writeFrameLocked L now f d t =
     (let f = (if w_client t then MaskFrameInPlace L f else f)
      in case SetWriteDeadline (deadline now d) (w_conn t) of
        (Some err, c) \<Rightarrow> (Some err, t\<lparr>w_conn := c\<rparr>)
      | (None, c) \<Rightarrow> (case WriteFrame L (outgoing_wire c) f of (err, w) \<Rightarrow>
          (err, t\<lparr>w_conn := c\<lparr>outgoing_wire := w\<rparr>\<rparr>)))"

text \<open>\<open>locked\<close> tells whether a sender holds the write lock, so that \<^verbatim>\<open>TryLock\<close> fails.\<close>

definition wsSocket_tryWriteFrame ::
    "'f ws_lib \<Rightarrow> int \<Rightarrow> bool \<Rightarrow> 'f \<Rightarrow> int \<Rightarrow> wsSocket \<Rightarrow> error option \<times> wsSocket" where
  "wsSocket_tryWriteFrame L now locked f d t =
     (if locked then (None, t) else wsSocket_writeFrameLocked L now f d t)"

text \<open>
  \<^verbatim>\<open>Send\<close> up to the return of \<^verbatim>\<open>writeFrame\<close>, which releases the write lock: the error, if any,
  and whether it is one of the write. The whole then closes the socket after a failed write.
\<close>

definition wsSocket_Send_write ::
    "'f ws_lib \<Rightarrow> int \<Rightarrow> any \<Rightarrow> wsSocket \<Rightarrow> (error option \<times> bool) \<times> wsSocket" where
  "wsSocket_Send_write L now m t = (case Write_any newBuffer m of
      None \<Rightarrow> ((Some (NewError (lit ''ws: panic in send: '')), False), t)
    | Some ((n, Some err), buf) \<Rightarrow> ((Some err, False), t)
    | Some ((n, None), buf) \<Rightarrow>
        (case wsSocket_writeFrameLocked L now (NewBinaryFrame L (sent buf)) (w_timeout t) t of
           (err, t') \<Rightarrow> ((err, err \<noteq> None), t')))"

definition wsSocket_Send_finish :: "error option \<times> bool \<Rightarrow> wsSocket \<Rightarrow> error option \<times> wsSocket" where
  "wsSocket_Send_finish res t = (case res of
      (Some err, True) \<Rightarrow> (Some err, snd (wsSocket_closeWithCause err t))
    | (err, _) \<Rightarrow> (err, t))"

definition wsSocket_Send :: "'f ws_lib \<Rightarrow> int \<Rightarrow> any \<Rightarrow> wsSocket \<Rightarrow> error option \<times> wsSocket" where
  "wsSocket_Send L now m t =
     (if w_closed t then (Some ErrClosed, t)
      else case wsSocket_Send_write L now m t of (res, t') \<Rightarrow> wsSocket_Send_finish res t')"

section \<open>Reading\<close>

text \<open>\<^verbatim>\<open>Recv\<close> runs the callback on the reading end of the pipe.\<close>

definition wsSocket_Recv :: "'a callback option \<Rightarrow> reader \<Rightarrow> (error + 'a) \<times> reader" where
  "wsSocket_Recv fc r = (case fc of
      None \<Rightarrow> (Inl (NewError (lit ''ws: nil recv callback'')), r)
    | Some f \<Rightarrow> (case f r of
        (Inl text, r') \<Rightarrow> (Inl (NewError (lit ''ws: panic in recv: '' @ text)), r')
      | (Inr m, r') \<Rightarrow> (m, r')))"

definition controlWriteTimeout :: int where
  "controlWriteTimeout = 30 * second_ns"

datatype control_op = OpPing | OpCloseFrame | OpOther

text \<open>The errors of the read loop: \<^verbatim>\<open>wsutil.ClosedError\<close> or another.\<close>

datatype loop_error = ClosedError uint16 gostring | OtherError error

text \<open>\<open>payload\<close> is the result of reading the payload of the control frame.\<close>

definition wsSocket_handleControl ::
    "'f ws_lib \<Rightarrow> int \<Rightarrow> bool \<Rightarrow> control_op \<Rightarrow> error + bytes \<Rightarrow> wsSocket \<Rightarrow> loop_error option \<times> wsSocket" where
  "wsSocket_handleControl L now locked opcode payload t = (case payload of
      Inl err \<Rightarrow> (Some (OtherError err), t)
    | Inr p \<Rightarrow>
        (let d = w_timeout t;
             d = (if d \<le> 0 then controlWriteTimeout else d)
         in case opcode of
           OpPing \<Rightarrow> (case wsSocket_tryWriteFrame L now locked (NewPongFrame L p) d t of
             (err, t') \<Rightarrow> (map_option OtherError err, t'))
         | OpCloseFrame \<Rightarrow>
             (case ParseCloseFrameData L p of (code, reason) \<Rightarrow>
               (let reply = NewCloseFrame L [];
                    reply = (if length p \<ge> 2 then NewCloseFrame L (NewCloseFrameBody L code []) else reply)
                in (Some (ClosedError code reason), snd (wsSocket_tryWriteFrame L now locked reply d t))))
         | OpOther \<Rightarrow> (None, t)))"

text \<open>
  What the frame reader returns to the loop: \<^verbatim>\<open>NextFrame\<close> fails, or finds a control or a data
  frame; a \<^verbatim>\<open>Read\<close> in a data message returns bytes and goes on, ends the message, or fails; or
  it meets a control frame between two fragments, hands it to \<^verbatim>\<open>handleControl\<close> and returns
  nothing, or that call's error.
\<close>

datatype read_end = More | MessageEnd | Failed error

datatype frame_event =
    NextFrameFails error
  | ControlFrame control_op "error + bytes" bool
  | DataFrame
  | ReadReturns bytes read_end
  | ReadIntermediate control_op "error + bytes" bool

definition wsSocket_fail :: "loop_error \<Rightarrow> wsSocket \<Rightarrow> wsSocket" where
  "wsSocket_fail err t =
     (let err = (case err of ClosedError _ _ \<Rightarrow> EOF | OtherError e \<Rightarrow> e)
      in (snd (wsSocket_closeWithCause err t))\<lparr>w_loop := Ended\<rparr>)"

definition pipe_Write :: "bytes \<Rightarrow> wsSocket \<Rightarrow> error option \<times> wsSocket" where
  "pipe_Write bs t =
     (if bs = [] then (None, t)
      else if w_cause t \<noteq> None then (Some (NewError (lit ''io: read/write on closed pipe'')), t)
      else (None, t\<lparr>w_pipe := w_pipe t @ bs\<rparr>))"

definition control_result :: "loop_error option \<times> wsSocket \<Rightarrow> loop \<Rightarrow> wsSocket" where
  "control_result res lp = (case res of
      (Some err, t) \<Rightarrow> wsSocket_fail err t
    | (None, t) \<Rightarrow> t\<lparr>w_loop := lp\<rparr>)"

text \<open>
  One call of the frame reader, made at \<open>called\<close> and returning the event at \<open>returned\<close>. Before
  a \<^verbatim>\<open>Read\<close> the \<^verbatim>\<open>progressReader\<close> arms the deadline if there was progress; after the copy of a
  message with data the loop arms it again. An event that does not belong to the call is ignored.
\<close>

fun wsSocket_readLoop ::
    "'f ws_lib \<Rightarrow> int \<Rightarrow> int \<Rightarrow> frame_event \<Rightarrow> loop \<Rightarrow> wsSocket \<Rightarrow> wsSocket" where
  "wsSocket_readLoop L called returned (NextFrameFails err) Between t = wsSocket_fail (OtherError err) t"
| "wsSocket_readLoop L called returned (ControlFrame opcode payload locked) Between t =
     control_result (wsSocket_handleControl L returned locked opcode payload t) Between"
| "wsSocket_readLoop L called returned DataFrame Between t = t\<lparr>w_loop := InMessage True False\<rparr>"
| "wsSocket_readLoop L called returned (ReadReturns bs fin) (InMessage progressed copied) t =
     (let t = (if progressed then wsSocket_armReadDeadline called t else t)
      in case pipe_Write bs t of
        (Some err, t) \<Rightarrow> wsSocket_fail (OtherError err) t
      | (None, t) \<Rightarrow>
          (case fin of
             More \<Rightarrow> t\<lparr>w_loop := InMessage (bs \<noteq> []) (copied \<or> bs \<noteq> [])\<rparr>
           | Failed err \<Rightarrow> wsSocket_fail (OtherError err) t
           | MessageEnd \<Rightarrow>
               (if copied \<or> bs \<noteq> [] then wsSocket_armReadDeadline returned t else t)\<lparr>w_loop := Between\<rparr>))"
| "wsSocket_readLoop L called returned (ReadIntermediate opcode payload locked) (InMessage progressed copied) t =
     (let t = (if progressed then wsSocket_armReadDeadline called t else t)
      in control_result (wsSocket_handleControl L returned locked opcode payload t) (InMessage False copied))"
| "wsSocket_readLoop L called returned _ _ t = t"

section \<open>Runs of a socket\<close>

text \<open>What happens to a socket: a call of its user, or a call of the read loop to the frame reader.\<close>

datatype ws_act = Call op | Frame int int frame_event

fun ws_step :: "'f ws_lib \<Rightarrow> ws_act \<Rightarrow> wsSocket \<Rightarrow> error option \<times> wsSocket" where
  "ws_step L (Call (OpSend now lt cp)) t =
     (if lt then (case wsSocket_Send_write L now (packet_any cp) t of (res, t') \<Rightarrow> wsSocket_Send_finish res t')
      else wsSocket_Send L now (packet_any cp) t)"
| "ws_step L (Call (OpRecv now m)) t = (None, t)"
| "ws_step L (Call (OpSetTimeOut now d)) t = (None, wsSocket_SetTimeOut now d t)"
| "ws_step L (Call (OpClose now)) t = wsSocket_Close t"
| "ws_step L (Frame called returned ev) t = (None, wsSocket_readLoop L called returned ev (w_loop t) t)"

text \<open>The packets whose send returned nil, and the socket afterwards.\<close>

definition ws_accepted :: "ws_act \<Rightarrow> error option \<Rightarrow> ControlPacket list" where
  "ws_accepted act err = (case act of Call a \<Rightarrow> accepted a err | Frame _ _ _ \<Rightarrow> [])"

primrec ws_run :: "'f ws_lib \<Rightarrow> ws_act list \<Rightarrow> wsSocket \<Rightarrow> ControlPacket list \<times> wsSocket" where
  "ws_run L [] t = ([], t)"
| "ws_run L (act # acts) t = (case ws_step L act t of (err, t') \<Rightarrow>
     (case ws_run L acts t' of (acc, t'') \<Rightarrow> (ws_accepted act err @ acc, t'')))"

lemma ws_run_Cons:
  assumes "ws_run L (act # acts) t = (acc, t')"
  obtains err t1 acc1 where "ws_step L act t = (err, t1)" "ws_run L acts t1 = (acc1, t')"
    "acc = ws_accepted act err @ acc1"
  using assms by (auto split: prod.splits)

text \<open>A closed socket has closed its connection and its pipe, and the loop ends only so.\<close>

definition ws_inv :: "wsSocket \<Rightarrow> bool" where
  "ws_inv t \<longleftrightarrow> (w_closed t \<longrightarrow> \<not> connOpen (w_conn t)) \<and> (w_cause t = None \<longleftrightarrow> \<not> w_closed t) \<and>
     (w_loop t = Ended \<longrightarrow> w_closed t)"

abbreviation ws_wire :: "wsSocket \<Rightarrow> bytes" where
  "ws_wire t \<equiv> sent (outgoing_wire (w_conn t))"

lemma closeWithCause_simps [simp]:
  "w_closed (snd (wsSocket_closeWithCause e t))"
  "outgoing_wire (w_conn (snd (wsSocket_closeWithCause e t))) = outgoing_wire (w_conn t)"
  "w_pipe (snd (wsSocket_closeWithCause e t)) = w_pipe t"
  "w_loop (snd (wsSocket_closeWithCause e t)) = w_loop t"
  "w_closed t \<Longrightarrow> snd (wsSocket_closeWithCause e t) = t"
  "readDeadline (w_conn (snd (wsSocket_closeWithCause e t))) = readDeadline (w_conn t)"
  by (simp_all add: wsSocket_closeWithCause_def)

lemma ws_inv_closeWithCause: "ws_inv t \<Longrightarrow> ws_inv (snd (wsSocket_closeWithCause e t))"
  by (auto simp: ws_inv_def wsSocket_closeWithCause_def)

lemma ws_inv_fail [simp]: "ws_inv t \<Longrightarrow> ws_inv (wsSocket_fail e t)"
  by (auto simp: wsSocket_fail_def ws_inv_def wsSocket_closeWithCause_def)

lemma fail_simps [simp]:
  "w_closed (wsSocket_fail e t)" "ws_wire (wsSocket_fail e t) = ws_wire t"
  "w_pipe (wsSocket_fail e t) = w_pipe t"
  "readDeadline (w_conn (wsSocket_fail e t)) = readDeadline (w_conn t)"
  by (simp_all add: wsSocket_fail_def Let_def)

lemma arm_simps [simp]:
  "w_closed (wsSocket_armReadDeadline now t) = w_closed t" "ws_wire (wsSocket_armReadDeadline now t) = ws_wire t"
  "w_pipe (wsSocket_armReadDeadline now t) = w_pipe t" "w_cause (wsSocket_armReadDeadline now t) = w_cause t"
  "w_loop (wsSocket_armReadDeadline now t) = w_loop t" "w_timeout (wsSocket_armReadDeadline now t) = w_timeout t"
  "connOpen (w_conn (wsSocket_armReadDeadline now t)) = connOpen (w_conn t)"
  "w_client (wsSocket_armReadDeadline now t) = w_client t"
  by (simp_all add: wsSocket_armReadDeadline_def)

lemma ws_inv_arm [simp]: "ws_inv (wsSocket_armReadDeadline now t) = ws_inv t"
  by (simp add: ws_inv_def)

section \<open>What is on the wire\<close>

text \<open>
  \<open>puts\<close> says what a step puts on the wire: whole frames, and a part of one more only if the
  socket is closed afterwards; nothing if it was closed before.
\<close>

definition puts :: "('f \<Rightarrow> bytes) \<Rightarrow> wsSocket \<Rightarrow> 'f list \<Rightarrow> bytes \<Rightarrow> wsSocket \<Rightarrow> bool" where
  "puts wire_of t fs partial t' \<longleftrightarrow>
     ws_wire t' = ws_wire t @ concat (map wire_of fs) @ partial \<and>
     (w_closed t \<longrightarrow> w_closed t' \<and> fs = [] \<and> partial = [])"

lemma puts_none: "ws_wire t' = ws_wire t \<Longrightarrow> (w_closed t \<Longrightarrow> w_closed t') \<Longrightarrow> puts wire_of t [] [] t'"
  by (simp add: puts_def)

lemma writeFrameLocked_cases:
  assumes "ws_laws L wire_of payload" and "ws_inv t"
    and "wsSocket_writeFrameLocked L now f d t = (err, t')"
  obtains c fs partial where "t' = t\<lparr>w_conn := c\<rparr>" "connOpen c = connOpen (w_conn t)"
    "readDeadline c = readDeadline (w_conn t)" "puts wire_of t fs partial t'"
    "err = None \<Longrightarrow> partial = [] \<and> map payload fs = [payload f]"
    "err \<noteq> None \<Longrightarrow> fs = []"
proof -
  let ?f = "if w_client t then MaskFrameInPlace L f else f"
  note laws = assms(1) [unfolded ws_laws_def]
  obtain e c where d: "SetWriteDeadline (deadline now d) (w_conn t) = (e, c)"
    by (cases "SetWriteDeadline (deadline now d) (w_conn t)")
  have c: "outgoing_wire c = outgoing_wire (w_conn t)" "connOpen c = connOpen (w_conn t)"
    "readDeadline c = readDeadline (w_conn t)" "e = None \<Longrightarrow> connOpen c"
    using d by (auto simp: SetWriteDeadline_def split: if_splits)
  show thesis
  proof (cases e)
    case None
    obtain r w where w: "WriteFrame L (outgoing_wire c) ?f = (r, w)"
      by (cases "WriteFrame L (outgoing_wire c) ?f")
    have t': "err = r" "t' = t\<lparr>w_conn := c\<lparr>outgoing_wire := w\<rparr>\<rparr>"
      using assms(3) d w None by (auto simp: wsSocket_writeFrameLocked_def Let_def)
    have open_: "\<not> w_closed t" using c None assms(2) by (auto simp: ws_inv_def)
    show thesis
    proof (cases r)
      case None
      then have "sent w = ws_wire t @ wire_of ?f" using laws w c by auto
      moreover have "payload ?f = payload f" using laws by simp
      ultimately show thesis
        using t' c None open_ by (intro that [of "c\<lparr>outgoing_wire := w\<rparr>" "[?f]" "[]"]) (auto simp: puts_def)
    next
      case (Some er)
      then obtain part where "sent w = ws_wire t @ part" using laws w c by metis
      then show thesis
        using t' c Some open_ by (intro that [of "c\<lparr>outgoing_wire := w\<rparr>" "[]" part]) (auto simp: puts_def)
    qed
  next
    case (Some er)
    then have "err = Some er" "t' = t\<lparr>w_conn := c\<rparr>"
      using assms(3) d by (auto simp: wsSocket_writeFrameLocked_def Let_def)
    then show thesis
      using c by (intro that [of c "[]" "[]"]) (auto simp: puts_def)
  qed
qed

text \<open>\<open>framed\<close>: a step and what its frames carry to the peer's data stream.\<close>

definition framed :: "('f \<Rightarrow> bytes) \<Rightarrow> ('f \<Rightarrow> bytes option) \<Rightarrow> wsSocket \<Rightarrow> bytes list \<Rightarrow> wsSocket \<Rightarrow> bool" where
  "framed wire_of payload t bss t' \<longleftrightarrow> ws_inv t' \<and> (\<exists>fs partial. puts wire_of t fs partial t' \<and>
     List.map_filter payload fs = bss \<and> (partial \<noteq> [] \<longrightarrow> w_closed t'))"

lemma framed_none:
  "ws_inv t' \<Longrightarrow> ws_wire t' = ws_wire t \<Longrightarrow> (w_closed t \<Longrightarrow> w_closed t') \<Longrightarrow>
    framed wire_of payload t [] t'"
  unfolding framed_def by (intro conjI exI [of _ "[]"]) (simp_all add: puts_def map_filter_simps)

lemma framed_cong:
  "ws_wire t1 = ws_wire t \<Longrightarrow> w_closed t1 = w_closed t \<Longrightarrow>
    framed wire_of payload t1 bss t' = framed wire_of payload t bss t'"
  by (simp add: framed_def puts_def)

lemma ws_inv_conn:
  "ws_inv t \<Longrightarrow> connOpen c = connOpen (w_conn t) \<Longrightarrow> ws_inv (t\<lparr>w_conn := c\<rparr>)"
  by (simp add: ws_inv_def)

lemma ws_inv_loop: "ws_inv t \<Longrightarrow> lp \<noteq> Ended \<Longrightarrow> ws_inv (t\<lparr>w_loop := lp\<rparr>)"
  by (simp add: ws_inv_def)

text \<open>A control frame is answered by frames that carry no data; after a torn one comes an error.\<close>

lemma tryWriteFrame_cases:
  assumes "ws_laws L wire_of payload" and "ws_inv t" and "payload f = None"
    and "wsSocket_tryWriteFrame L now locked f d t = (err, t')"
  obtains c fs partial where "t' = t\<lparr>w_conn := c\<rparr>" "connOpen c = connOpen (w_conn t)"
    "readDeadline c = readDeadline (w_conn t)" "puts wire_of t fs partial t'"
    "List.map_filter payload fs = []" "partial \<noteq> [] \<Longrightarrow> err \<noteq> None"
proof (cases locked)
  case True
  with assms(4) show thesis
    by (intro that [of "w_conn t" "[]" "[]"]) (auto simp: wsSocket_tryWriteFrame_def puts_def map_filter_simps)
next
  case False
  with assms(4) have "wsSocket_writeFrameLocked L now f d t = (err, t')"
    by (simp add: wsSocket_tryWriteFrame_def)
  from writeFrameLocked_cases [OF assms(1,2) this] obtain c fs partial where
    w: "t' = t\<lparr>w_conn := c\<rparr>" "connOpen c = connOpen (w_conn t)"
    "readDeadline c = readDeadline (w_conn t)" "puts wire_of t fs partial t'"
    "err = None \<Longrightarrow> partial = [] \<and> map payload fs = [payload f]" "err \<noteq> None \<Longrightarrow> fs = []"
    by metis
  have "List.map_filter payload fs = []"
    using w(5,6) assms(3) by (cases err) (auto simp: map_filter_simps map_eq_Cons_conv)
  with w show thesis by (intro that [of c fs partial]) auto
qed

lemma handleControl_cases:
  assumes "ws_laws L wire_of payload" and "ws_inv t"
    and "wsSocket_handleControl L now locked opcode p t = (err, t')"
  obtains c fs partial where "t' = t\<lparr>w_conn := c\<rparr>" "connOpen c = connOpen (w_conn t)"
    "readDeadline c = readDeadline (w_conn t)" "puts wire_of t fs partial t'"
    "List.map_filter payload fs = []" "partial \<noteq> [] \<Longrightarrow> err \<noteq> None"
proof -
  note laws = assms(1) [unfolded ws_laws_def]
  let ?d = "if w_timeout t \<le> 0 then controlWriteTimeout else w_timeout t"
  note found = that
  have same: thesis if "t' = t"
    by (rule found [of "w_conn t" "[]" "[]"]) (simp_all add: \<open>t' = t\<close> puts_def map_filter_simps)
  show thesis
  proof (cases p)
    case (Inl e)
    with assms(3) show thesis by (intro same) (auto simp: wsSocket_handleControl_def)
  next
    case (Inr bs)
    show thesis
    proof (cases opcode)
      case OpPing
      obtain e where w: "wsSocket_tryWriteFrame L now locked (NewPongFrame L bs) ?d t = (e, t')"
        "err = map_option OtherError e"
        using assms(3) Inr OpPing by (auto simp: wsSocket_handleControl_def Let_def split: prod.splits)
      have "payload (NewPongFrame L bs) = None" using laws by simp
      from tryWriteFrame_cases [OF assms(1,2) this w(1)] w(2) show thesis by (metis that option.map_disc_iff)
    next
      case OpCloseFrame
      obtain code reason where "ParseCloseFrameData L bs = (code, reason)" by fastforce
      then obtain e where w: "wsSocket_tryWriteFrame L now locked (if length bs \<ge> 2
          then NewCloseFrame L (NewCloseFrameBody L code []) else NewCloseFrame L []) ?d t = (e, t')"
        "err = Some (ClosedError code reason)"
        using assms(3) Inr OpCloseFrame
        by (auto simp: wsSocket_handleControl_def Let_def split: prod.splits if_splits) (metis prod.collapse)+
      have "payload (if length bs \<ge> 2 then NewCloseFrame L (NewCloseFrameBody L code [])
          else NewCloseFrame L []) = None" using laws by simp
      from tryWriteFrame_cases [OF assms(1,2) this w(1)] w(2) show thesis by (metis that option.distinct(1))
    next
      case OpOther
      with assms(3) Inr show thesis by (intro same) (auto simp: wsSocket_handleControl_def Let_def)
    qed
  qed
qed

lemma control_result_framed:
  assumes "ws_laws L wire_of payload" and "ws_inv t" and "lp \<noteq> Ended"
  shows "framed wire_of payload t [] (control_result (wsSocket_handleControl L now locked opcode p t) lp)"
proof -
  obtain err t' where h: "wsSocket_handleControl L now locked opcode p t = (err, t')" by fastforce
  from handleControl_cases [OF assms(1,2) h] obtain c fs partial where
    w: "t' = t\<lparr>w_conn := c\<rparr>" "connOpen c = connOpen (w_conn t)" "puts wire_of t fs partial t'"
    "List.map_filter payload fs = []" "partial \<noteq> [] \<Longrightarrow> err \<noteq> None" by metis
  have inv: "ws_inv t'" using assms(2) w(1,2) by (simp add: ws_inv_conn)
  show ?thesis
  proof (cases err)
    case None
    have "ws_inv (t'\<lparr>w_loop := lp\<rparr>)" using inv assms(3) by (rule ws_inv_loop)
    moreover have "puts wire_of t fs partial (t'\<lparr>w_loop := lp\<rparr>)" using w(3) by (simp add: puts_def)
    ultimately show ?thesis
      using None w(4,5) by (auto simp: h control_result_def framed_def)
  next
    case (Some e)
    have "puts wire_of t fs partial (wsSocket_fail e t')" using w(3) by (simp add: puts_def)
    then show ?thesis
      using Some w(4) inv by (auto simp: h control_result_def framed_def)
  qed
qed

lemma pipe_Write_simps:
  assumes "pipe_Write bs t = (err, t')"
  shows "ws_wire t' = ws_wire t" "w_closed t' = w_closed t" "ws_inv t' = ws_inv t"
    "w_timeout t' = w_timeout t" "w_conn t' = w_conn t" "w_loop t' = w_loop t" "w_cause t' = w_cause t"
  using assms by (auto simp: pipe_Write_def ws_inv_def split: if_splits)

lemma readLoop_framed:
  assumes "ws_laws L wire_of payload" and "ws_inv t"
  shows "framed wire_of payload t [] (wsSocket_readLoop L called returned ev (w_loop t) t)"
proof -
  have same: "framed wire_of payload t [] t" using assms(2) by (intro framed_none) simp_all
  show ?thesis
  proof (cases "w_loop t")
    case Between
    then show ?thesis
      using assms same control_result_framed [OF assms]
      by (cases ev) (simp_all add: framed_none ws_inv_loop)
  next
    case (InMessage progressed copied)
    let ?t = "if progressed then wsSocket_armReadDeadline called t else t"
    have t: "ws_inv ?t" "ws_wire ?t = ws_wire t" "w_closed ?t = w_closed t" using assms(2) by simp_all
    show ?thesis
    proof (cases ev)
      case (ReadReturns bs fin)
      obtain err t1 where p: "pipe_Write bs ?t = (err, t1)" by fastforce
      note t1 = pipe_Write_simps [OF p]
      have ok: "framed wire_of payload t [] (t2\<lparr>w_loop := lp\<rparr>)"
        if "lp \<noteq> Ended" "ws_inv t2" "ws_wire t2 = ws_wire t" "w_closed t2 = w_closed t" for t2 lp
        using that by (intro framed_none) (simp_all add: ws_inv_loop)
      have bad: "framed wire_of payload t [] (wsSocket_fail e t1)" for e
        using t t1 by (intro framed_none) simp_all
      show ?thesis
        using t t1 by (auto simp: InMessage ReadReturns Let_def p intro!: ok bad split: option.split read_end.split)
    next
      case (ReadIntermediate opcode p locked)
      have "framed wire_of payload ?t [] (control_result
          (wsSocket_handleControl L returned locked opcode p ?t) (InMessage False copied))"
        using assms(1) t(1) by (rule control_result_framed) simp
      then show ?thesis
        unfolding framed_cong [OF t(2,3)] by (simp only: InMessage ReadIntermediate Let_def
            wsSocket_readLoop.simps)
    qed (use InMessage same in auto)
  next
    case Ended
    then show ?thesis using same by (cases ev) simp_all
  qed
qed

lemma Send_write_framed:
  assumes "ws_laws L wire_of payload" and "ws_inv t" and "sendable m cp"
    and "wsSocket_Send_write L now (packet_any cp) t = (res, t1)" and "wsSocket_Send_finish res t1 = (err, t')"
  shows "framed wire_of payload t (if err = None then [encode cp] else []) t'"
proof -
  obtain n er buf where buf: "WriteTo cp newBuffer = Some ((n, er), buf)"
    using WriteTo_returns [of cp newBuffer] by (metis not_None_eq prod.collapse)
  have w: "Write newBuffer (encode cp) = ((n, er), buf)"
    using WriteTo_encode [OF assms(3)] buf by simp
  then have er: "er = None" by simp
  then have "sent buf = encode cp"
    using WriteTo_whole [OF _ assms(3)] buf by (simp add: newBuffer_def sent_def)
  then obtain e where f: "wsSocket_writeFrameLocked L now (NewBinaryFrame L (encode cp)) (w_timeout t) t = (e, t1)"
    and res: "res = (e, e \<noteq> None)"
    using assms(4) buf er by (auto simp: wsSocket_Send_write_def split: prod.splits)
  from writeFrameLocked_cases [OF assms(1,2) f] obtain c fs partial where
    t1: "t1 = t\<lparr>w_conn := c\<rparr>" "connOpen c = connOpen (w_conn t)" "puts wire_of t fs partial t1"
    "e = None \<Longrightarrow> partial = [] \<and> map payload fs = [payload (NewBinaryFrame L (encode cp))]"
    "e \<noteq> None \<Longrightarrow> fs = []" by metis
  have inv: "ws_inv t1" using assms(2) t1(1,2) by (simp add: ws_inv_conn)
  show ?thesis
  proof (cases e)
    case None
    then have "err = None" "t' = t1" using assms(5) res by (simp_all add: wsSocket_Send_finish_def)
    moreover have "List.map_filter payload fs = [encode cp]"
      using t1(4) None assms(1) by (auto simp: ws_laws_def map_filter_simps map_eq_Cons_conv)
    ultimately show ?thesis
      using t1(3,4) None inv by (auto simp: framed_def)
  next
    case (Some er)
    then have "err = Some er" "t' = snd (wsSocket_closeWithCause er t1)"
      using assms(5) res by (simp_all add: wsSocket_Send_finish_def)
    moreover have "puts wire_of t [] partial (snd (wsSocket_closeWithCause er t1))"
      using t1(3,5) Some by (simp add: puts_def)
    ultimately show ?thesis
      using inv by (auto simp: framed_def map_filter_simps intro: ws_inv_closeWithCause)
  qed
qed

lemma ws_step_framed:
  assumes "ws_laws L wire_of payload" and "ws_inv t"
    and "\<And>a. act = Call a \<Longrightarrow> is_OpSend a \<Longrightarrow> sendable m (op_packet a)" and "ws_step L act t = (err, t')"
  shows "framed wire_of payload t (map encode (ws_accepted act err)) t'"
proof (cases act)
  case (Call a)
  show ?thesis
  proof (cases a)
    case (OpSend now lt cp)
    have s: "sendable m cp" using assms(3) Call OpSend by auto
    show ?thesis
    proof (cases "\<not> lt \<and> w_closed t")
      case False
      obtain res t1 where w: "wsSocket_Send_write L now (packet_any cp) t = (res, t1)" by fastforce
      then have "wsSocket_Send_finish res t1 = (err, t')"
        using assms(4) Call OpSend False by (auto simp: wsSocket_Send_def split: if_splits)
      from Send_write_framed [OF assms(1,2) s w this] show ?thesis
        using Call OpSend by (cases err) (simp_all add: ws_accepted_def accepted_def)
    qed (use assms(2,4) Call OpSend in \<open>auto simp: wsSocket_Send_def ws_accepted_def accepted_def intro: framed_none\<close>)
  next
    case (OpSetTimeOut now d)
    with assms(2,4) Call show ?thesis
      by (auto simp: ws_accepted_def accepted_def wsSocket_SetTimeOut_def intro!: framed_none ws_inv_conn)
        (simp add: ws_inv_def)
  next
    case (OpClose now)
    with assms(2,4) Call ws_inv_closeWithCause [OF assms(2), of ErrClosed] show ?thesis
      by (auto simp: ws_accepted_def accepted_def wsSocket_Close_def intro!: framed_none)
        (metis closeWithCause_simps snd_conv)+
  qed (use assms(2,4) Call in \<open>auto simp: ws_accepted_def accepted_def intro!: framed_none\<close>)
next
  case (Frame called returned ev)
  with readLoop_framed [OF assms(1,2)] assms(4) show ?thesis by (auto simp: ws_accepted_def)
qed

lemma framed_trans:
  assumes "framed wire_of payload t bss t1" and "framed wire_of payload t1 bss' t2"
  shows "framed wire_of payload t (bss @ bss') t2"
proof -
  from assms(1) obtain fs p where 1: "puts wire_of t fs p t1" "List.map_filter payload fs = bss"
    "p \<noteq> [] \<longrightarrow> w_closed t1" by (auto simp: framed_def)
  from assms(2) obtain fs' p' where 2: "ws_inv t2" "puts wire_of t1 fs' p' t2"
    "List.map_filter payload fs' = bss'" "p' \<noteq> [] \<longrightarrow> w_closed t2" by (auto simp: framed_def)
  have m: "List.map_filter payload (fs @ fs') = bss @ bss'"
    using 1(2) 2(3) by (simp add: List.map_filter_def)
  show ?thesis
  proof (cases "w_closed t1")
    case True
    then have "fs' = []" "p' = []" "w_closed t2" using 2(2) by (simp_all add: puts_def)
    with 1 2 m show ?thesis
      unfolding framed_def by (intro conjI exI [of _ fs] exI [of _ p]) (auto simp: puts_def)
  next
    case False
    then have "p = []" using 1(3) by simp
    with False 1 2 m show ?thesis
      unfolding framed_def by (intro conjI exI [of _ "fs @ fs'"] exI [of _ p']) (auto simp: puts_def)
  qed
qed

lemma ws_run_framed:
  assumes "ws_laws L wire_of payload" and "ws_inv t"
    and "\<forall>act \<in> set acts. \<forall>a. act = Call a \<and> is_OpSend a \<longrightarrow> sendable m (op_packet a)"
    and "ws_run L acts t = (acc, t')"
  shows "framed wire_of payload t (map encode acc) t'"
  using assms(2-4)
proof (induction acts arbitrary: t acc)
  case (Cons act acts)
  from Cons.prems(3) obtain err t1 acc1 where s: "ws_step L act t = (err, t1)"
    "ws_run L acts t1 = (acc1, t')" "acc = ws_accepted act err @ acc1" by (rule ws_run_Cons)
  have 1: "framed wire_of payload t (map encode (ws_accepted act err)) t1"
    using Cons.prems by (intro ws_step_framed [OF assms(1) _ _ s(1)]) auto
  then have "ws_inv t1" by (simp add: framed_def)
  with Cons.IH [OF _ _ s(2)] Cons.prems(2) have "framed wire_of payload t1 (map encode acc1) t'" by auto
  from framed_trans [OF 1 this] s(3) show ?case by simp
qed (auto intro: framed_none)

section \<open>What goes through the pipe\<close>

text \<open>The events of a run, and the data bytes of the messages in them.\<close>

definition frame_events :: "ws_act list \<Rightarrow> frame_event list" where
  "frame_events acts = concat (map (\<lambda>act. case act of Frame _ _ ev \<Rightarrow> [ev] | Call _ \<Rightarrow> []) acts)"

fun in_message :: "bool \<Rightarrow> frame_event \<Rightarrow> bool" where
  "in_message False DataFrame = True"
| "in_message True (ReadReturns bs MessageEnd) = False"
| "in_message b ev = b"

fun event_data :: "bool \<Rightarrow> frame_event \<Rightarrow> bytes" where
  "event_data True (ReadReturns bs fin) = bs"
| "event_data b ev = []"

fun message_data :: "bool \<Rightarrow> frame_event list \<Rightarrow> bytes" where
  "message_data b [] = []"
| "message_data b (ev # evs) = event_data b ev @ message_data (in_message b ev) evs"

definition in_loop :: "loop \<Rightarrow> bool" where
  "in_loop lp = (case lp of InMessage _ _ \<Rightarrow> True | _ \<Rightarrow> False)"

lemma writeFrameLocked_same:
  assumes "wsSocket_writeFrameLocked L now f d t = (err, t')"
  shows "w_pipe t' = w_pipe t \<and> w_loop t' = w_loop t \<and>
    readDeadline (w_conn t') = readDeadline (w_conn t)"
  using assms
  by (auto simp: wsSocket_writeFrameLocked_def SetWriteDeadline_def Let_def split: prod.splits if_splits)

lemma control_result_simps:
  assumes "control_result (wsSocket_handleControl L now locked opcode p t) lp = t'"
  shows "w_pipe t' = w_pipe t" "readDeadline (w_conn t') = readDeadline (w_conn t)"
    "w_loop t' = lp \<or> w_loop t' = Ended \<and> w_closed t'"
proof -
  have try_: "wsSocket_tryWriteFrame L now locked f d t = (err, t1) \<Longrightarrow>
      w_pipe t1 = w_pipe t \<and> readDeadline (w_conn t1) = readDeadline (w_conn t)" for f d err t1
    by (auto simp: wsSocket_tryWriteFrame_def dest: writeFrameLocked_same split: if_splits)
  obtain err t1 where h: "wsSocket_handleControl L now locked opcode p t = (err, t1)" by fastforce
  have "w_pipe t1 = w_pipe t \<and> readDeadline (w_conn t1) = readDeadline (w_conn t)"
    using h by (auto simp: wsSocket_handleControl_def Let_def split: sum.splits control_op.splits prod.splits
        dest: try_) (metis prod.collapse try_)+
  then show "w_pipe t' = w_pipe t" "readDeadline (w_conn t') = readDeadline (w_conn t)"
    "w_loop t' = lp \<or> w_loop t' = Ended \<and> w_closed t'"
    using assms by (auto simp: h control_result_def wsSocket_fail_def split: option.splits)
qed

text \<open>One call of the frame reader relays the bytes it returned, unless the pipe is closed.\<close>

lemma readLoop_ReadReturns:
  assumes "ws_inv t" and "w_loop t = InMessage progressed copied"
    and "wsSocket_readLoop L called returned (ReadReturns bs fin) (w_loop t) t = t'"
  shows "w_pipe t' = w_pipe t @ (if w_closed t then [] else bs)"
    and "\<not> w_closed t' \<Longrightarrow> in_loop (w_loop t') = (fin \<noteq> MessageEnd)"
proof -
  let ?t = "if progressed then wsSocket_armReadDeadline called t else t"
  obtain err t1 where p: "pipe_Write bs ?t = (err, t1)" by fastforce
  have t1: "w_pipe t1 = w_pipe t @ (if w_closed t then [] else bs)"
    using p assms(1) by (auto simp: pipe_Write_def ws_inv_def split: if_splits)
  have t': "t' = (case err of
      Some e \<Rightarrow> wsSocket_fail (OtherError e) t1
    | None \<Rightarrow> (case fin of
        More \<Rightarrow> t1\<lparr>w_loop := InMessage (bs \<noteq> []) (copied \<or> bs \<noteq> [])\<rparr>
      | Failed e \<Rightarrow> wsSocket_fail (OtherError e) t1
      | MessageEnd \<Rightarrow>
          (if copied \<or> bs \<noteq> [] then wsSocket_armReadDeadline returned t1 else t1)\<lparr>w_loop := Between\<rparr>))"
    using assms(3) by (simp add: assms(2) p Let_def)
  show "w_pipe t' = w_pipe t @ (if w_closed t then [] else bs)"
    unfolding t' using t1 by (cases err; cases fin) simp_all
  show "\<not> w_closed t' \<Longrightarrow> in_loop (w_loop t') = (fin \<noteq> MessageEnd)"
    unfolding t' by (cases err; cases fin) (simp_all add: in_loop_def)
qed

lemma readLoop_relays:
  assumes "ws_inv t" and "wsSocket_readLoop L called returned ev (w_loop t) t = t'"
  shows "w_pipe t' = w_pipe t @ (if w_closed t then [] else event_data (in_loop (w_loop t)) ev) \<and>
    (\<not> w_closed t' \<longrightarrow> in_loop (w_loop t') = in_message (in_loop (w_loop t)) ev)"
proof (cases "w_loop t")
  case Between
  show ?thesis
  proof (cases ev)
    case (ControlFrame opcode p locked)
    with assms(2) Between have c: "control_result (wsSocket_handleControl L returned locked opcode p t) Between = t'"
      by simp
    show ?thesis
      using control_result_simps [OF c] by (auto simp: Between ControlFrame in_loop_def)
  qed (use assms(2) Between in \<open>auto simp: in_loop_def\<close>)
next
  case (InMessage progressed copied)
  show ?thesis
  proof (cases ev)
    case (ReadReturns bs fin)
    show ?thesis
      using readLoop_ReadReturns [OF assms(1) InMessage assms(2) [unfolded ReadReturns]]
      by (cases fin) (auto simp: InMessage ReadReturns in_loop_def)
  next
    case (ReadIntermediate opcode p locked)
    let ?t = "if progressed then wsSocket_armReadDeadline called t else t"
    from assms(2) have c: "control_result (wsSocket_handleControl L returned locked opcode p ?t)
        (InMessage False copied) = t'"
      by (simp only: InMessage ReadIntermediate Let_def wsSocket_readLoop.simps)
    show ?thesis
      using control_result_simps [OF c] by (auto simp: InMessage ReadIntermediate in_loop_def)
  qed (use assms(2) InMessage in \<open>auto simp: in_loop_def\<close>)
next
  case Ended
  with assms(1) have "w_closed t" by (simp add: ws_inv_def)
  moreover have "t' = t" using assms(2) Ended by (cases ev) simp_all
  ultimately show ?thesis by simp
qed

lemma ws_step_Call:
  assumes "ws_step L (Call a) t = (err, t')"
  shows "w_pipe t' = w_pipe t" "w_loop t' = w_loop t"
    "\<not> is_OpSetTimeOut a \<Longrightarrow> readDeadline (w_conn t') = readDeadline (w_conn t)"
proof -
  have written: "wsSocket_Send_write L now v t = (res, t1) \<Longrightarrow> w_pipe t1 = w_pipe t \<and>
      w_loop t1 = w_loop t \<and> readDeadline (w_conn t1) = readDeadline (w_conn t)" for now v res t1
    by (auto simp: wsSocket_Send_write_def split: option.splits prod.splits
        dest: writeFrameLocked_same)
  have finished: "wsSocket_Send_finish res t1 = (e, t2) \<Longrightarrow> w_pipe t2 = w_pipe t1 \<and>
      w_loop t2 = w_loop t1 \<and> readDeadline (w_conn t2) = readDeadline (w_conn t1)" for res t1 e t2
    by (auto simp: wsSocket_Send_finish_def split: option.splits prod.splits bool.splits)
  have "w_pipe t' = w_pipe t \<and> w_loop t' = w_loop t \<and>
      (\<not> is_OpSetTimeOut a \<longrightarrow> readDeadline (w_conn t') = readDeadline (w_conn t))"
  proof (cases a)
    case (OpSend now lt cp)
    show ?thesis
    proof (cases "\<not> lt \<and> w_closed t")
      case False
      obtain res t1 where w: "wsSocket_Send_write L now (packet_any cp) t = (res, t1)" by fastforce
      then have "wsSocket_Send_finish res t1 = (err, t')"
        using assms OpSend False by (auto simp: wsSocket_Send_def split: if_splits)
      from finished [OF this] written [OF w] show ?thesis by simp
    qed (use assms OpSend in \<open>auto simp: wsSocket_Send_def\<close>)
  next
    case (OpClose now)
    then show ?thesis
      using assms closeWithCause_simps(3,4,6) [of ErrClosed t] by (auto simp: wsSocket_Close_def)
  qed (use assms in \<open>auto simp: wsSocket_SetTimeOut_def\<close>)
  then show "w_pipe t' = w_pipe t" "w_loop t' = w_loop t"
    "\<not> is_OpSetTimeOut a \<Longrightarrow> readDeadline (w_conn t') = readDeadline (w_conn t)" by blast+
qed

lemma ws_inv_step:
  assumes "ws_laws L wire_of payload" and "ws_inv t"
    and "\<And>a. act = Call a \<Longrightarrow> is_OpSend a \<Longrightarrow> sendable m (op_packet a)" and "ws_step L act t = (err, t')"
  shows "ws_inv t'" and "w_closed t \<Longrightarrow> w_closed t'"
  using ws_step_framed [OF assms] by (auto simp: framed_def puts_def)

lemma message_data_closed:
  assumes "ws_laws L wire_of payload" and "ws_inv t" and "w_closed t"
    and "\<forall>act \<in> set acts. \<forall>a. act = Call a \<and> is_OpSend a \<longrightarrow> sendable m (op_packet a)"
    and "ws_run L acts t = (acc, t')"
  shows "w_pipe t' = w_pipe t \<and> w_closed t'"
  using assms(2-5)
proof (induction acts arbitrary: t acc)
  case (Cons act acts)
  from Cons.prems(4) obtain err t1 acc1 where s: "ws_step L act t = (err, t1)"
    "ws_run L acts t1 = (acc1, t')" by (rule ws_run_Cons)
  have t1: "ws_inv t1" "w_closed t1"
    using ws_inv_step [OF assms(1) Cons.prems(1) _ s(1), of m] Cons.prems(2,3) by auto
  have "w_pipe t1 = w_pipe t"
  proof (cases act)
    case (Call a)
    then show ?thesis using ws_step_Call(1) s(1) by blast
  next
    case (Frame called returned ev)
    then show ?thesis using readLoop_relays [OF Cons.prems(1), of L called returned ev t1] s(1) Cons.prems(2) by simp
  qed
  with Cons.IH [OF t1 _ s(2)] Cons.prems(3) show ?case by simp
qed simp

text \<open>The pipe gets the data of the messages, in order, all of it while the socket is open.\<close>

lemma ws_run_relays:
  assumes "ws_laws L wire_of payload" and "ws_inv t"
    and "\<forall>act \<in> set acts. \<forall>a. act = Call a \<and> is_OpSend a \<longrightarrow> sendable m (op_packet a)"
    and "ws_run L acts t = (acc, t')"
  shows "(\<exists>rest. w_pipe t' @ rest = w_pipe t @ message_data (in_loop (w_loop t)) (frame_events acts)) \<and>
    (\<not> w_closed t' \<longrightarrow> w_pipe t' = w_pipe t @ message_data (in_loop (w_loop t)) (frame_events acts))"
proof (cases "w_closed t")
  case True
  then show ?thesis using message_data_closed [OF assms(1,2) _ assms(3,4)] by auto
next
  case False
  then show ?thesis
    using assms(2-4)
  proof (induction acts arbitrary: t acc)
    case (Cons act acts)
    from Cons.prems(4) obtain err t1 acc1 where s: "ws_step L act t = (err, t1)"
      "ws_run L acts t1 = (acc1, t')" by (rule ws_run_Cons)
    have t1: "ws_inv t1"
      using ws_inv_step [OF assms(1) Cons.prems(2) _ s(1), of m] Cons.prems(3) by auto
    let ?d = "case act of Frame _ _ ev \<Rightarrow> event_data (in_loop (w_loop t)) ev | Call _ \<Rightarrow> []"
    have step: "w_pipe t1 = w_pipe t @ ?d \<and> (\<not> w_closed t1 \<longrightarrow>
        message_data (in_loop (w_loop t)) (frame_events (act # acts)) =
          ?d @ message_data (in_loop (w_loop t1)) (frame_events acts)) \<and>
        (\<exists>rest. message_data (in_loop (w_loop t)) (frame_events (act # acts)) = ?d @ rest)"
    proof (cases act)
      case (Call a)
      then show ?thesis using ws_step_Call [of L a t err t1] s(1) by (simp add: frame_events_def)
    next
      case (Frame called returned ev)
      then show ?thesis
        using readLoop_relays [OF Cons.prems(2), of L called returned ev t1] s(1) Cons.prems(1)
        by (auto simp: frame_events_def)
    qed
    show ?case
    proof (cases "w_closed t1")
      case True
      then have "w_pipe t' = w_pipe t1" "w_closed t'"
        using message_data_closed [OF assms(1) t1 _ _ s(2), of m] Cons.prems(3) by auto
      with step show ?thesis by auto
    next
      case False
      with Cons.IH [OF False t1 _ s(2)] Cons.prems(3) step show ?thesis by auto
    qed
  qed (simp add: frame_events_def)
qed

text \<open>Calls and events that are no activity of the peer, with the loop between two messages or
  inside one that makes no progress.\<close>

fun quiet :: "ws_act \<Rightarrow> bool" where
  "quiet (Frame called returned (ControlFrame opcode p locked)) = True"
| "quiet (Frame called returned (ReadIntermediate opcode p locked)) = True"
| "quiet (Frame called returned (ReadReturns bs fin)) = (bs = [] \<and> fin = More)"
| "quiet (Call a) = (\<not> is_OpSetTimeOut a)"
| "quiet (Frame called returned ev) = False"

definition stalled :: "loop \<Rightarrow> bool" where
  "stalled lp \<longleftrightarrow> (\<forall>progressed copied. lp = InMessage progressed copied \<longrightarrow> \<not> progressed)"

lemma stalled_simps [simp]: "stalled Between" "stalled Ended" "stalled (InMessage p c) = (\<not> p)"
  by (simp_all add: stalled_def)

lemma quiet_step:
  assumes "quiet act" and "stalled (w_loop t)" and "ws_step L act t = (err, t')"
  shows "readDeadline (w_conn t') = readDeadline (w_conn t) \<and> stalled (w_loop t')"
proof (cases act)
  case (Call a)
  then show ?thesis using ws_step_Call [of L a t err t'] assms by simp
next
  case (Frame called returned ev)
  then have t': "t' = wsSocket_readLoop L called returned ev (w_loop t) t" using assms(3) by simp
  have control: "readDeadline (w_conn u) = readDeadline (w_conn t) \<and> stalled (w_loop u)"
    if "u = control_result (wsSocket_handleControl L now locked opcode p t) lp" "stalled lp"
    for u now locked opcode p lp
    using control_result_simps(2,3) [OF that(1) [symmetric]] that(2) by auto
  show ?thesis
  proof (cases "w_loop t")
    case Between
    then show ?thesis
      using assms(1) by (cases ev) (simp_all add: t' Frame control [OF refl])
  next
    case (InMessage progressed copied)
    with assms(2) have "w_loop t = InMessage False copied" by simp
    then show ?thesis
      using assms(1) by (cases ev) (simp_all add: t' Frame pipe_Write_def control [OF refl])
  next
    case Ended
    then show ?thesis using assms(2) by (cases ev) (simp_all add: t')
  qed
qed

lemma quiet_run:
  "\<forall>act \<in> set acts. quiet act \<Longrightarrow> stalled (w_loop t) \<Longrightarrow> ws_run L acts t = (acc, t') \<Longrightarrow>
     readDeadline (w_conn t') = readDeadline (w_conn t)"
proof (induction acts arbitrary: t acc)
  case (Cons act acts)
  from Cons.prems(3) obtain err t1 acc1 where s: "ws_step L act t = (err, t1)"
    "ws_run L acts t1 = (acc1, t')" by (rule ws_run_Cons)
  with Cons.IH [OF _ _ s(2)] Cons.prems quiet_step [of act t L err t1] show ?case by simp
qed simp

section \<open>Properties\<close>

text \<open>
  A library of frames for the witnesses: a frame is an opcode byte and its payload, written by
  one call; masking does nothing.
\<close>

definition sample_ws :: "bytes ws_lib" where
  "sample_ws =
     \<lparr>NewBinaryFrame = \<lambda>b. 130 # b, NewPongFrame = \<lambda>b. 138 # b, NewCloseFrame = \<lambda>b. 136 # b,
      NewCloseFrameBody = \<lambda>code reason. [ucast (drop_bit 8 code), ucast code] @ reason,
      ParseCloseFrameData = \<lambda>p. (0, drop 2 p), MaskFrameInPlace = \<lambda>f. f,
      WriteFrame = \<lambda>w f. (case Write w f of ((n, err), w') \<Rightarrow> (err, w'))\<rparr>"

definition sample_payload :: "bytes \<Rightarrow> bytes option" where
  "sample_payload f = (case f of [] \<Rightarrow> None | x # b \<Rightarrow> if x = 130 then Some b else None)"

lemma sample_ws_laws: "ws_laws sample_ws (\<lambda>f. f) sample_payload"
  unfolding ws_laws_def
proof (intro conjI allI impI)
  fix w f w'
  assume "WriteFrame sample_ws w f = (None, w')"
  then obtain n where "Write w f = ((n, None), w')"
    by (auto simp: sample_ws_def split: prod.splits)
  from Write_sent [OF this] Write_error_iff [OF this] show "sent w' = sent w @ f" by simp
next
  fix w f err w'
  assume "WriteFrame sample_ws w f = (Some err, w')"
  then obtain n where "Write w f = ((n, Some err), w')"
    by (auto simp: sample_ws_def split: prod.splits)
  from Write_sent [OF this] show "\<exists>part. sent w' = sent w @ part" by blast
qed (simp_all add: sample_ws_def sample_payload_def)

definition sample_ws_ping :: ControlPacket where
  "sample_ws_ping = PingreqP \<lparr>pingreq_FixedHeader = zeroHeader Pingreq 0\<rparr>"

lemma sample_ws_ping_sendable: "sendable 0 sample_ws_ping"
  by (simp add: sendable_def sample_ws_ping_def control_wf_def header_ok_def zeroHeader_def
      clampLimit_def MaxRemainingLength_def)

definition sample_ws_conn :: "(nat \<times> error) option list \<Rightarrow> conn" where
  "sample_ws_conn fs = \<lparr>incoming = buffer [], outgoing_wire = \<lparr>calls = [], faults = fs\<rparr>,
     connOpen = True, closeResult = None, readDeadline = None, writeDeadline = None,
     tlsState = None, pendingHandshake = None, localAddr = [], remoteAddr = []\<rparr>"

lemma ws_newSocket_simps [simp]:
  "ws_wire (ws_newSocket now c extra timeout client) = sent (outgoing_wire c)"
  "w_pipe (ws_newSocket now c extra timeout client) = []"
  "w_loop (ws_newSocket now c extra timeout client) = Between"
  "w_closed (ws_newSocket now c extra timeout client) = False"
  "w_timeout (ws_newSocket now c extra timeout client) = timeout"
  by (simp_all add: ws_newSocket_def Let_def)

lemma ws_inv_newSocket: "ws_inv (ws_newSocket now c extra timeout client)"
  by (simp add: ws_newSocket_def Let_def) (simp add: ws_inv_def)



text \<open>
  C35: a session over WebSocket. However the peer's data is cut into messages and fragments and
  whatever control frames and calls come in between, if the data spells packets and the peer then
  closes the WebSocket, the \<^verbatim>\<open>Recv\<close> calls of the session see exactly these packets and then the
  orderly end; after a local \<^verbatim>\<open>Close\<close> at this point they would see the packets and \<open>ErrClosed\<close>.
  Either way the socket is closed and \<^verbatim>\<open>Send\<close> returns \<open>ErrClosed\<close>.
\<close>

theorem ws_session:
  assumes "ws_laws L wire_of payload"
    and "\<forall>act \<in> set acts. \<forall>a. act = Call a \<and> is_OpSend a \<longrightarrow> sendable m' (op_packet a)"
    and "ws_run L acts (ws_newSocket now c extra timeout client) = (acc, t)"
    and "\<not> w_closed t" and "w_loop t = Between"
    and "message_data False (frame_events acts) = concat (map encode cps)"
    and "\<forall>cp \<in> set cps. sendable m cp"
    and "t' = snd (ws_step L (Frame called returned (ControlFrame OpCloseFrame (Inr p) locked)) t) \<and> e = EOF \<or>
      t' = snd (ws_step L (Call (OpClose called)) t) \<and> e = ErrClosed"
    and "data r = w_pipe t'" and "Some (final r) = w_cause t'"
  shows "\<exists>r'. read_packets m (length cps) r = (Inr (map as_received cps), r') \<and>
    fst (ReadPacketLimit m r') = Inl e \<and> wsSocket_Send L later v t' = (Some ErrClosed, t')"
proof -
  have inv: "ws_inv t"
    using ws_run_framed [OF assms(1) ws_inv_newSocket assms(2,3)] by (simp add: framed_def)
  have pipe: "w_pipe t = concat (map encode cps)"
    using ws_run_relays [OF assms(1) ws_inv_newSocket assms(2,3)] assms(4,6) by (simp add: in_loop_def)
  have "w_pipe t' = w_pipe t \<and> w_closed t' \<and> w_cause t' = Some e"
    using assms(8)
  proof
    assume "t' = snd (ws_step L (Call (OpClose called)) t) \<and> e = ErrClosed"
    then show ?thesis
      using assms(4) by (simp add: wsSocket_Close_def wsSocket_closeWithCause_def)
  next
    assume "t' = snd (ws_step L (Frame called returned (ControlFrame OpCloseFrame (Inr p) locked)) t) \<and> e = EOF"
    then have t': "control_result (wsSocket_handleControl L returned locked OpCloseFrame (Inr p) t) Between = t'"
      and e: "e = EOF" using assms(5) by simp_all
    obtain err t1 where h: "wsSocket_handleControl L returned locked OpCloseFrame (Inr p) t = (err, t1)" by fastforce
    have "w_closed t1 = w_closed t" using handleControl_cases [OF assms(1) inv h] by (metis wsSocket.select_convs(8)
          wsSocket.surjective wsSocket.update_convs(1))
    moreover have "\<exists>code reason. err = Some (ClosedError code reason)"
      using h by (auto simp: wsSocket_handleControl_def Let_def split: prod.splits)
    ultimately show ?thesis
      using control_result_simps(1) [OF t'] t' h assms(4) e
      by (auto simp: control_result_def wsSocket_fail_def wsSocket_closeWithCause_def)
  qed
  moreover from this assms(9) pipe have "data r = concat (map encode cps) @ []" by simp
  from read_packets_stream [OF assms(7) this] obtain r' where
    "read_packets m (length cps) r = (Inr (map as_received cps), r')" "data r' = []" "final r' = final r"
    by auto
  ultimately show ?thesis
    using assms(10) ReadPacketLimit_at_end [of r' m] by (auto simp: wsSocket_Send_def)
qed

lemma sample_session:
  "ws_run sample_ws [Frame 1 1 DataFrame, Frame 1 2 (ReadReturns (encode sample_ws_ping) MessageEnd)]
     (ws_newSocket 0 (sample_ws_conn []) None 0 False) =
   ([], (ws_newSocket 0 (sample_ws_conn []) None 0 False)\<lparr>w_pipe := encode sample_ws_ping\<rparr>)"
  by (auto simp: ws_accepted_def pipe_Write_def ws_newSocket_def wsSocket_armReadDeadline_def deadline_def
      sample_ws_conn_def SetReadDeadline_def Let_def)

theorem ws_session_witness:
  "\<exists>r'. read_packets 0 1 (flat (encode sample_ws_ping) EOF False) = (Inr [as_received sample_ws_ping], r') \<and>
    fst (ReadPacketLimit 0 r') = Inl EOF"
proof -
  let ?t = "(ws_newSocket 0 (sample_ws_conn []) None 0 False)\<lparr>w_pipe := encode sample_ws_ping\<rparr>"
  let ?t' = "snd (ws_step sample_ws (Frame 3 4 (ControlFrame OpCloseFrame (Inr []) True)) ?t)"
  have t': "w_pipe ?t' = encode sample_ws_ping" "w_cause ?t' = Some EOF"
    by (simp_all add: control_result_def wsSocket_handleControl_def sample_ws_def wsSocket_tryWriteFrame_def
        wsSocket_fail_def wsSocket_closeWithCause_def)
  have "\<exists>r'. read_packets 0 (length [sample_ws_ping]) (flat (encode sample_ws_ping) EOF False) =
      (Inr (map as_received [sample_ws_ping]), r') \<and> fst (ReadPacketLimit 0 r') = Inl EOF \<and>
      wsSocket_Send sample_ws 0 NilV ?t' = (Some ErrClosed, ?t')"
    by (rule ws_session [OF sample_ws_laws _ sample_session, where m' = 0])
      (use t' sample_ws_ping_sendable in \<open>simp_all add: frame_events_def flat_def data_def\<close>)
  then show ?thesis by auto
qed



text \<open>
  Empty messages, on the other hand, do: the \<^verbatim>\<open>progressReader\<close> of a message starts with its flag
  set, so the first read of any data message, with data or without, arms the deadline anew.
\<close>

theorem ws_empty_message_rearms:
  assumes "w_loop t = Between" and "connOpen (w_conn t)" and "w_timeout t > 0"
  shows "readDeadline (w_conn (snd (ws_run L
      [Frame now now DataFrame, Frame now now (ReadReturns [] MessageEnd)] t))) =
    Some (now + w_timeout t)"
  using assms
  by (simp add: pipe_Write_def wsSocket_armReadDeadline_def SetReadDeadline_def deadline_def)

text \<open>
  Two senders. \<^verbatim>\<open>writeFrame\<close> releases the write lock before \<^verbatim>\<open>Send\<close> closes the socket after a
  failed write. A second \<^verbatim>\<open>Send\<close> that waited for the lock can run in between, with a fresh
  deadline: it returns nil, and its frame follows a torn one on the wire.
\<close>

theorem ws_send_race:
  "\<exists>(L :: bytes ws_lib) wire_of payload t res1 t1 t2 frame.
     ws_laws L wire_of payload \<and> ws_inv t \<and> \<not> w_closed t \<and> sendable 0 sample_ws_ping \<and>
     frame = wire_of (NewBinaryFrame L (encode sample_ws_ping)) \<and>
     wsSocket_Send_write L 1 (packet_any sample_ws_ping) t = (res1, t1) \<and> fst res1 \<noteq> None \<and>
     wsSocket_Send L 2 (packet_any sample_ws_ping) t1 = (None, t2) \<and>
     sent (outgoing_wire (w_conn t2)) = take 2 frame @ frame \<and> take 2 frame \<noteq> frame \<and>
     w_closed (snd (wsSocket_Send_finish res1 t2))"
proof -
  let ?t = "ws_newSocket 0 (sample_ws_conn [Some (2, EOF)]) None 0 False"
  let ?frame = "130 # encode sample_ws_ping"
  obtain res1 t1 where s1: "wsSocket_Send_write sample_ws 1 (packet_any sample_ws_ping) ?t = (res1, t1)" by fastforce
  obtain err t2 where s2: "wsSocket_Send sample_ws 2 (packet_any sample_ws_ping) t1 = (err, t2)" by fastforce
  have enc: "encode sample_ws_ping = [192, 0]"
    by (simp add: sample_ws_ping_def encode_def frame_def header_byte_def zeroHeader_def
        boolToByte_def encodeLength.simps)
  have buf: "WriteTo sample_ws_ping newBuffer = Some ((2, None), newBuffer\<lparr>calls := [[192, 0]]\<rparr>)"
    using WriteTo_encode [OF sample_ws_ping_sendable, of newBuffer] by (simp add: enc)
  have "fst res1 = Some EOF \<and> snd res1 \<and> err = None \<and> \<not> w_closed ?t \<and>
      sent (outgoing_wire (w_conn t2)) = take 2 ?frame @ ?frame"
    using s1 s2
    by (auto simp: wsSocket_Send_def wsSocket_Send_write_def wsSocket_Send_finish_def buf ws_newSocket_def
        wsSocket_armReadDeadline_def SetReadDeadline_def SetWriteDeadline_def sample_ws_conn_def
        wsSocket_writeFrameLocked_def sample_ws_def Write_def sent_def Let_def enc)
  then show ?thesis
    using s1 s2 sample_ws_laws ws_inv_newSocket [of 0 "sample_ws_conn [Some (2, EOF)]" None 0 False]
      sample_ws_ping_sendable
    by (intro exI [of _ sample_ws] exI [of _ "\<lambda>f. f"] exI [of _ sample_payload] exI [of _ ?t]
        exI [of _ res1] exI [of _ t1] exI [of _ t2] exI [of _ ?frame])
      (cases res1, auto simp: sample_ws_def enc wsSocket_Send_finish_def)
qed

end
