(* ===== verification/BrokerSockets.thy ===== *)
theory BrokerSockets
  imports BrokerRuns TcpSocket QuicSocket WsSocket
begin

text \<open>
  The sockets of the transports under the broker. The broker is verified over sockets of type
  \<open>sock\<close>, whose coming \<^verbatim>\<open>Send\<close> results are given in advance and arbitrary. Here it is shown that
  this loses nothing: whatever calls a socket of a transport gets, some \<open>sock\<close> answers them all in
  the same way, and the packets the \<open>sock\<close> records are those on the wire. The interface
  \<open>broker_socket\<close> says what a transport has to keep for that; TCP and QUIC sockets keep it. A
  WebSocket socket also takes steps of its own, so it gets a simulation that includes them.
\<close>

section \<open>Calls and their answers\<close>

text \<open>
  What a caller learns from a call: whether a send succeeded (the broker looks no further at the
  error), and the packet or error of a receive.
\<close>

datatype answer = Sent bool | Got "error + ControlPacket" | Done

fun sock_call :: "op \<Rightarrow> sock \<Rightarrow> answer \<times> sock" where
  "sock_call (OpSend now lt cp) s = (case Send s cp of (err, s') \<Rightarrow> (Sent (err = None), s'))"
| "sock_call (OpRecv now m) s = (case recv s of (res, s') \<Rightarrow> (Got res, s'))"
| "sock_call (OpSetTimeOut now d) s = (Done, SetTimeOut d s)"
| "sock_call (OpClose now) s = (Done, Close_sock s)"

primrec run_calls :: "(op \<Rightarrow> 's \<Rightarrow> answer \<times> 's) \<Rightarrow> op list \<Rightarrow> 's \<Rightarrow> answer list \<times> 's" where
  "run_calls call [] s = ([], s)"
| "run_calls call (a # as) s = (case call a s of (ans, s') \<Rightarrow>
     (case run_calls call as s' of (anss, s'') \<Rightarrow> (ans # anss, s'')))"

lemma run_calls_Cons:
  assumes "run_calls call (a # as) s = (anss, s')"
  obtains ans s1 anss1 where "call a s = (ans, s1)" "run_calls call as s1 = (anss1, s')"
    "anss = ans # anss1"
  using assms by (auto split: prod.splits)

text \<open>The calls the broker makes: it sends what fits, and receives with its own limit.\<close>

fun broker_call :: "op \<Rightarrow> bool" where
  "broker_call (OpSend now lt cp) = sendable maxPacketSize cp"
| "broker_call (OpRecv now m) = (m = maxPacketSize)"
| "broker_call _ = True"

fun sent_packets :: "op \<Rightarrow> answer \<Rightarrow> ControlPacket list" where
  "sent_packets (OpSend now lt cp) (Sent True) = [cp]"
| "sent_packets _ _ = []"

fun sent_in :: "op list \<Rightarrow> answer list \<Rightarrow> ControlPacket list" where
  "sent_in (a # as) (ans # anss) = sent_packets a ans @ sent_in as anss"
| "sent_in _ _ = []"

section \<open>The interface\<close>

text \<open>
  A transport's socket: its calls, and what there is to see of it: what it will read, its
  timeout, whether it is closed, and what is on the wire.
\<close>

locale broker_socket =
  fixes call :: "op \<Rightarrow> 's \<Rightarrow> answer \<times> 's"
    and rd :: "'s \<Rightarrow> reader"
    and tmo :: "'s \<Rightarrow> int"
    and is_closed :: "'s \<Rightarrow> bool"
    and wire :: "'s \<Rightarrow> bytes"
    and inv :: "'s \<Rightarrow> bool"
  assumes call_inv: "inv s \<Longrightarrow> inv (snd (call a s))"
    and send_call: "inv s \<Longrightarrow> sendable maxPacketSize cp \<Longrightarrow> call (OpSend now lt cp) s = (ans, s') \<Longrightarrow>
      (\<not> is_closed s' \<longrightarrow> rd s' = rd s) \<and> tmo s' = tmo s \<and> (is_closed s \<longrightarrow> is_closed s') \<and>
      (ans = Sent True \<and> \<not> is_closed s \<and> \<not> is_closed s' \<and> wire s' = wire s @ encode cp \<or>
       ans = Sent False \<and> (\<exists>partial. wire s' = wire s @ partial \<and>
         (partial \<noteq> [] \<longrightarrow> \<not> is_closed s \<and> is_closed s')))"
    and recv_call: "inv s \<Longrightarrow> call (OpRecv now m) s = (ans, s') \<Longrightarrow>
      tmo s' = tmo s \<and> is_closed s' = is_closed s \<and> wire s' = wire s \<and>
      (\<exists>res. ans = Got res \<and> (if is_closed s then res = Inl ErrClosed
        else ReadPacketLimit m (rd s) = (res, rd s')))"
    and timeout_call: "inv s \<Longrightarrow> call (OpSetTimeOut now d) s = (ans, s') \<Longrightarrow> ans = Done \<and>
      tmo s' = d \<and> (\<not> is_closed s \<longrightarrow> rd s' = rd s) \<and> is_closed s' = is_closed s \<and> wire s' = wire s"
    and close_call: "inv s \<Longrightarrow> call (OpClose now) s = (ans, s') \<Longrightarrow> ans = Done \<and>
      is_closed s' \<and> tmo s' = tmo s \<and> wire s' = wire s"
begin

text \<open>
  A \<open>sock\<close> stands for a socket if both show the same: what is still to be read matters only as
  long as the socket is open.
\<close>

definition stands_for :: "sock \<Rightarrow> 's \<Rightarrow> bool" where
  "stands_for sk s \<longleftrightarrow> sockTimeout sk = tmo s \<and> sockClosed sk = is_closed s \<and>
     (\<not> is_closed s \<longrightarrow> input sk = rd s)"

text \<open>One call is answered in the same way by the \<open>sock\<close> that knows its result.\<close>

lemma call_simulated:
  assumes "inv s" and "broker_call a" and "call a s = (ans, s')"
  shows "\<exists>os. \<forall>sk os'. stands_for sk s \<and> outcomes sk = os @ os' \<longrightarrow> (\<exists>sk'.
    sock_call a sk = (ans, sk') \<and> stands_for sk' s' \<and> outcomes sk' = os' \<and>
    packets sk' = packets sk @ sent_packets a ans)"
proof (cases a)
  case (OpSend now lt cp)
  with assms send_call [OF assms(1), of cp now lt ans s'] have s': "\<not> is_closed s' \<longrightarrow> rd s' = rd s"
    "tmo s' = tmo s" "is_closed s \<longrightarrow> is_closed s'"
    "ans = Sent True \<and> \<not> is_closed s \<and> \<not> is_closed s' \<or> ans = Sent False"
    by auto
  let ?os = "if is_closed s then [] else [if ans = Sent True then None else Some (ErrClosed, is_closed s')]"
  have "\<exists>sk'. sock_call a sk = (ans, sk') \<and> stands_for sk' s' \<and> outcomes sk' = os' \<and>
      packets sk' = packets sk @ sent_packets a ans"
    if "stands_for sk s" "outcomes sk = ?os @ os'" for sk os'
    using OpSend s' that by (auto simp: stands_for_def Send_def)
  then show ?thesis by blast
next
  case (OpRecv now m)
  with assms recv_call [OF assms(1), of now m ans s'] show ?thesis
    by (intro exI [of _ "[]"]) (auto simp: stands_for_def recv_def split: if_splits)
next
  case (OpSetTimeOut now d)
  with assms timeout_call [OF assms(1), of now d ans s'] show ?thesis
    by (intro exI [of _ "[]"]) (auto simp: stands_for_def SetTimeOut_def)
next
  case (OpClose now)
  with assms close_call [OF assms(1), of now ans s'] show ?thesis
    by (intro exI [of _ "[]"]) (auto simp: stands_for_def Close_sock_def)
qed

text \<open>What one call adds to the wire.\<close>

lemma call_framed:
  assumes "inv s" and "broker_call a" and "call a s = (ans, s')"
  shows "(\<exists>partial. wire s' = wire s @ concat (map encode (sent_packets a ans)) @ partial \<and>
      (partial \<noteq> [] \<longrightarrow> is_closed s')) \<and>
    (is_closed s \<longrightarrow> is_closed s' \<and> wire s' = wire s \<and> sent_packets a ans = [])"
proof (cases a)
  case (OpSend now lt cp)
  with assms send_call [OF assms(1), of cp now lt ans s'] show ?thesis by auto
next
  case (OpRecv now m)
  with assms recv_call [OF assms(1), of now m ans s'] show ?thesis by auto
next
  case (OpSetTimeOut now d)
  with assms timeout_call [OF assms(1), of now d ans s'] show ?thesis by auto
next
  case (OpClose now)
  with assms close_call [OF assms(1), of now ans s'] show ?thesis by auto
qed

text \<open>All calls, one after the other.\<close>

lemma run_closed:
  assumes "run_calls call as s = (anss, s')" and "inv s" and "list_all broker_call as" and "is_closed s"
  shows "sent_in as anss = [] \<and> is_closed s' \<and> wire s' = wire s"
  using assms
proof (induction as arbitrary: s anss)
  case (Cons a as)
  from Cons.prems(1) obtain ans s1 anss1 where c: "call a s = (ans, s1)"
    "run_calls call as s1 = (anss1, s')" "anss = ans # anss1" by (rule run_calls_Cons)
  moreover have "inv s1" using call_inv [OF Cons.prems(2), of a] c(1) by simp
  ultimately show ?case
    using Cons.IH [of s1 anss1] Cons.prems call_framed [OF Cons.prems(2) _ c(1)] by auto
qed simp

lemma run_framed:
  assumes "run_calls call as s = (anss, s')" and "inv s" and "list_all broker_call as"
  shows "\<exists>partial. wire s' = wire s @ concat (map encode (sent_in as anss)) @ partial \<and>
    (partial \<noteq> [] \<longrightarrow> is_closed s')"
  using assms
proof (induction as arbitrary: s anss)
  case (Cons a as)
  from Cons.prems(1) obtain ans s1 anss1 where c: "call a s = (ans, s1)"
    "run_calls call as s1 = (anss1, s')" "anss = ans # anss1" by (rule run_calls_Cons)
  have s1: "inv s1" using call_inv [OF Cons.prems(2), of a] c(1) by simp
  obtain p where p: "wire s1 = wire s @ concat (map encode (sent_packets a ans)) @ p" "p \<noteq> [] \<longrightarrow> is_closed s1"
    using call_framed [OF Cons.prems(2) _ c(1)] Cons.prems(3) by auto
  show ?case
  proof (cases "p = []")
    case True
    with Cons.IH [OF c(2) s1] Cons.prems(3) p c(3) show ?thesis by auto
  next
    case False
    with run_closed [OF c(2) s1] Cons.prems(3) p c(3) show ?thesis by auto
  qed
qed simp

lemma run_simulated:
  assumes "run_calls call as s = (anss, s')" and "inv s" and "list_all broker_call as"
  shows "\<exists>os. \<forall>sk os'. stands_for sk s \<and> outcomes sk = os @ os' \<longrightarrow> (\<exists>sk'.
    run_calls sock_call as sk = (anss, sk') \<and> stands_for sk' s' \<and> outcomes sk' = os' \<and>
    packets sk' = packets sk @ sent_in as anss)"
  using assms
proof (induction as arbitrary: s anss)
  case Nil
  then show ?case by (intro exI [of _ "[]"]) simp
next
  case (Cons a as)
  from Cons.prems(1) obtain ans s1 anss1 where c: "call a s = (ans, s1)"
    "run_calls call as s1 = (anss1, s')" "anss = ans # anss1" by (rule run_calls_Cons)
  have s1: "inv s1" using call_inv [OF Cons.prems(2), of a] c(1) by simp
  obtain os where os: "\<And>sk os'. stands_for sk s \<Longrightarrow> outcomes sk = os @ os' \<Longrightarrow> \<exists>sk'.
      sock_call a sk = (ans, sk') \<and> stands_for sk' s1 \<and> outcomes sk' = os' \<and>
      packets sk' = packets sk @ sent_packets a ans"
    using call_simulated [OF Cons.prems(2) _ c(1)] Cons.prems(3) by auto
  obtain os1 where os1: "\<And>sk os'. stands_for sk s1 \<Longrightarrow> outcomes sk = os1 @ os' \<Longrightarrow> \<exists>sk'.
      run_calls sock_call as sk = (anss1, sk') \<and> stands_for sk' s' \<and> outcomes sk' = os' \<and>
      packets sk' = packets sk @ sent_in as anss1"
    using Cons.IH [OF c(2) s1] Cons.prems(3) by auto
  have "\<exists>sk'. run_calls sock_call (a # as) sk = (anss, sk') \<and> stands_for sk' s' \<and>
      outcomes sk' = os' \<and> packets sk' = packets sk @ sent_in (a # as) anss"
    if "stands_for sk s" "outcomes sk = (os @ os1) @ os'" for sk os'
    using os [OF that(1), of "os1 @ os'"] os1 that(2) c(3) by fastforce
  then show ?case by blast
qed

text \<open>
  The whole story of a socket: a \<open>sock\<close> gives the same answers and records the packets that are
  on the wire, where at most the end of a closed one is torn.
\<close>

lemma run_implements:
  assumes "run_calls call as s = (anss, s')" and "inv s" and "list_all broker_call as"
    and "wire s = []"
  shows "\<exists>os sk partial. run_calls sock_call as \<lparr>input = rd s, packets = [], outcomes = os,
      sockTimeout = tmo s, sockClosed = is_closed s\<rparr> = (anss, sk) \<and>
    stands_for sk s' \<and> wire s' = concat (map encode (packets sk)) @ partial \<and>
    (partial \<noteq> [] \<longrightarrow> is_closed s')"
proof -
  obtain os where os: "\<And>sk. stands_for sk s \<Longrightarrow> outcomes sk = os \<Longrightarrow> \<exists>sk'.
      run_calls sock_call as sk = (anss, sk') \<and> stands_for sk' s' \<and>
      packets sk' = packets sk @ sent_in as anss"
    using run_simulated [OF assms(1-3)] by (metis append_Nil2)
  let ?sk = "\<lparr>input = rd s, packets = [], outcomes = os, sockTimeout = tmo s, sockClosed = is_closed s\<rparr>"
  have "stands_for ?sk s" by (simp add: stands_for_def)
  from os [OF this] obtain sk' where sk': "run_calls sock_call as ?sk = (anss, sk')" "stands_for sk' s'"
    "packets sk' = sent_in as anss" by auto
  obtain partial where "wire s' = concat (map encode (packets sk')) @ partial" "partial \<noteq> [] \<longrightarrow> is_closed s'"
    using run_framed [OF assms(1-3)] assms(4) sk'(3) by auto
  with sk'(1,2) show ?thesis by blast
qed

end

section \<open>TCP sockets\<close>

fun tcp_call :: "op \<Rightarrow> tcpSocket \<Rightarrow> answer \<times> tcpSocket" where
  "tcp_call (OpSend now lt cp) t = (case tcp_op (OpSend now lt cp) t of (err, t') \<Rightarrow> (Sent (err = None), t'))"
| "tcp_call (OpRecv now m) t = (case tcpSocket_Recv now (Some (read_packet m)) t of (res, t') \<Rightarrow> (Got res, t'))"
| "tcp_call (OpSetTimeOut now d) t = (Done, tcpSocket_SetTimeOut now d t)"
| "tcp_call (OpClose now) t = (Done, snd (tcpSocket_Close t))"

text \<open>A socket is closed exactly if its connection is.\<close>

definition tcp_open_inv :: "tcpSocket \<Rightarrow> bool" where
  "tcp_open_inv t \<longleftrightarrow> t_closed t = (\<not> connOpen (t_conn t))"

lemma tcp_call_op: "snd (tcp_call a t) = snd (tcp_op a t)"
  by (cases a) (simp_all split: prod.split)

lemma tcp_send_view:
  assumes "tcpSocket_Send_locked now (packet_any cp) t = (err, t')"
  shows "incoming (t_conn t') = incoming (t_conn t)" and "t_timeout t' = t_timeout t"
    and "tcp_open_inv t \<Longrightarrow> tcp_open_inv t'" and "err = None \<Longrightarrow> t_closed t' = t_closed t"
  using assms
  by (auto simp: tcpSocket_Send_locked_def tcpSocket_handshake_def SetWriteDeadline_def
      tcpSocket_Close_def tcp_open_inv_def Let_def split: prod.splits option.splits if_splits)

lemma tcp_open_inv_call:
  assumes "tcp_open_inv t"
  shows "tcp_open_inv (snd (tcp_call a t))"
  unfolding tcp_call_op
proof (cases a)
  case (OpSend now lt cp)
  then show "tcp_open_inv (snd (tcp_op a t))"
    using assms tcp_send_view(3) [OF surjective_pairing assms] by (simp add: tcpSocket_Send_def)
qed (use assms in \<open>auto simp: tcp_open_inv_def tcpSocket_Recv_def tcpSocket_SetTimeOut_def
  tcpSocket_Close_def SetReadDeadline_def SetWriteDeadline_def Let_def
  split: prod.splits sum.splits if_splits\<close>)

lemma tcp_op_send_view:
  assumes "tcp_op (OpSend now lt cp) t = (err, t')"
  shows "incoming (t_conn t') = incoming (t_conn t)" and "t_timeout t' = t_timeout t"
    and "err = None \<Longrightarrow> t_closed t' = t_closed t"
  using assms tcp_send_view(1,2,4) [of now cp t err t']
  by (auto simp: tcpSocket_Send_def split: if_splits)

interpretation tcp_broker: broker_socket tcp_call "\<lambda>t. incoming (t_conn t)" t_timeout t_closed tcp_wire tcp_open_inv
proof
  fix t a assume "tcp_open_inv t"
  then show "tcp_open_inv (snd (tcp_call a t))" by (rule tcp_open_inv_call)
next
  fix t cp now lt ans t'
  assume t: "tcp_open_inv t" and s: "sendable maxPacketSize cp" and c: "tcp_call (OpSend now lt cp) t = (ans, t')"
  have inv: "tcp_inv t" using t by (simp add: tcp_inv_def tcp_open_inv_def)
  obtain err where e: "tcp_op (OpSend now lt cp) t = (err, t')" "ans = Sent (err = None)"
    using c by (auto split: prod.splits)
  note view = tcp_op_send_view [OF e(1)]
  show "(\<not> t_closed t' \<longrightarrow> incoming (t_conn t') = incoming (t_conn t)) \<and> t_timeout t' = t_timeout t \<and>
      (t_closed t \<longrightarrow> t_closed t') \<and>
      (ans = Sent True \<and> \<not> t_closed t \<and> \<not> t_closed t' \<and> tcp_wire t' = tcp_wire t @ encode cp \<or>
       ans = Sent False \<and> (\<exists>partial. tcp_wire t' = tcp_wire t @ partial \<and>
         (partial \<noteq> [] \<longrightarrow> \<not> t_closed t \<and> t_closed t')))"
  proof (cases err)
    case None
    with e tcp.send_ok [OF inv s] view show ?thesis by auto
  next
    case (Some er)
    with e(1) have "tcp_op (OpSend now lt cp) t = (Some er, t')" by simp
    from tcp.send_error [OF inv this] Some e view tcp.step_closed [of t "OpSend now lt cp"] show ?thesis
      by (simp add: e(1))
  qed
next
  fix t now m ans t'
  assume t: "tcp_open_inv t" and c: "tcp_call (OpRecv now m) t = (ans, t')"
  then show "t_timeout t' = t_timeout t \<and> t_closed t' = t_closed t \<and> tcp_wire t' = tcp_wire t \<and>
      (\<exists>res. ans = Got res \<and> (if t_closed t then res = Inl ErrClosed
        else ReadPacketLimit m (incoming (t_conn t)) = (res, incoming (t_conn t'))))"
    by (auto simp: tcpSocket_Recv_def tcp_open_inv_def SetReadDeadline_def read_packet_def
        split: prod.splits if_splits)
qed (auto simp: tcpSocket_SetTimeOut_def SetReadDeadline_def SetWriteDeadline_def tcpSocket_Close_def Let_def split: if_splits)

section \<open>QUIC sockets\<close>

text \<open>
  What a receive relies on besides \<open>stream_laws\<close>: setting a deadline returns nil, as \<^verbatim>\<open>quic-go\<close>
  documents it, and nothing but reading and cancelling takes bytes from a stream.
\<close>

definition reader_laws :: "'st stream_ops \<Rightarrow> bool" where
  "reader_laws q \<longleftrightarrow>
     (\<forall>d st. fst (s_SetReadDeadline q d st) = None \<and>
        s_reader q (snd (s_SetReadDeadline q d st)) = s_reader q st) \<and>
     (\<forall>d st. s_reader q (snd (s_SetWriteDeadline q d st)) = s_reader q st) \<and>
     (\<forall>r st. s_reader q (s_read q r st) = r) \<and>
     (\<forall>w st. s_reader q (s_wrote q w st) = s_reader q st)"

fun quic_call :: "'st stream_ops \<Rightarrow> op \<Rightarrow> ('c, 'st) quicSocket \<Rightarrow> answer \<times> ('c, 'st) quicSocket" where
  "quic_call q (OpSend now lt cp) t =
     (case quic_op q (OpSend now lt cp) t of (err, t') \<Rightarrow> (Sent (err = None), t'))"
| "quic_call q (OpRecv now m) t =
     (case quicSocket_Recv q now False (Some (read_packet m)) t of (res, t') \<Rightarrow> (Got res, t'))"
| "quic_call q (OpSetTimeOut now d) t = (Done, quicSocket_SetTimeOut q now d t)"
| "quic_call q (OpClose now) t = (Done, snd (quicSocket_Close q now t))"

lemma quic_call_op: "snd (quic_call q a t) = snd (quic_op q a t)"
  by (cases a) (simp_all split: prod.split)

lemma reader_laws_simps:
  assumes "reader_laws q"
  shows "s_SetReadDeadline q d st = (e, st') \<Longrightarrow> e = None \<and> s_reader q st' = s_reader q st"
    "s_SetWriteDeadline q d st = (e, st') \<Longrightarrow> s_reader q st' = s_reader q st"
    "s_reader q (snd (s_SetReadDeadline q d st)) = s_reader q st"
    "s_reader q (snd (s_SetWriteDeadline q d st)) = s_reader q st"
    "s_reader q (s_read q r st) = r" "s_reader q (s_wrote q w st) = s_reader q st"
  using assms unfolding reader_laws_def by (metis fst_conv snd_conv)+

lemma quic_op_send_view:
  assumes laws: "reader_laws q" and "quic_op q (OpSend now lt cp) t = (err, t')"
  shows "q_timeout t' = q_timeout t" and "err = None \<Longrightarrow> q_closed t' = q_closed t"
    and "\<not> q_closed t' \<Longrightarrow> s_reader q (q_stream t') = s_reader q (q_stream t)"
  using assms(2)
  by (auto simp: quicSocket_Send_def quicSocket_Send_locked_def quicSocket_Close_def Let_def
      reader_laws_simps [OF laws] split: prod.splits option.splits if_splits
      dest: reader_laws_simps(2) [OF laws])

lemma quic_broker_socket:
  assumes laws: "stream_laws q shut" and rlaws: "reader_laws q"
  shows "broker_socket (quic_call q) (\<lambda>t. s_reader q (q_stream t)) q_timeout q_closed (quic_wire q) (quic_inv shut)"
proof
  fix t a assume "quic_inv shut t"
  then show "quic_inv shut (snd (quic_call q a t))"
    unfolding quic_call_op by (rule quic_inv_op [OF laws])
next
  fix t cp now lt ans t'
  assume t: "quic_inv shut t" and s: "sendable maxPacketSize cp"
    and c: "quic_call q (OpSend now lt cp) t = (ans, t')"
  obtain err where e: "quic_op q (OpSend now lt cp) t = (err, t')" "ans = Sent (err = None)"
    using c by (auto split: prod.splits)
  note view = quic_op_send_view [OF rlaws e(1)]
  show "(\<not> q_closed t' \<longrightarrow> s_reader q (q_stream t') = s_reader q (q_stream t)) \<and> q_timeout t' = q_timeout t \<and>
      (q_closed t \<longrightarrow> q_closed t') \<and>
      (ans = Sent True \<and> \<not> q_closed t \<and> \<not> q_closed t' \<and> quic_wire q t' = quic_wire q t @ encode cp \<or>
       ans = Sent False \<and> (\<exists>partial. quic_wire q t' = quic_wire q t @ partial \<and>
         (partial \<noteq> [] \<longrightarrow> \<not> q_closed t \<and> q_closed t')))"
  proof (cases err)
    case None
    with e quic_op_sent [OF laws t s] view show ?thesis by auto
  next
    case (Some er)
    with e(1) have "quic_op q (OpSend now lt cp) t = (Some er, t')" by simp
    from quic_op_failed [OF laws t this] Some e view quic_op_closed [of t q "OpSend now lt cp"] show ?thesis
      by (simp add: e(1))
  qed
next
  fix t now m ans t'
  assume "quic_call q (OpRecv now m) t = (ans, t')"
  then show "q_timeout t' = q_timeout t \<and> q_closed t' = q_closed t \<and> quic_wire q t' = quic_wire q t \<and>
      (\<exists>res. ans = Got res \<and> (if q_closed t then res = Inl ErrClosed
        else ReadPacketLimit m (s_reader q (q_stream t)) = (res, s_reader q (q_stream t'))))"
    by (auto simp: quicSocket_Recv_def read_packet_def Let_def stream_laws_simps [OF laws]
        reader_laws_simps [OF rlaws] split: prod.splits option.splits sum.splits if_splits
        dest: reader_laws_simps(1) [OF rlaws] stream_lawsD(1) [OF laws])
next
  fix t now d ans t'
  assume "quic_call q (OpSetTimeOut now d) t = (ans, t')"
  then show "ans = Done \<and> q_timeout t' = d \<and>
      (\<not> q_closed t \<longrightarrow> s_reader q (q_stream t') = s_reader q (q_stream t)) \<and>
      q_closed t' = q_closed t \<and> quic_wire q t' = quic_wire q t"
    by (auto simp: quicSocket_SetTimeOut_def Let_def stream_laws_simps [OF laws] reader_laws_simps [OF rlaws])
next
  fix t now ans t'
  assume "quic_call q (OpClose now) t = (ans, t')"
  then show "ans = Done \<and> q_closed t' \<and> q_timeout t' = q_timeout t \<and> quic_wire q t' = quic_wire q t"
    using quicSocket_Close_simps(1,2) [OF laws, of now t]
    by (auto simp: quicSocket_Close_def split: prod.splits if_splits)
qed

section \<open>WebSocket sockets\<close>

text \<open>
  A WebSocket socket also changes between its calls, when its read loop meets a frame, and a
  \<^verbatim>\<open>Recv\<close> reads from the pipe that the loop fills. So here a run is one of calls and frames,
  and the \<^verbatim>\<open>Recv\<close> calls take what they return from the reading end \<open>r\<close> of the pipe, each placed
  where it has got its last byte or its error.
\<close>

fun ws_answer :: "ws_act \<Rightarrow> error option \<Rightarrow> reader \<Rightarrow> answer list \<times> reader" where
  "ws_answer (Call (OpSend now lt cp)) err r = ([Sent (err = None)], r)"
| "ws_answer (Call (OpRecv now m)) err r =
     (case wsSocket_Recv (Some (read_packet m)) r of (res, r') \<Rightarrow> ([Got res], r'))"
| "ws_answer (Call a) err r = ([Done], r)"
| "ws_answer (Frame called returned ev) err r = ([], r)"

primrec ws_calls :: "'f ws_lib \<Rightarrow> ws_act list \<Rightarrow> wsSocket \<times> reader \<Rightarrow> answer list \<times> wsSocket \<times> reader" where
  "ws_calls L [] s = ([], s)"
| "ws_calls L (act # acts) s = (case ws_step L act (fst s) of (err, t') \<Rightarrow>
     (case ws_answer act err (snd s) of (ans, r') \<Rightarrow>
       (case ws_calls L acts (t', r') of (anss, s'') \<Rightarrow> (ans @ anss, s''))))"

lemma ws_calls_Cons:
  assumes "ws_calls L (act # acts) (t, r) = (anss, s')"
  obtains err t1 ans r1 anss1 where "ws_step L act t = (err, t1)" "ws_answer act err r = (ans, r1)"
    "ws_calls L acts (t1, r1) = (anss1, s')" "anss = ans @ anss1"
  using assms by (auto split: prod.splits)

text \<open>The calls of a run; its packets and final socket are those of \<open>ws_run\<close>.\<close>

fun ws_ops :: "ws_act list \<Rightarrow> op list" where
  "ws_ops [] = []"
| "ws_ops (Call a # acts) = a # ws_ops acts"
| "ws_ops (Frame called returned ev # acts) = ws_ops acts"

lemma ws_calls_run: "ws_calls L acts (t, r) = (anss, t', r') \<Longrightarrow> \<exists>acc. ws_run L acts t = (acc, t')"
proof (induction acts arbitrary: t r anss)
  case (Cons act acts)
  from Cons.prems obtain err t1 ans r1 anss1 where "ws_step L act t = (err, t1)"
    "ws_calls L acts (t1, r1) = (anss1, t', r')" by (rule ws_calls_Cons)
  with Cons.IH [of t1 r1 anss1] show ?case by auto
qed simp

text \<open>
  No \<^verbatim>\<open>Recv\<close> after the caller's own \<^verbatim>\<open>Close\<close>: the handler, which alone receives, ends with the first
  error.
\<close>

fun receives_open :: "bool \<Rightarrow> ws_act list \<Rightarrow> bool" where
  "receives_open cl [] = True"
| "receives_open cl (Call (OpRecv now m) # acts) = (\<not> cl \<and> receives_open cl acts)"
| "receives_open cl (Call (OpClose now) # acts) = receives_open True acts"
| "receives_open cl (act # acts) = receives_open cl acts"

lemma ws_timeout_simps [simp]:
  "w_timeout (snd (wsSocket_closeWithCause e t)) = w_timeout t" "w_timeout (wsSocket_fail le t) = w_timeout t"
  by (simp_all add: wsSocket_closeWithCause_def wsSocket_fail_def Let_def)

lemma ws_timeout_written:
  "wsSocket_writeFrameLocked L now f d t = (err, t') \<Longrightarrow> w_timeout t' = w_timeout t"
  "wsSocket_tryWriteFrame L now locked f d t = (err, t') \<Longrightarrow> w_timeout t' = w_timeout t"
  by (auto simp: wsSocket_tryWriteFrame_def wsSocket_writeFrameLocked_def Let_def split: prod.splits option.splits if_splits)

lemma ws_timeout_control: "w_timeout (control_result (wsSocket_handleControl L now locked opcode p t) lp) = w_timeout t"
proof -
  have w: "w_timeout (snd (wsSocket_tryWriteFrame L now locked f d t)) = w_timeout t" for f d
    by (rule ws_timeout_written(2) [OF surjective_pairing])
  obtain err t' where h: "wsSocket_handleControl L now locked opcode p t = (err, t')" by fastforce
  then have "w_timeout t' = w_timeout t"
    using w by (auto simp: wsSocket_handleControl_def Let_def dest: ws_timeout_written(2)
        split: sum.splits control_op.splits prod.splits)
  with h show ?thesis by (simp add: control_result_def split: option.split)
qed

lemma ws_timeout_sent:
  assumes "wsSocket_Send_write L now v t = (res, t1)" and "wsSocket_Send_finish res t1 = (err, t')"
  shows "w_timeout t' = w_timeout t"
  using assms by (auto simp: wsSocket_Send_write_def wsSocket_Send_finish_def dest!: ws_timeout_written(1)
      split: option.splits prod.splits bool.splits)

lemma ws_timeout_loop: "w_timeout (wsSocket_readLoop L called returned ev lp t) = w_timeout t"
  by (cases "(L, called, returned, ev, lp, t)" rule: wsSocket_readLoop.cases)
    (auto simp: ws_timeout_control Let_def dest: pipe_Write_simps(4) split: prod.splits option.splits read_end.splits)

lemma ws_timeout_step:
  assumes "ws_step L act t = (err, t')" and "\<And>now d. act \<noteq> Call (OpSetTimeOut now d)"
  shows "w_timeout t' = w_timeout t"
proof (cases act)
  case (Frame called returned ev)
  with assms(1) show ?thesis by (auto simp: ws_timeout_loop)
next
  case (Call a)
  with assms show ?thesis
    by (cases a) (auto simp: wsSocket_Send_def wsSocket_Close_def wsSocket_closeWithCause_def
        dest: ws_timeout_sent split: if_splits prod.splits)
qed

text \<open>
  A \<open>sock\<close> in place of a WebSocket socket: \<open>cl\<close> tells whether the caller has closed it. It need
  not know that the read loop, or a torn frame, has closed the socket, as its coming results do.
\<close>

definition ws_sock :: "bool \<Rightarrow> reader \<Rightarrow> wsSocket \<Rightarrow> sock \<Rightarrow> bool" where
  "ws_sock cl r t sk \<longleftrightarrow> input sk = r \<and> sockTimeout sk = w_timeout t \<and> sockClosed sk = cl \<and> (cl \<longrightarrow> w_closed t)"

definition closes :: "bool \<Rightarrow> ws_act \<Rightarrow> bool" where
  "closes cl act \<longleftrightarrow> cl \<or> (\<exists>now. act = Call (OpClose now))"

lemma receives_open_Cons:
  "receives_open cl (act # acts) \<Longrightarrow> receives_open (closes cl act) acts \<and> receives_open cl [act]"
  by (cases "(cl, act # acts)" rule: receives_open.cases) (auto simp: closes_def)

lemma ws_call_simulated:
  assumes step: "ws_step L act t = (err, t1)" "ws_answer act err r = (ans, r1)"
    and broker: "list_all broker_call (ws_ops [act])" "receives_open cl [act]"
    and closed: "w_closed t \<Longrightarrow> w_closed t1 \<and> ws_accepted act err = []"
  shows "\<exists>os. \<forall>sk os'. ws_sock cl r t sk \<and> outcomes sk = os @ os' \<longrightarrow> (\<exists>sk'.
    run_calls sock_call (ws_ops [act]) sk = (ans, sk') \<and> ws_sock (closes cl act) r1 t1 sk' \<and>
    outcomes sk' = os' \<and> packets sk' = packets sk @ ws_accepted act err)"
proof (cases act)
  case (Frame called returned ev)
  with step closed ws_timeout_step [OF step(1)] show ?thesis
    by (intro exI [of _ "[]"]) (auto simp: ws_sock_def closes_def ws_accepted_def)
next
  case (Call a)
  show ?thesis
  proof (cases a)
    case (OpSend now lt cp)
    let ?os = "if cl then [] else [if err = None then None else Some (ErrClosed, False)]"
    have "r1 = r" "ans = [Sent (err = None)]" "w_timeout t1 = w_timeout t"
      using step Call OpSend ws_timeout_step [OF step(1)] by auto
    moreover have "w_closed t \<Longrightarrow> err \<noteq> None"
      using closed Call OpSend by (auto simp: ws_accepted_def accepted_def split: if_splits)
    ultimately show ?thesis
      using Call OpSend closed
      by (intro exI [of _ ?os]) (auto simp: ws_sock_def closes_def Send_def ws_accepted_def accepted_def)
  next
    case (OpRecv now m)
    have "wsSocket_Recv (Some (read_packet m)) r = ReadPacketLimit m r"
      by (simp add: wsSocket_Recv_def read_packet_def split: prod.split)
    with step broker Call OpRecv show ?thesis
      by (intro exI [of _ "[]"])
        (auto simp: ws_sock_def closes_def recv_def ws_accepted_def accepted_def split: prod.splits)
  next
    case (OpSetTimeOut now d)
    with step closed Call show ?thesis
      by (intro exI [of _ "[]"])
        (auto simp: ws_sock_def closes_def SetTimeOut_def wsSocket_SetTimeOut_def ws_accepted_def accepted_def)
  next
    case (OpClose now)
    with step Call show ?thesis
      by (intro exI [of _ "[]"]) (auto simp: ws_sock_def closes_def Close_sock_def wsSocket_Close_def
          wsSocket_closeWithCause_def ws_accepted_def accepted_def split: if_splits)
  qed
qed

lemma run_calls_append:
  "run_calls call (as @ as') s = (case run_calls call as s of (anss, s') \<Rightarrow>
     (case run_calls call as' s' of (anss', s'') \<Rightarrow> (anss @ anss', s'')))"
  by (induction as arbitrary: s) (auto split: prod.splits)

lemma ws_ops_Cons: "ws_ops (act # acts) = ws_ops [act] @ ws_ops acts"
  by (cases act) simp_all

lemma ws_simulated:
  assumes laws: "ws_laws L wire_of payload"
  shows "ws_calls L acts (t, r) = (anss, t', r') \<Longrightarrow> ws_run L acts t = (acc, t') \<Longrightarrow> ws_inv t \<Longrightarrow>
    list_all broker_call (ws_ops acts) \<Longrightarrow> receives_open cl acts \<Longrightarrow>
    \<exists>os cl'. \<forall>sk os'. ws_sock cl r t sk \<and> outcomes sk = os @ os' \<longrightarrow> (\<exists>sk'.
      run_calls sock_call (ws_ops acts) sk = (anss, sk') \<and> ws_sock cl' r' t' sk' \<and>
      outcomes sk' = os' \<and> packets sk' = packets sk @ acc)"
proof (induction acts arbitrary: t r anss acc cl)
  case Nil
  then show ?case by (intro exI [of _ "[]"] exI [of _ cl]) simp
next
  case (Cons act acts)
  from Cons.prems(1) obtain err t1 ans r1 anss1 where s: "ws_step L act t = (err, t1)"
    "ws_answer act err r = (ans, r1)" "ws_calls L acts (t1, r1) = (anss1, t', r')" "anss = ans @ anss1"
    by (rule ws_calls_Cons)
  obtain acc1 where acc: "ws_run L acts t1 = (acc1, t')" "acc = ws_accepted act err @ acc1"
    using Cons.prems(2) s(1) by (auto split: prod.splits)
  have calls: "list_all broker_call (ws_ops [act])" "list_all broker_call (ws_ops acts)"
    using Cons.prems(4) by (simp_all add: ws_ops_Cons [of act acts] del: ws_ops.simps(2,3))
  have "sendable maxPacketSize (op_packet a)" if "act = Call a" "is_OpSend a" for a
    using calls(1) that by (cases a) auto
  note framed = ws_step_framed [OF laws Cons.prems(3) this s(1)]
  then have "ws_inv t1" and closed: "w_closed t \<Longrightarrow> w_closed t1 \<and> ws_accepted act err = []"
    by (auto simp: framed_def puts_def map_filter_simps)
  with Cons.IH [OF s(3) acc(1) _ calls(2)] receives_open_Cons [OF Cons.prems(5)]
  obtain os1 cl' where os1: "\<And>sk os'. ws_sock (closes cl act) r1 t1 sk \<Longrightarrow> outcomes sk = os1 @ os' \<Longrightarrow> \<exists>sk'.
      run_calls sock_call (ws_ops acts) sk = (anss1, sk') \<and> ws_sock cl' r' t' sk' \<and>
      outcomes sk' = os' \<and> packets sk' = packets sk @ acc1"
    by meson
  obtain os where os: "\<And>sk os'. ws_sock cl r t sk \<Longrightarrow> outcomes sk = os @ os' \<Longrightarrow> \<exists>sk'.
      run_calls sock_call (ws_ops [act]) sk = (ans, sk') \<and> ws_sock (closes cl act) r1 t1 sk' \<and>
      outcomes sk' = os' \<and> packets sk' = packets sk @ ws_accepted act err"
    using ws_call_simulated [OF s(1,2) calls(1) _ closed] receives_open_Cons [OF Cons.prems(5)] by meson
  have "\<exists>sk'. run_calls sock_call (ws_ops (act # acts)) sk = (anss, sk') \<and> ws_sock cl' r' t' sk' \<and>
      outcomes sk' = os' \<and> packets sk' = packets sk @ acc"
    if "ws_sock cl r t sk" "outcomes sk = (os @ os1) @ os'" for sk os'
    using os [OF that(1), of "os1 @ os'"] os1 that(2) s(4) acc(2)
    unfolding ws_ops_Cons [of act acts] run_calls_append by fastforce
  then show ?case by blast
qed

lemma ws_run_implements:
  assumes "ws_laws L wire_of payload" and "sent (outgoing_wire c) = []"
    and "list_all broker_call (ws_ops acts)" and "receives_open False acts"
    and "ws_calls L acts (ws_newSocket now c extra timeout client, r) = (anss, t', r')"
  shows "\<exists>os sk fs partial. run_calls sock_call (ws_ops acts) \<lparr>input = r, packets = [], outcomes = os,
      sockTimeout = timeout, sockClosed = False\<rparr> = (anss, sk) \<and>
    input sk = r' \<and> sockTimeout sk = w_timeout t' \<and> (sockClosed sk \<longrightarrow> w_closed t') \<and>
    ws_wire t' = concat (map wire_of fs) @ partial \<and> (partial \<noteq> [] \<longrightarrow> w_closed t') \<and>
    List.map_filter payload fs = map encode (packets sk)"
proof -
  let ?t = "ws_newSocket now c extra timeout client"
  obtain acc where acc: "ws_run L acts ?t = (acc, t')"
    using ws_calls_run [OF assms(5)] by blast
  obtain os cl where os: "\<And>sk. ws_sock False r ?t sk \<Longrightarrow> outcomes sk = os \<Longrightarrow> \<exists>sk'.
      run_calls sock_call (ws_ops acts) sk = (anss, sk') \<and> ws_sock cl r' t' sk' \<and> packets sk' = packets sk @ acc"
    using ws_simulated [OF assms(1,5) acc ws_inv_newSocket assms(3,4)] by (metis append_Nil2)
  have "ws_sock False r ?t \<lparr>input = r, packets = [], outcomes = os, sockTimeout = timeout, sockClosed = False\<rparr>"
    by (simp add: ws_sock_def)
  from os [OF this] obtain sk where sk: "run_calls sock_call (ws_ops acts) \<lparr>input = r, packets = [],
      outcomes = os, sockTimeout = timeout, sockClosed = False\<rparr> = (anss, sk)" "ws_sock cl r' t' sk" "packets sk = acc"
    by auto
  have calls: "broker_call a" if "Call a \<in> set acts" for a
    using assms(3) that by (induction acts rule: ws_ops.induct) auto
  have "sendable maxPacketSize (op_packet a)" if "Call a \<in> set acts" "is_OpSend a" for a
    using calls [OF that(1)] that(2) by (cases a) auto
  then have "framed wire_of payload ?t (map encode acc) t'"
    using ws_run_framed [OF assms(1) ws_inv_newSocket _ acc] by blast
  then obtain fs partial where "ws_wire t' = concat (map wire_of fs) @ partial" "partial \<noteq> [] \<longrightarrow> w_closed t'"
    "List.map_filter payload fs = map encode acc"
    using assms(2) by (auto simp: framed_def puts_def)
  with sk show ?thesis by (fastforce simp: ws_sock_def)
qed

section \<open>Properties\<close>

text \<open>
  C19: the TCP socket under the broker. Whatever calls the broker's handlers make on a TCP socket,
  at whatever times, sends that raced with a close included, and however its connection fails,
  there is a \<open>sock\<close>, as the broker is verified with, that answers every call in the same way. The
  packets it records are the ones on the wire, where only a closed socket leaves a torn one at
  the end; so whatever reads the wire of an open one gets exactly these packets.
\<close>

theorem tcp_implements_sock:
  assumes "connOpen c" and "sent (outgoing_wire c) = []" and "list_all broker_call as"
    and "run_calls tcp_call as (newSocket c timeout) = (anss, t')"
  shows "\<exists>os sk partial. run_calls sock_call as \<lparr>input = incoming c, packets = [], outcomes = os,
      sockTimeout = timeout, sockClosed = False\<rparr> = (anss, sk) \<and>
    sockTimeout sk = t_timeout t' \<and> sockClosed sk = t_closed t' \<and>
    (\<not> t_closed t' \<longrightarrow> input sk = incoming (t_conn t')) \<and>
    tcp_wire t' = concat (map encode (packets sk)) @ partial \<and> (partial \<noteq> [] \<longrightarrow> t_closed t')"
proof -
  have "tcp_open_inv (newSocket c timeout)" "tcp_wire (newSocket c timeout) = []"
    using assms(1,2) by (simp_all add: tcp_open_inv_def newSocket_def)
  from tcp_broker.run_implements [OF assms(4) this(1) assms(3) this(2)] show ?thesis
    by (simp add: tcp_broker.stands_for_def newSocket_def)
qed

text \<open>A connection that takes one byte of the first packet and fails.\<close>

definition sample_torn :: conn where
  "sample_torn = sample_conn\<lparr>outgoing_wire := newBuffer\<lparr>faults := [Some (1, ErrClosed)]\<rparr>\<rparr>"

lemma sample_torn_run:
  "fst (run_calls tcp_call [OpSend 1 False connack_accepted, OpRecv 2 maxPacketSize, OpClose 3]
    (newSocket sample_torn 0)) = [Sent False, Got (Inl ErrClosed), Done]"
  "t_closed (snd (run_calls tcp_call [OpSend 1 False connack_accepted, OpRecv 2 maxPacketSize, OpClose 3]
    (newSocket sample_torn 0)))"
proof -
  have "length (encode connack_accepted) > 1"
    by (simp add: encode_def frame_def connack_accepted_def new_ConnackPacket_def connack_content_def)
  then obtain t1 where "tcpSocket_Send 1 (packet_any connack_accepted) (newSocket sample_torn 0) =
      (Some ErrClosed, t1)" "t_closed t1"
    by (simp add: tcpSocket_Send_def tcpSocket_Send_locked_def tcpSocket_handshake_def newSocket_def
        sample_torn_def sample_conn_def SetWriteDeadline_def WriteTo_encode [OF connack_sendable]
        Write_def newBuffer_def tcpSocket_Close_def Let_def)
  then show "fst (run_calls tcp_call [OpSend 1 False connack_accepted, OpRecv 2 maxPacketSize, OpClose 3]
      (newSocket sample_torn 0)) = [Sent False, Got (Inl ErrClosed), Done]"
    and "t_closed (snd (run_calls tcp_call [OpSend 1 False connack_accepted, OpRecv 2 maxPacketSize, OpClose 3]
      (newSocket sample_torn 0)))"
    by (simp_all add: tcpSocket_Recv_closed tcpSocket_Close_def)
qed

theorem tcp_implements_sock_witness:
  "\<exists>os sk. run_calls sock_call [OpSend 1 False connack_accepted, OpRecv 2 maxPacketSize, OpClose 3]
      \<lparr>input = buffer [], packets = [], outcomes = os, sockTimeout = 0, sockClosed = False\<rparr> =
    ([Sent False, Got (Inl ErrClosed), Done], sk) \<and> sockClosed sk"
proof -
  let ?as = "[OpSend 1 False connack_accepted, OpRecv 2 maxPacketSize, OpClose 3]"
  have "connOpen sample_torn" "sent (outgoing_wire sample_torn) = []" "incoming sample_torn = buffer []"
    by (simp_all add: sample_torn_def sample_conn_def newBuffer_def sent_def)
  with tcp_implements_sock [of sample_torn ?as 0, OF _ _ _ surjective_pairing] sample_torn_run
    connack_sendable show ?thesis
    by auto
qed

text \<open>The same for QUIC, over every stream that keeps the laws.\<close>

theorem quic_implements_sock:
  assumes "stream_laws q shut" and "reader_laws q" and "sent (s_writer q st) = []"
    and "list_all broker_call as"
    and "run_calls (quic_call q) as (quic_newSocket c st timeout) = (anss, t')"
  shows "\<exists>os sk partial. run_calls sock_call as \<lparr>input = s_reader q st, packets = [], outcomes = os,
      sockTimeout = timeout, sockClosed = False\<rparr> = (anss, sk) \<and>
    sockTimeout sk = q_timeout t' \<and> sockClosed sk = q_closed t' \<and>
    (\<not> q_closed t' \<longrightarrow> input sk = s_reader q (q_stream t')) \<and>
    quic_wire q t' = concat (map encode (packets sk)) @ partial \<and> (partial \<noteq> [] \<longrightarrow> q_closed t')"
proof -
  note quic = quic_broker_socket [OF assms(1,2)]
  have "quic_inv shut (quic_newSocket c st timeout)" "quic_wire q (quic_newSocket c st timeout) = []"
    using assms(3) by (simp_all add: quic_inv_def quic_newSocket_def)
  from broker_socket.run_implements [OF quic assms(5) this(1) assms(4) this(2)] show ?thesis
    by (simp add: broker_socket.stands_for_def [OF quic] quic_newSocket_def)
qed



end
