(* ===== verification/BrokerWire.thy ===== *)
theory BrokerWire
  imports BrokerSockets
begin

text \<open>
  The broker on real sockets. \<open>BrokerSockets\<close> takes any calls that the broker might make; here it is
  shown that the steps of the broker's handlers use the socket of a connection by such calls only,
  and that a socket of a transport which has answered them has exactly the packets on its wire that
  the broker has sent.
\<close>

section \<open>The calls behind a run\<close>

text \<open>A \<open>sock\<close> has become another one by calls of the broker.\<close>

definition used :: "sock \<Rightarrow> sock \<Rightarrow> bool" where
  "used sk sk' \<longleftrightarrow> (\<exists>as anss. list_all broker_call as \<and> run_calls sock_call as sk = (anss, sk'))"

lemma usedI: "list_all broker_call as \<Longrightarrow> snd (run_calls sock_call as sk) = sk' \<Longrightarrow> used sk sk'"
  unfolding used_def by (metis prod.collapse)

lemma used_refl [intro!]: "used sk sk"
  by (rule usedI [of "[]"]) simp_all

lemma used_trans [trans]:
  assumes "used sk sk1" and "used sk1 sk2"
  shows "used sk sk2"
proof -
  obtain as anss as' anss' where "list_all broker_call as" "run_calls sock_call as sk = (anss, sk1)"
    "list_all broker_call as'" "run_calls sock_call as' sk1 = (anss', sk2)"
    using assms by (auto simp: used_def)
  then show ?thesis by (intro usedI [of "as @ as'"]) (simp_all add: run_calls_append)
qed

lemma used_calls:
  "recv sk = (m, sk') \<Longrightarrow> used sk sk'"
  "sendable maxPacketSize cp \<Longrightarrow> used sk (snd (Send sk cp))"
  "used sk (SetTimeOut d sk)" "used sk (Close_sock sk)"
proof -
  show "recv sk = (m, sk') \<Longrightarrow> used sk sk'"
    by (rule usedI [of "[OpRecv 0 maxPacketSize]"]) simp_all
  show "sendable maxPacketSize cp \<Longrightarrow> used sk (snd (Send sk cp))"
    by (rule usedI [of "[OpSend 0 False cp]"]) (simp_all split: prod.split)
  show "used sk (SetTimeOut d sk)" by (rule usedI [of "[OpSetTimeOut 0 d]"]) simp_all
  show "used sk (Close_sock sk)" by (rule usedI [of "[OpClose 0]"]) simp_all
qed

lemma used_close: "used sk sk' \<Longrightarrow> used sk (Close_sock sk')"
  by (rule used_trans [OF _ used_calls(4)])

lemma sent_ok_sendable: "sent_ok cp \<Longrightarrow> sendable maxPacketSize cp"
  by (simp add: sent_ok_def)

text \<open>The handshake of a connection that becomes a client.\<close>

lemma used_handshake:
  assumes "handshake sk = (Some c, sk')"
  shows "used sk (c_sock c)"
proof -
  obtain connect sk1 err sk2 d where h: "recv (SetTimeOut (30 * second) sk) = (Inr (ConnectP connect), sk1)"
    "Send sk1 connack_accepted = (err, sk2)" "c_sock c = SetTimeOut d sk2"
    using assms by (auto simp: handshake_def Let_def new_client_def connack_accepted_def
        split: prod.splits sum.splits ControlPacket.splits if_splits)
  have "used sk (SetTimeOut (30 * second) sk)" by (rule used_calls)
  also have "used (SetTimeOut (30 * second) sk) sk1" using h(1) by (rule used_calls)
  finally have "used sk sk1" .
  also have "used sk1 sk2" using used_calls(2) [OF connack_sendable, of sk1] h(2) by simp
  finally have "used sk sk2" .
  also have "used sk2 (c_sock c)" unfolding h(3) by (rule used_calls)
  finally show ?thesis .
qed

text \<open>The socket of a connection, from its acceptance on.\<close>

definition socket_of :: "system \<Rightarrow> cid \<Rightarrow> sock option" where
  "socket_of s i = (case heap (broker s) i of
      Some c \<Rightarrow> Some (c_sock c)
    | None \<Rightarrow> (case phases s i of Some (Connecting sk) \<Rightarrow> Some sk | _ \<Rightarrow> None))"

text \<open>\<open>keeps_using s s'\<close>: every client has got its socket from \<open>s\<close> by calls.\<close>

definition keeps_using :: "system \<Rightarrow> system \<Rightarrow> bool" where
  "keeps_using s s' \<longleftrightarrow> (\<forall>i c'. heap (broker s') i = Some c' \<longrightarrow>
     (\<exists>sk. socket_of s i = Some sk \<and> used sk (c_sock c')))"

lemma keeps_using_heap:
  assumes "\<And>i c'. heap (broker s') i = Some c' \<Longrightarrow>
    \<exists>c. heap (broker s) i = Some c \<and> used (c_sock c) (c_sock c')"
  shows "keeps_using s s'"
  using assms unfolding keeps_using_def socket_of_def by fastforce

lemma keeps_using_client:
  assumes "heap (broker s) i = Some c" and "used (c_sock c) (c_sock c')"
  shows "keeps_using s (set_phase j ph (set_client i c' s))"
    and "keeps_using s (finish i (set_client i c' s))"
  using assms
  by (auto intro!: keeps_using_heap used_close simp: finish_def unregister_def split: if_splits)

lemma keeps_using_same:
  "heap (broker s') = heap (broker s) \<Longrightarrow> keeps_using s s'"
  by (auto intro!: keeps_using_heap)

text \<open>Every step of a handler keeps using the sockets so.\<close>

lemma keeps_using_connect:
  assumes "phases s i = Some (Connecting sk)" and "heap (broker s) i = None"
  shows "keeps_using s (handle_connect i sk s)"
proof -
  have "keeps_using s (set_phase i Running (s\<lparr>broker := b\<rparr>))"
    if "handshake sk = (Some c, sk')" "register i c (broker s) = Some b" for c sk' b
    using used_handshake [OF that(1)] that(2) assms
    by (auto simp: keeps_using_def register_def socket_of_def split: if_splits option.splits phase.splits)
  moreover have "keeps_using s (set_phase i Finished s)" by (rule keeps_using_same) simp
  ultimately show ?thesis
    by (auto simp: handle_connect_def split: prod.splits option.splits)
qed

lemma keeps_using_receive:
  assumes "heap (broker s) i = Some c"
  shows "keeps_using s (handle_receive i c s)"
proof -
  obtain m sk where r: "recv (c_sock c) = (m, sk)" by fastforce
  have u: "used (c_sock c) sk" using r by (rule used_calls)
  show ?thesis
  proof (cases m)
    case (Inl err)
    with u r show ?thesis by (auto simp: handle_receive_def intro!: keeps_using_client(2) [OF assms])
  next
    case (Inr pkt)
    obtain res c' where d: "dispatch_locked (c\<lparr>c_sock := sk\<rparr>) pkt = (res, c')" by fastforce
    have "used (c_sock c) (c_sock c')"
      using dispatch_locked_sock [of "c\<lparr>c_sock := sk\<rparr>" pkt] d u by simp
    note keeps_using_client [OF assms this]
    with Inr r d show ?thesis
      by (auto simp: handle_receive_def split: sum.split option.split)
  qed
qed

lemma keeps_using_reply:
  assumes "heap (broker s) i = Some c" and "sent_ok ack"
  shows "keeps_using s (handle_reply i ack msg c s)"
proof -
  have "used (c_sock c) (c_sock (c\<lparr>c_sock := snd (Send (c_sock c) ack)\<rparr>))"
    using used_calls(2) [OF sent_ok_sendable [OF assms(2)]] by simp
  note keeps_using_client [OF assms(1) this]
  then show ?thesis by (auto simp: handle_reply_def reply_eq split: option.split)
qed

lemma keeps_using_visit:
  assumes "heap (broker s) t = Some c" and "client_inv c" and "message_ok p"
  shows "keeps_using s (handle_visit i p t ts c s)"
proof -
  obtain out c' where d: "deliver_locked p c = (out, c')" by fastforce
  have "used (c_sock c) (c_sock c')"
    using deliver_locked_inv(3) [OF assms(2,3) d] by auto
  from keeps_using_client(1) [OF assms(1) this] d show ?thesis
    by (auto simp: handle_visit_def split: option.split)
qed

lemma keeps_using_send:
  assumes "heap (broker s) t = Some c" and "sent_ok (PublishP out)"
  shows "keeps_using s (handle_send i p t out ts c s)"
  unfolding handle_send_def
  using used_calls(2) [OF sent_ok_sendable [OF assms(2)]] by (intro keeps_using_client(1) [OF assms(1)]) simp

lemma keeps_using_hstep:
  assumes "hstep s s'" and inv: "system_inv s" and "\<And>i sk. phases s i = Some (Connecting sk) \<Longrightarrow> heap (broker s) i = None"
  shows "keeps_using s s'"
  using assms(1)
proof cases
  case (connect i sk)
  then show ?thesis using assms(3) keeps_using_connect by blast
next
  case (receive i c)
  then show ?thesis using keeps_using_receive by blast
next
  case (respond i ack msg c)
  then show ?thesis using keeps_using_reply system_inv_phase [OF inv respond(2)] by simp
next
  case (visit i p t ts c)
  then show ?thesis
    using keeps_using_visit system_inv_phase [OF inv visit(2)] system_inv_client [OF inv visit(3)] by simp
next
  case (send i p t out ts c)
  then show ?thesis using keeps_using_send system_inv_phase [OF inv send(2)] by simp
qed (simp_all add: keeps_using_same)

text \<open>A connection that is still before its handshake has no client yet.\<close>

definition connecting_inv :: "system \<Rightarrow> bool" where
  "connecting_inv s \<longleftrightarrow> (\<forall>i sk. phases s i = Some (Connecting sk) \<longrightarrow> heap (broker s) i = None)"

lemma connecting_inv_hstep:
  assumes "hstep s s'" and "connecting_inv s"
  shows "connecting_inv s'"
  using assms(1)
proof cases
  case (connect i sk)
  with assms(2) show ?thesis
    by (auto simp: connecting_inv_def handle_connect_def register_def split: prod.splits option.splits if_splits)
next
  case (receive i c)
  with assms(2) show ?thesis
    by (auto simp: connecting_inv_def handle_receive_def finish_def unregister_def next_phase_def Let_def
        split: prod.splits option.splits sum.splits if_splits)
next
  case (respond i ack msg c)
  with assms(2) show ?thesis
    by (auto simp: connecting_inv_def handle_reply_def reply_eq finish_def unregister_def next_phase_def
        split: option.splits if_splits)
next
  case (visit i p t ts c)
  with assms(2) show ?thesis
    by (auto simp: connecting_inv_def handle_visit_def split: prod.splits option.splits if_splits)
next
  case (send i p t out ts c)
  with assms(2) show ?thesis
    by (auto simp: connecting_inv_def handle_send_def split: if_splits)
qed (use assms(2) in \<open>auto simp: connecting_inv_def split: if_splits\<close>)

lemma connecting_inv_reachable: "reachable s \<Longrightarrow> connecting_inv s"
proof (induction rule: reachable.induct)
  case init
  then show ?case by (simp add: connecting_inv_def init_system_def)
next
  case (step s s')
  from step.hyps(2) step.IH show ?case
  proof cases
    case handler
    with step.IH show ?thesis by (blast intro: connecting_inv_hstep)
  qed (auto simp: connecting_inv_def begin_close_def close_client_def split: if_splits)
qed

text \<open>Every socket in a reachable state has been used by calls of the broker since its acceptance.\<close>

definition sockets_inv :: "system \<Rightarrow> bool" where
  "sockets_inv s \<longleftrightarrow> (\<forall>i sk. socket_of s i = Some sk \<longrightarrow> (\<exists>sk0. packets sk0 = [] \<and> used sk0 sk))"

lemma sockets_inv_keeps_using:
  assumes "sockets_inv s" and "keeps_using s s'"
    and "\<And>i sk. phases s' i = Some (Connecting sk) \<Longrightarrow> packets sk = []"
  shows "sockets_inv s'"
  unfolding sockets_inv_def
proof (intro allI impI)
  fix i sk assume sk: "socket_of s' i = Some sk"
  show "\<exists>sk0. packets sk0 = [] \<and> used sk0 sk"
  proof (cases "heap (broker s') i")
    case None
    with sk assms(3) [of i sk] show ?thesis by (auto simp: socket_of_def split: option.splits phase.splits)
  next
    case (Some c)
    with assms(2) sk obtain sk1 where "socket_of s i = Some sk1" "used sk1 sk"
      by (auto simp: keeps_using_def socket_of_def)
    with assms(1) used_trans show ?thesis unfolding sockets_inv_def by blast
  qed
qed

lemma keeps_using_step:
  assumes "bstep s s'" and "reachable s"
  shows "keeps_using s s'"
  using assms(1)
proof cases
  case handler
  then show ?thesis
    using keeps_using_hstep [OF _ reachable_system_inv [OF assms(2)]] connecting_inv_reachable [OF assms(2)]
    by (auto simp: connecting_inv_def)
next
  case (close_one i)
  then show ?thesis
    by (auto intro!: keeps_using_heap used_close simp: close_client_def split: if_splits)
qed (auto intro!: keeps_using_same simp: begin_close_def)

lemma sockets_inv_reachable: "reachable s \<Longrightarrow> sockets_inv s"
proof (induction rule: reachable.induct)
  case init
  then show ?case by (simp add: sockets_inv_def socket_of_def init_system_def NewBroker_def)
next
  case (step s s')
  from step.hyps have "reachable s'" by (rule reachable.step)
  then have "packets sk = []" if "phases s' i = Some (Connecting sk)" for i sk
    using system_inv_phase [OF reachable_system_inv that] by simp
  with step.IH keeps_using_step [OF step.hyps(2,1)] show ?case by (rule sockets_inv_keeps_using)
qed

section \<open>On the wire\<close>

text \<open>When a call is made, and whether a send was late, the \<open>sock\<close> does not see.\<close>

fun untimed :: "op \<Rightarrow> op" where
  "untimed (OpSend now lt cp) = OpSend 0 False cp"
| "untimed (OpRecv now m) = OpRecv 0 m"
| "untimed (OpSetTimeOut now d) = OpSetTimeOut 0 d"
| "untimed (OpClose now) = OpClose 0"

lemma untimed_simps [simp]:
  "broker_call (untimed a) = broker_call a" "sock_call (untimed a) sk = sock_call a sk"
  by (cases a; simp)+

lemma sent_packets_untimed [simp]: "sent_packets (untimed a) ans = sent_packets a ans"
  by (cases "(a, ans)" rule: sent_packets.cases) simp_all

lemma sent_packets_Sent [simp]: "sent_packets (OpSend now lt cp) (Sent b) = (if b then [cp] else [])"
  by (cases b) simp_all

lemma untimed_same:
  assumes "map untimed as' = map untimed as"
  shows "list_all broker_call as' = list_all broker_call as" and "sent_in as' anss = sent_in as anss"
proof -
  have "list_all broker_call (map untimed xs) = list_all broker_call xs" for xs
    by (simp add: list.pred_map comp_def)
  with assms show "list_all broker_call as' = list_all broker_call as" by metis
  have "sent_in (map untimed xs) anss = sent_in xs anss" for xs
    by (induction xs anss rule: sent_in.induct) simp_all
  with assms show "sent_in as' anss = sent_in as anss" by metis
qed

lemma run_calls_packets:
  "run_calls sock_call as sk = (anss, sk') \<Longrightarrow> packets sk' = packets sk @ sent_in as anss"
proof (induction as arbitrary: sk anss)
  case (Cons a as)
  from Cons.prems obtain ans sk1 anss1 where c: "sock_call a sk = (ans, sk1)"
    "run_calls sock_call as sk1 = (anss1, sk')" "anss = ans # anss1" by (rule run_calls_Cons)
  have "packets sk2 = packets sk @ (if err = None then [cp] else [])" if "Send sk cp = (err, sk2)" for cp err sk2
    using Send_packets [of sk cp] that by simp
  then have "packets sk1 = packets sk @ sent_packets a ans"
    using c(1) recv_simps(1) [of sk]
    by (cases a) (auto simp: SetTimeOut_def Close_sock_def split: prod.splits)
  with Cons.IH [OF c(2)] c(3) show ?case by simp
qed simp

context broker_socket
begin

text \<open>A socket that answers the calls of the broker has what the broker has sent on its wire.\<close>

lemma answers_on_wire:
  assumes "run_calls sock_call as sk0 = (anss, sk)" and "packets sk0 = []" and "list_all broker_call as"
    and "run_calls call as' s = (anss, s')" and "map untimed as' = map untimed as"
    and "inv s" and "wire s = []"
  shows "\<exists>partial. wire s' = concat (map encode (packets sk)) @ partial \<and> (partial \<noteq> [] \<longrightarrow> is_closed s')"
proof -
  have "list_all broker_call as'" using untimed_same(1) [OF assms(5)] assms(3) by simp
  from run_framed [OF assms(4,6) this] show ?thesis
    using assms(7) run_calls_packets [OF assms(1)] assms(2) untimed_same(2) [OF assms(5)] by simp
qed

end

text \<open>
  \<open>used_by as anss sk\<close>: the socket is a fresh one after calls of the broker, with their answers.
\<close>

definition used_by :: "op list \<Rightarrow> answer list \<Rightarrow> sock \<Rightarrow> bool" where
  "used_by as anss sk \<longleftrightarrow> list_all broker_call as \<and>
     (\<exists>sk0. packets sk0 = [] \<and> run_calls sock_call as sk0 = (anss, sk))"

lemma reachable_used:
  assumes "reachable s" and "heap (broker s) i = Some c"
  shows "\<exists>as anss. used_by as anss (c_sock c)"
proof -
  have "socket_of s i = Some (c_sock c)" by (simp add: socket_of_def assms(2))
  with sockets_inv_reachable [OF assms(1)] show ?thesis
    unfolding sockets_inv_def used_def used_by_def by blast
qed

text \<open>
  A wire carries packets: it holds their encodings, with a torn one behind them only if the socket
  is closed, and whatever reader gets it decodes them.
\<close>

definition carries :: "bytes \<Rightarrow> bool \<Rightarrow> ControlPacket list \<Rightarrow> bool" where
  "carries w closed cps \<longleftrightarrow> (\<exists>partial. w = concat (map encode cps) @ partial \<and> (partial \<noteq> [] \<longrightarrow> closed) \<and>
     (\<forall>r. data r = w \<longrightarrow> (\<exists>r'. read_packets maxPacketSize (length cps) r = (Inr (map as_received cps), r') \<and>
        data r' = partial)))"

lemma client_carries:
  assumes "reachable s" and "heap (broker s) i = Some c"
    and "\<exists>partial. w = concat (map encode (packets (c_sock c))) @ partial \<and> (partial \<noteq> [] \<longrightarrow> closed)"
  shows "carries w closed (packets (c_sock c))"
proof -
  obtain partial where w: "w = concat (map encode (packets (c_sock c))) @ partial" "partial \<noteq> [] \<longrightarrow> closed"
    using assms(3) by blast
  have "client_inv c" using system_inv_client [OF reachable_system_inv] assms(1,2) .
  then have "\<forall>cp \<in> set (packets (c_sock c)). sendable maxPacketSize cp"
    using connack_sendable by (auto simp: client_inv_def sent_ok_def)
  then have "\<exists>r'. read_packets maxPacketSize (length (packets (c_sock c))) r =
      (Inr (map as_received (packets (c_sock c))), r') \<and> data r' = partial" if "data r = w" for r
    using read_packets_stream that w(1) by blast
  with w show ?thesis unfolding carries_def by blast
qed

text \<open>So a WebSocket that answers the calls has frames on its wire that carry what the broker has sent.\<close>

lemma ws_on_wire:
  assumes "used_by as anss sk" and "ws_laws L wire_of payload" and "sent (outgoing_wire tc) = []"
    and "receives_open False acts" and "map untimed (ws_ops acts) = map untimed as"
    and "ws_calls L acts (ws_newSocket now tc extra timeout client, r) = (anss, t', r')"
  shows "\<exists>fs partial. ws_wire t' = concat (map wire_of fs) @ partial \<and> (partial \<noteq> [] \<longrightarrow> w_closed t') \<and>
    List.map_filter payload fs = map encode (packets sk)"
proof -
  from assms(1) obtain sk0 where u: "packets sk0 = []" "list_all broker_call as"
    "run_calls sock_call as sk0 = (anss, sk)" by (auto simp: used_by_def)
  have "list_all broker_call (ws_ops acts)" using untimed_same(1) [OF assms(5)] u(2) by simp
  from ws_run_implements [OF assms(2,3) this assms(4,6)] obtain os sk' fs partial where ws:
    "run_calls sock_call (ws_ops acts) \<lparr>input = r, packets = [], outcomes = os, sockTimeout = timeout,
       sockClosed = False\<rparr> = (anss, sk')"
    "ws_wire t' = concat (map wire_of fs) @ partial" "partial \<noteq> [] \<longrightarrow> w_closed t'"
    "List.map_filter payload fs = map encode (packets sk')" by blast
  have "packets sk' = packets sk"
    using run_calls_packets [OF ws(1)] run_calls_packets [OF u(3)] u(1) untimed_same(2) [OF assms(5)] by simp
  with ws show ?thesis by auto
qed

section \<open>Properties\<close>

text \<open>A handshake over TCP: the same calls, with times, are answered as by the \<open>sock\<close> of the sample run.\<close>

definition sample_calls :: "int list \<Rightarrow> op list" where
  "sample_calls now = [OpSetTimeOut (now ! 0) (30 * second), OpRecv (now ! 1) maxPacketSize,
     OpSend (now ! 2) False connack_accepted, OpSetTimeOut (now ! 3) 0]"

lemma sample_on_tcp:
  defines "tc \<equiv> sample_conn\<lparr>incoming := input sample_sock\<rparr>"
  shows "\<exists>anss t. run_calls sock_call (sample_calls [0, 0, 0, 0]) sample_sock = (anss, sample_sock_after) \<and>
    run_calls tcp_call (sample_calls [1, 2, 3, 4]) (newSocket tc 0) = (anss, t) \<and>
    map untimed (sample_calls [1, 2, 3, 4]) = map untimed (sample_calls [0, 0, 0, 0]) \<and>
    connOpen tc \<and> tcp_wire t = encode connack_accepted"
proof -
  have r: "ReadPacketLimit maxPacketSize (buffer (encode sample_connect @ rest)) =
      (Inr (as_received sample_connect), buffer rest)" for rest
    using ReadPacketLimit_frame [of sample_connect maxPacketSize] sample_connect_sendable
    by (simp add: sendable_def encode_def)
  have "run_calls sock_call (sample_calls [0, 0, 0, 0]) sample_sock =
      ([Done, Got (Inr (as_received sample_connect)), Sent True, Done], sample_sock_after)"
    by (simp add: sample_calls_def sample_sock_def recv_def SetTimeOut_def r Send_def sample_sock_after_def)
  moreover obtain t where "run_calls tcp_call (sample_calls [1, 2, 3, 4]) (newSocket tc 0) =
      ([Done, Got (Inr (as_received sample_connect)), Sent True, Done], t)" "tcp_wire t = encode connack_accepted"
    by (simp add: sample_calls_def tc_def newSocket_def sample_conn_def sample_sock_def tcpSocket_SetTimeOut_def
        SetReadDeadline_def SetWriteDeadline_def tcpSocket_Recv_def read_packet_def conn_read_def r Let_def
        tcpSocket_Send_def tcpSocket_Send_locked_def tcpSocket_handshake_def WriteTo_encode [OF connack_sendable]
        Write_def newBuffer_def sent_def)
  ultimately show ?thesis
    by (intro exI conjI) (simp_all add: sample_calls_def tc_def sample_conn_def)
qed



text \<open>The same over QUIC, for every stream that keeps the laws.\<close>

theorem broker_over_quic:
  assumes "reachable s" and "heap (broker s) i = Some c" and "stream_laws q shut" and "reader_laws q"
    and "used_by as anss (c_sock c)" and "map untimed as' = map untimed as" and "sent (s_writer q st) = []"
    and "run_calls (quic_call q) as' (quic_newSocket (qc :: 'q) st timeout) = (anss, t)"
  shows "carries (quic_wire q t) (q_closed t) (packets (c_sock c))"
proof -
  from assms(5) obtain sk0 where u: "packets sk0 = []" "list_all broker_call as"
    "run_calls sock_call as sk0 = (anss, c_sock c)" by (auto simp: used_by_def)
  show ?thesis
  proof (rule client_carries [OF assms(1,2)
      broker_socket.answers_on_wire [OF quic_broker_socket [OF assms(3,4)] u(3,1,2) assms(8,6)]])
    show "quic_inv shut (quic_newSocket (qc :: 'q) st timeout)" "quic_wire q (quic_newSocket (qc :: 'q) st timeout) = []"
      using assms(7) by (simp_all add: quic_inv_def quic_newSocket_def)
  qed
qed

text \<open>
  The same over a WebSocket, for every frame library that keeps the laws and whatever frames arrive
  between the calls: the frames on the wire, a torn one behind them only if the socket is closed,
  carry the encodings of exactly the packets that the broker has sent, one each, and the peer that joins
  the data of its frames decodes them.
\<close>

theorem broker_over_ws:
  assumes "reachable s" and "heap (broker s) i = Some c" and "ws_laws L wire_of payload"
    and "used_by as anss (c_sock c)" and "map untimed (ws_ops acts) = map untimed as"
    and "receives_open False acts" and "sent (outgoing_wire tc) = []"
    and "ws_calls L acts (ws_newSocket now tc extra timeout client, r) = (anss, t, r')"
  shows "\<exists>fs partial. ws_wire t = concat (map wire_of fs) @ partial \<and> (partial \<noteq> [] \<longrightarrow> w_closed t) \<and>
    List.map_filter payload fs = map encode (packets (c_sock c)) \<and>
    carries (concat (List.map_filter payload fs)) False (packets (c_sock c))"
proof -
  obtain fs partial where fs: "ws_wire t = concat (map wire_of fs) @ partial" "partial \<noteq> [] \<longrightarrow> w_closed t"
    "List.map_filter payload fs = map encode (packets (c_sock c))"
    using ws_on_wire [OF assms(4,3,7,6,5,8)] by blast
  have "carries (concat (List.map_filter payload fs)) False (packets (c_sock c))"
    by (rule client_carries [OF assms(1,2)]) (simp add: fs(3))
  with fs show ?thesis by blast
qed

end
