(* ===== verification/BrokerOrder.thy ===== *)
theory BrokerOrder
  imports BrokerWire "HOL-Library.Sublist"
begin

text \<open>
  The order of messages. In a run of the broker, with all handlers interleaving, the messages of one
  publisher reach one subscriber in the order in which its handler took them up, each at most once;
  and it takes up the messages of quality 0 and 1 in the order in which they arrive.
\<close>

section \<open>What a handler sends to a client\<close>

text \<open>
  A step of the handler of \<open>i\<close> that sends a packet to \<open>t\<close> with success: the message and the packet.
\<close>

definition delivered_in :: "cid \<Rightarrow> cid \<Rightarrow> system \<Rightarrow> system \<Rightarrow> (PublishPacket \<times> PublishPacket) list" where
  "delivered_in i t s s' = (case phases s i of
      Some (Sending p t' out ts) \<Rightarrow>
        (case heap (broker s) t of
           Some c \<Rightarrow> if t' = t \<and> phases s' i \<noteq> phases s i \<and> fst (Send (c_sock c) (PublishP out)) = None
             then [(p, out)] else []
         | None \<Rightarrow> [])
    | _ \<Rightarrow> [])"

text \<open>A run from the start, with what the handler of \<open>i\<close> sends to \<open>t\<close> in it.\<close>

inductive delivers :: "cid \<Rightarrow> cid \<Rightarrow> event list \<Rightarrow> (PublishPacket \<times> PublishPacket) list \<Rightarrow> system \<Rightarrow> bool"
  for i t where
  start: "delivers i t [] [] init_system"
| step: "delivers i t evs outs s \<Longrightarrow> lstep e s s' \<Longrightarrow>
    delivers i t (evs @ [e]) (outs @ delivered_in i t s s') s'"

lemma delivers_run: "run init_system evs s \<longleftrightarrow> (\<exists>outs. delivers i t evs outs s)"
proof
  show "\<exists>outs. delivers i t evs outs s" if "run init_system evs s"
    using that
  proof (induction s0 \<equiv> init_system evs s rule: run.induct)
    case start
    then show ?case using delivers.start by blast
  next
    case (step evs s e s')
    then show ?case using delivers.step by blast
  qed
  have "delivers i t evs outs s \<Longrightarrow> run init_system evs s" for outs
    by (induction rule: delivers.induct) (auto intro: run.intros)
  then show "\<exists>outs. delivers i t evs outs s \<Longrightarrow> run init_system evs s" by blast
qed

lemma delivers_reachable: "delivers i t evs outs s \<Longrightarrow> reachable s"
  unfolding reachable_run using delivers_run by blast

section \<open>Order within a handler\<close>

definition copy_of :: "PublishPacket \<Rightarrow> PublishPacket \<Rightarrow> bool" where
  "copy_of p out \<longleftrightarrow> (\<exists>qos i. out = outgoing p qos i)"

text \<open>
  While the handler delivers its last message, what it has sent to \<open>t\<close> is of earlier messages until
  it has visited \<open>t\<close>.
\<close>

definition in_order :: "cid \<Rightarrow> phase option \<Rightarrow> PublishPacket list \<Rightarrow> (PublishPacket \<times> PublishPacket) list \<Rightarrow> bool" where
  "in_order t ph ps outs \<longleftrightarrow> (\<forall>(p, out) \<in> set outs. copy_of p out) \<and> (case ph of
      Some (Delivering p ts) \<Rightarrow> distinct ts \<and> ps \<noteq> [] \<and> last ps = p \<and>
        subseq (map fst outs) (if t \<in> set ts then butlast ps else ps)
    | Some (Sending p t' out ts) \<Rightarrow> distinct (t' # ts) \<and> ps \<noteq> [] \<and> last ps = p \<and> copy_of p out \<and>
        subseq (map fst outs) (if t \<in> set (t' # ts) then butlast ps else ps)
    | _ \<Rightarrow> subseq (map fst outs) ps)"

lemma subseq_butlast: "subseq xs (butlast ys) \<Longrightarrow> subseq xs ys"
  by (metis append_butlast_last_id butlast.simps(1) subseq_order.trans subseq_rev_drop_many subseq_order.refl)

lemma in_order_subseq: "in_order t ph ps outs \<Longrightarrow> subseq (map fst outs) ps"
  by (auto simp: in_order_def intro: subseq_butlast split: option.splits phase.splits if_splits)

fun idle :: "phase option \<Rightarrow> bool" where
  "idle (Some (Delivering p ts)) = False"
| "idle (Some (Sending p t out ts)) = False"
| "idle _ = True"

lemma in_order_idle: "in_order t ph ps outs \<Longrightarrow> idle ph' \<Longrightarrow> in_order t ph' ps outs"
  using in_order_subseq [of t ph ps outs] by (cases ph' rule: idle.cases) (auto simp: in_order_def)

lemma in_order_handed:
  assumes "in_order t ph ps outs" and "distinct ts"
  shows "in_order t (Some (Delivering p ts)) (ps @ [p]) outs"
  using in_order_subseq [OF assms(1)] assms by (auto simp: in_order_def intro: subseq_rev_drop_many)

lemma in_order_visit:
  assumes "in_order t (Some (Delivering p (t' # ts))) ps outs"
  shows "in_order t (Some (Delivering p ts)) ps outs"
    and "copy_of p out \<Longrightarrow> in_order t (Some (Sending p t' out ts)) ps outs"
  using assms by (auto simp: in_order_def intro: subseq_butlast split: if_splits)

lemma in_order_send:
  assumes "in_order t (Some (Sending p t' out ts)) ps outs"
  shows "in_order t (Some (Delivering p ts)) ps outs"
    and "t' = t \<Longrightarrow> in_order t (Some (Delivering p ts)) ps (outs @ [(p, out)])"
proof -
  show "in_order t (Some (Delivering p ts)) ps outs"
    using assms by (auto simp: in_order_def intro: subseq_butlast split: if_splits)
  assume "t' = t"
  with assms have a: "subseq (map fst outs) (butlast ps)" "ps \<noteq> []" "last ps = p" "t \<notin> set ts"
    by (auto simp: in_order_def)
  then have "subseq (map fst outs @ [p]) (butlast ps @ [p])" by (simp add: subseq_append')
  with a have "subseq (map fst outs @ [p]) ps" by (metis append_butlast_last_id)
  with assms a(4) show "in_order t (Some (Delivering p ts)) ps (outs @ [(p, out)])"
    by (auto simp: in_order_def)
qed

lemma deliver_locked_copy: "deliver_locked p c = (Some out, c') \<Longrightarrow> copy_of p out"
  by (auto simp: deliver_locked_def copy_of_def split: prod.splits if_splits)

text \<open>Steps of other handlers, and steps outside a delivery, keep the order.\<close>

lemma delivered_in_other: "phases s' i = phases s i \<Longrightarrow> delivered_in i t s s' = []"
  by (auto simp: delivered_in_def split: option.split phase.split)

lemma in_order_other:
  assumes "in_order t (phases s i) ps outs" and "phases s' i = phases s i"
  shows "in_order t (phases s' i) ps (outs @ delivered_in i t s s')"
  using assms by (simp add: delivered_in_other)

lemma in_order_not_sending:
  assumes "in_order t (phases s i) ps outs" and "idle (phases s i)" and "idle (phases s' i)"
  shows "in_order t (phases s' i) ps (outs @ delivered_in i t s s')"
  using in_order_idle [OF assms(1,3)] assms(2)
  by (cases "phases s i" rule: idle.cases) (simp_all add: delivered_in_def)

lemma idle_steps [simp]:
  "idle (phases (handle_receive i c s) i)" "idle (phases (handle_reply i ack msg c s) i)"
  "idle (phases (handle_connect i sk s) i)"
  by (auto simp: handle_receive_def handle_reply_def reply_eq handle_connect_def next_phase_def Let_def
      split: prod.splits sum.splits option.splits)

lemma in_order_step:
  assumes "lstep e s s'" and "in_order t (phases s i) ps outs"
  shows "in_order t (phases s' i) (ps @ handed_by i e) (outs @ delivered_in i t s s')"
  using assms(1)
proof cases
  case (received j c pkt sk)
  with assms(2) show ?thesis
    using in_order_not_sending [OF assms(2)] in_order_other [OF assms(2)]
    by (cases "i = j") (simp_all add: other_receive)
next
  case (lost j c err sk)
  with assms(2) show ?thesis
    using in_order_not_sending [OF assms(2)] in_order_other [OF assms(2)]
    by (cases "i = j") (simp_all add: other_receive)
next
  case (handed j p ts)
  then show ?thesis
    using in_order_handed [OF assms(2)] in_order_other [OF assms(2)]
    by (cases "i = j") (simp_all add: delivered_in_def)
next
  case (connect j sk)
  then show ?thesis
    using in_order_not_sending [OF assms(2)] in_order_other [OF assms(2)]
    by (cases "i = j") (simp_all add: other_connect)
next
  case (respond j ack msg c)
  then show ?thesis
    using in_order_not_sending [OF assms(2)] in_order_other [OF assms(2)]
    by (cases "i = j") (simp_all add: other_reply)
next
  case (visit j p t' ts c)
  show ?thesis
  proof (cases "i = j")
    case True
    with visit in_order_visit [of t p t' ts ps outs] assms(2) show ?thesis
      by (auto simp: handle_visit_def delivered_in_def split: prod.splits option.splits
          dest: deliver_locked_copy)
  next
    case False
    with visit have "phases s' i = phases s i"
      by (auto simp: handle_visit_def split: prod.splits option.splits)
    with in_order_other [OF assms(2) this] visit show ?thesis by simp
  qed
next
  case (send j p t' out ts c)
  show ?thesis
  proof (cases "i = j")
    case True
    with send in_order_send [of t p t' out ts ps outs] assms(2) show ?thesis
      by (auto simp: handle_send_def delivered_in_def split: option.splits)
  next
    case False
    with send have "phases s' i = phases s i" by (auto simp: handle_send_def)
    with in_order_other [OF assms(2) this] send show ?thesis by simp
  qed
next
  case (delivered j p)
  with assms(2) show ?thesis
    using in_order_idle [OF assms(2)] in_order_other [OF assms(2)]
    by (cases "i = j") (simp_all add: delivered_in_def)
next
  case (accept j sk)
  then show ?thesis
    using in_order_not_sending [OF assms(2), of s'] in_order_other [OF assms(2), of s']
    by (cases "i = j") auto
qed (use in_order_other [OF assms(2)] in \<open>simp_all add: begin_close_def\<close>)

lemma in_order_run:
  assumes "delivers i t evs outs s"
  shows "in_order t (phases s i) (handed_in i evs) outs"
  using assms
proof (induction rule: delivers.induct)
  case start
  then show ?case by (simp add: in_order_def init_system_def)
next
  case (step evs outs s e s')
  with in_order_step [OF step.hyps(2) step.IH] show ?case by simp
qed

section \<open>The packets of a client\<close>

definition packets_of :: "system \<Rightarrow> cid \<Rightarrow> ControlPacket list" where
  "packets_of s t = (case heap (broker s) t of Some c \<Rightarrow> packets (c_sock c) | None \<Rightarrow> [])"

lemma packets_of_grow:
  assumes "keeps_using s s'" and "dom (heap (broker s)) \<subseteq> dom (heap (broker s'))"
  shows "prefix (packets_of s t) (packets_of s' t)"
proof (cases "heap (broker s) t")
  case (Some c)
  then obtain c' where c': "heap (broker s') t = Some c'" using assms(2) by blast
  with assms(1) obtain sk where sk: "socket_of s t = Some sk" "used sk (c_sock c')"
    by (auto simp: keeps_using_def)
  moreover have "socket_of s t = Some (c_sock c)" by (simp add: socket_of_def Some)
  ultimately have "used (c_sock c) (c_sock c')" by simp
  then obtain as anss where "run_calls sock_call as (c_sock c) = (anss, c_sock c')" by (auto simp: used_def)
  from run_calls_packets [OF this] Some c' show ?thesis by (simp add: packets_of_def)
qed (simp add: packets_of_def)

lemma heap_hstep: "hstep s s' \<Longrightarrow> heap (broker s) t \<noteq> None \<Longrightarrow> heap (broker s') t \<noteq> None"
proof (induction rule: hstep.induct)
  case (connect i sk s)
  then show ?case
    by (auto simp: handle_connect_def register_def split: prod.splits option.splits if_splits)
next
  case (receive s i c)
  then show ?case
    by (auto simp: handle_receive_def finish_def unregister_def Let_def split: prod.splits option.splits sum.splits)
next
  case (respond s i ack msg c)
  then show ?case
    by (auto simp: handle_reply_def reply_eq finish_def unregister_def split: option.splits)
next
  case (visit s i p t ts c)
  then show ?case by (auto simp: handle_visit_def split: prod.splits option.splits)
next
  case (send s i p t out ts c)
  then show ?case by (auto simp: handle_send_def)
qed simp_all

lemma heap_grows: "bstep s s' \<Longrightarrow> dom (heap (broker s)) \<subseteq> dom (heap (broker s'))"
  by (induction rule: bstep.induct) (auto simp: begin_close_def close_client_def dest: heap_hstep)

lemma packets_of_sent:
  assumes "heap (broker s) t = Some c" and "fst (Send (c_sock c) (PublishP out)) = None"
  shows "packets_of (handle_send i p t out ts c s) t = packets_of s t @ [PublishP out]"
  using assms Send_packets [of "c_sock c" "PublishP out"] by (simp add: packets_of_def handle_send_def)

text \<open>What a handler sends is among the packets of the client, in the order of the sends.\<close>

lemma delivered_in_send:
  assumes "lstep e s s'" and "delivered_in i t s s' \<noteq> []"
  obtains p out ts c where "delivered_in i t s s' = [(p, out)]" and "heap (broker s) t = Some c"
    and "fst (Send (c_sock c) (PublishP out)) = None" and "s' = handle_send i p t out ts c s"
proof -
  obtain p out ts c where d: "phases s i = Some (Sending p t out ts)" "heap (broker s) t = Some c"
    "phases s' i \<noteq> phases s i" "fst (Send (c_sock c) (PublishP out)) = None" "delivered_in i t s s' = [(p, out)]"
    using assms(2) by (auto simp: delivered_in_def split: option.splits phase.splits if_splits)
  have o: "phases s' i = phases s i" if "s' \<noteq> handle_send i p t out ts c s"
    using assms(1)
  proof cases
    case (received j c pkt sk)
    with d(1) other_receive(1) show ?thesis by (cases "i = j") auto
  next
    case (lost j c err sk)
    with d(1) other_receive(1) show ?thesis by (cases "i = j") auto
  next
    case (connect j sk)
    with d(1) other_connect(1) show ?thesis by (cases "i = j") auto
  next
    case (respond j ack msg c)
    with d(1) other_reply(1) show ?thesis by (cases "i = j") auto
  next
    case (visit j p t' ts c)
    with d(1) show ?thesis by (auto simp: handle_visit_def split: prod.splits option.splits)
  next
    case (send j p' t' out' ts' c')
    with d(1,2) that show ?thesis by (cases "i = j") (auto simp: handle_send_def)
  next
    case (accept j sk)
    with d(1) show ?thesis by (cases "i = j") auto
  next
    case (handed j p' ts')
    with d(1) show ?thesis by (cases "i = j") (auto simp: next_phase_def split: option.splits)
  next
    case (delivered j p')
    with d(1) show ?thesis by (cases "i = j") auto
  qed (simp_all add: begin_close_def)
  with d(3) have "s' = handle_send i p t out ts c s" by blast
  with d that show thesis by blast
qed

lemma delivered_packets_step:
  assumes "reachable s" and "lstep e s s'" and "subseq (map (PublishP \<circ> snd) outs) (packets_of s t)"
  shows "subseq (map (PublishP \<circ> snd) (outs @ delivered_in i t s s')) (packets_of s' t)"
proof (cases "delivered_in i t s s' = []")
  case True
  have b: "bstep s s'" using assms(2) bstep_lstep by blast
  from packets_of_grow [OF keeps_using_step [OF b assms(1)] heap_grows [OF b], of t]
  obtain zs where "packets_of s' t = packets_of s t @ zs" by (auto elim: prefixE)
  with True assms(3) show ?thesis by (simp add: subseq_rev_drop_many)
next
  case False
  then obtain p out ts c where "delivered_in i t s s' = [(p, out)]" "heap (broker s) t = Some c"
    "fst (Send (c_sock c) (PublishP out)) = None" "s' = handle_send i p t out ts c s"
    by (rule delivered_in_send [OF assms(2)])
  with packets_of_sent assms(3) show ?thesis by (simp add: subseq_append')
qed

lemma delivered_packets:
  "delivers i t evs outs s \<Longrightarrow> subseq (map (PublishP \<circ> snd) outs) (packets_of s t)"
  by (induction rule: delivers.induct) (simp, blast intro: delivered_packets_step delivers_reachable)

section \<open>Messages in turn\<close>

text \<open>A message of quality 0 or 1 is handed over at once; one of quality 2 waits for its release.\<close>

definition quick :: "PublishPacket \<Rightarrow> bool" where
  "quick p \<longleftrightarrow> Qos (pub_FixedHeader p) \<in> {0, 1}"

fun quick_of :: "ControlPacket \<Rightarrow> PublishPacket list" where
  "quick_of (PublishP p) = filter quick [p]"
| "quick_of _ = []"

abbreviation quick_in :: "ControlPacket list \<Rightarrow> PublishPacket list" where
  "quick_in pkts \<equiv> concat (map quick_of pkts)"

definition in_turn :: "ControlPacket list \<Rightarrow> PublishPacket list \<Rightarrow> phase option \<Rightarrow> bool" where
  "in_turn pkts ps ph = (case ph of
      None \<Rightarrow> pkts = [] \<and> ps = []
    | Some (Connecting sk) \<Rightarrow> pkts = [] \<and> ps = []
    | Some Finished \<Rightarrow> prefix (filter quick ps) (quick_in pkts)
    | Some ph \<Rightarrow> filter quick (ps @ pending ph) = quick_in pkts)"

lemma in_turn_active:
  "active ph \<Longrightarrow> in_turn pkts ps (Some ph) \<longleftrightarrow> filter quick (ps @ pending ph) = quick_in pkts"
  by (cases ph) (simp_all add: in_turn_def)

lemma in_turn_prefix: "in_turn pkts ps ph \<Longrightarrow> prefix (filter quick ps) (quick_in pkts)"
  by (auto simp: in_turn_def prefix_def split: option.splits phase.splits) (metis append_Nil2)+

lemma in_turn_finished: "in_turn pkts ps ph \<Longrightarrow> in_turn (pkts @ pkts') ps (Some Finished)"
  using in_turn_prefix [of pkts ps ph] by (simp add: in_turn_def prefix_def) (metis append.assoc)

lemma dispatch_locked_quick:
  assumes "inbound_ok c" and "dispatch_locked c pkt = (Inr (ack, msg), c')"
  shows "filter quick (case msg of None \<Rightarrow> [] | Some p \<Rightarrow> [p]) = quick_of pkt"
proof -
  consider (publish) p where "pkt = PublishP p" | (pubrel) p where "pkt = PubrelP p"
    | (other) "kind pkt \<noteq> Publish" "kind pkt \<noteq> Pubrel"
    by (cases pkt) auto
  then show ?thesis
  proof cases
    case publish
    with assms(2) have "dispatch_publish c p = (Inr (ack, msg), c')"
      by (simp add: dispatch_locked_def)
    with publish dispatch_publish_Inr(2) [OF this] show ?thesis by (simp add: quick_def)
  next
    case pubrel
    with assms(2) have "dispatch_pubrel c p = (Inr (ack, msg), c')"
      by (simp add: dispatch_locked_def)
    with pubrel assms(1) dispatch_pubrel_Inr(2) [OF this] show ?thesis
      by (auto simp: quick_def inbound_ok_def qos2_message_def split: option.split)
  next
    case other
    with dispatch_other_Inr [OF assms(2)] show ?thesis by (cases pkt) simp_all
  qed
qed

lemma in_turn_receive:
  assumes "system_inv s" and "phases s i = Some Running" and "heap (broker s) i = Some c"
    and "recv (c_sock c) = (Inr pkt, sk)" and "in_turn pkts ps (phases s i)"
  shows "in_turn (pkts @ [pkt]) ps (phases (handle_receive i c s) i)"
proof -
  let ?c = "c\<lparr>c_sock := sk\<rparr>"
  obtain res c' where d: "dispatch_locked ?c pkt = (res, c')" by fastforce
  have ok: "inbound_ok ?c"
    using system_inv_client [OF assms(1,3)] by (auto simp: client_inv_def inbound_ok_def)
  have "in_turn (pkts @ [pkt]) ps (Some ph)"
    if "res = Inr (ack, msg)" "active ph" "pending ph = (case msg of None \<Rightarrow> [] | Some p \<Rightarrow> [p])" for ack msg ph
    using dispatch_locked_quick [OF ok d [unfolded that(1)]] assms(2,5) that(2,3) by (simp add: in_turn_active)
  moreover have "in_turn (pkts @ [pkt]) ps (Some Finished)" by (rule in_turn_finished [OF assms(5)])
  ultimately show ?thesis
    using d by (auto simp: handle_receive_def assms(4) split: sum.split option.split)
qed

lemma in_turn_step:
  assumes "lstep e s s'" and "system_inv s" and t: "in_turn pkts ps (phases s i)"
  shows "in_turn (pkts @ received_by i e) (ps @ handed_by i e) (phases s' i)"
  using assms(1)
proof cases
  case (received j c pkt sk)
  then show ?thesis
    using in_turn_receive [OF assms(2) _ _ _ t] t by (cases "i = j") (simp_all add: other_receive)
next
  case (lost j c err sk)
  then show ?thesis
    using t in_turn_finished [OF t, of "[]"] by (cases "i = j") (auto simp: other_receive handle_receive_def)
next
  case (handed j p ts)
  then show ?thesis using t by (cases "i = j") (auto simp: in_turn_active)
next
  case (connect j sk)
  then show ?thesis
    using t by (cases "i = j") (auto simp: other_connect handle_connect_def in_turn_def split: prod.splits option.splits)
next
  case (respond j ack msg c)
  then show ?thesis
    using t in_turn_finished [OF t, of "[]"]
    by (cases "i = j") (auto simp: other_reply handle_reply_def reply_eq in_turn_active split: option.splits)
next
  case (visit j p t' ts c)
  then show ?thesis
    using t by (cases "i = j") (auto simp: handle_visit_def in_turn_active split: prod.splits option.splits)
next
  case (send j p t' out ts c)
  then show ?thesis using t by (cases "i = j") (auto simp: handle_send_def in_turn_active)
next
  case (delivered j p)
  then show ?thesis using t by (cases "i = j") (auto simp: in_turn_active)
next
  case (accept j sk)
  then show ?thesis using t by (cases "i = j") (auto simp: in_turn_def)
qed (use t in \<open>simp_all add: begin_close_def\<close>)

lemma in_turn_run:
  assumes "delivers i t evs outs s"
  shows "in_turn (received_in i evs) (handed_in i evs) (phases s i)"
  using assms
proof (induction rule: delivers.induct)
  case start
  then show ?case by (simp add: in_turn_def init_system_def)
next
  case (step evs outs s e s')
  from in_turn_step [OF step.hyps(2) reachable_system_inv [OF delivers_reachable [OF step.hyps(1)]] step.IH]
  show ?case by simp
qed

section \<open>Properties\<close>

text \<open>Whatever reads the bytes sent to a client gets the delivered messages in order.\<close>

lemma delivered_decoded:
  assumes "delivers i t evs outs s" and "data r = concat (map encode (packets_of s t))"
  shows "\<exists>pkts r'. read_packets maxPacketSize (length pkts) r = (Inr pkts, r') \<and> data r' = [] \<and>
    subseq (map (as_received \<circ> PublishP \<circ> snd) outs) pkts"
proof -
  let ?pkts = "map as_received (packets_of s t)"
  have "subseq (map (as_received \<circ> PublishP \<circ> snd) outs) ?pkts"
    using subseq_map [OF delivered_packets [OF assms(1)], of as_received] by (simp add: comp_assoc)
  moreover have "\<exists>r'. read_packets maxPacketSize (length ?pkts) r = (Inr ?pkts, r') \<and> data r' = []"
  proof (cases "heap (broker s) t")
    case None
    with assms(2) show ?thesis by (simp add: packets_of_def rret_def)
  next
    case (Some c)
    with assms(2) client_decodes_broker [OF delivers_reachable [OF assms(1)] Some]
    show ?thesis by (simp add: packets_of_def)
  qed
  ultimately show ?thesis by blast
qed

text \<open>
  C16: ordered delivery. In every run of the broker, however the handlers interleave: what the
  handler of \<open>i\<close> sends to client \<open>t\<close> are copies of the messages that it has handed to \<^verbatim>\<open>deliver\<close>, in
  their order and each at most once; whatever reader gets the bytes sent to \<open>t\<close> decodes
  packets with these messages among them, in this order; and of quality 0 and 1 the messages are
  handed over in the order in which they arrived, with none missed before another, so that \<open>t\<close> gets
  them in that order too.
\<close>

theorem ordered_delivery:
  assumes "delivers i t evs outs s"
  shows "subseq (map fst outs) (handed_in i evs) \<and>
    (\<forall>(p, out) \<in> set outs. \<exists>qos msgID. out = outgoing p qos msgID) \<and>
    (\<forall>r. data r = concat (map encode (packets_of s t)) \<longrightarrow>
      (\<exists>pkts r'. read_packets maxPacketSize (length pkts) r = (Inr pkts, r') \<and> data r' = [] \<and>
        subseq (map (as_received \<circ> PublishP \<circ> snd) outs) pkts)) \<and>
    prefix (filter quick (handed_in i evs)) (quick_in (received_in i evs)) \<and>
    subseq (filter quick (map fst outs)) (quick_in (received_in i evs))"
proof (intro conjI)
  note o = in_order_run [OF assms]
  show h: "subseq (map fst outs) (handed_in i evs)" using o by (rule in_order_subseq)
  show "\<forall>(p, out) \<in> set outs. \<exists>qos msgID. out = outgoing p qos msgID"
    using o by (simp add: in_order_def copy_of_def)
  show "\<forall>r. data r = concat (map encode (packets_of s t)) \<longrightarrow>
      (\<exists>pkts r'. read_packets maxPacketSize (length pkts) r = (Inr pkts, r') \<and> data r' = [] \<and>
        subseq (map (as_received \<circ> PublishP \<circ> snd) outs) pkts)"
    using delivered_decoded [OF assms] by blast
  show r: "prefix (filter quick (handed_in i evs)) (quick_in (received_in i evs))"
    using in_turn_run [OF assms] by (rule in_turn_prefix)
  show "subseq (filter quick (map fst outs)) (quick_in (received_in i evs))"
    using subseq_order.trans [OF subseq_filter [OF h] prefix_imp_subseq [OF r]] .
qed

text \<open>A client that subscribes to a topic and publishes to it gets its own message.\<close>

definition order_subscribe :: SubscribePacket where
  "order_subscribe = \<lparr>sub_FixedHeader = zeroHeader Subscribe 1, sub_MessageID = 5,
     sub_Topics = [lit ''a/b''], Qoss = [0]\<rparr>"

definition order_publish :: PublishPacket where
  "order_publish = (sample_message 0)\<lparr>pub_MessageID := 0\<rparr>"

definition order_sock :: sock where
  "order_sock = \<lparr>input = buffer (encode sample_connect @ encode (SubscribeP order_subscribe) @
     encode (PublishP order_publish)), packets = [], outcomes = [], sockTimeout = 0, sockClosed = False\<rparr>"

lemma order_sendable:
  "sendable maxPacketSize (SubscribeP order_subscribe)" "sendable maxPacketSize (PublishP order_publish)"
  by (simp_all add: order_subscribe_def order_publish_def sample_message_def sendable_defs
      publish_wf_def publish_content_def subscribe_wf_def subscribe_content_def lit_def)

lemma buffer_reads:
  "sendable maxPacketSize cp \<Longrightarrow>
    ReadPacketLimit maxPacketSize (buffer (encode cp @ rest)) = (Inr (as_received cp), buffer rest)"
  using ReadPacketLimit_frame [of cp maxPacketSize] by (simp add: sendable_def encode_def)

lemma buffer_reads_last:
  "sendable maxPacketSize cp \<Longrightarrow> ReadPacketLimit maxPacketSize (buffer (encode cp)) = (Inr (as_received cp), buffer [])"
  using buffer_reads [of cp "[]"] by simp

abbreviation order_subscribed :: SubscribePacket where
  "order_subscribed \<equiv> order_subscribe\<lparr>sub_FixedHeader := (zeroHeader Subscribe 1)\<lparr>RemainingLength := 8\<rparr>\<rparr>"

abbreviation order_published :: PublishPacket where
  "order_published \<equiv> order_publish\<lparr>pub_FixedHeader := (zeroHeader Publish 0)\<lparr>RemainingLength := 6\<rparr>\<rparr>"

lemma order_received:
  "as_received (SubscribeP order_subscribe) = SubscribeP order_subscribed"
  "as_received (PublishP order_publish) = PublishP order_published"
  by (simp_all add: as_received_def order_subscribe_def order_publish_def sample_message_def zeroHeader_def
      subscribe_content_def publish_content_def lit_def)

lemma order_valid:
  "SubscribePacket_Validate order_subscribed = None" "PublishPacket_Validate order_published = None"
  by (simp_all add: order_subscribe_def order_publish_def sample_message_def zeroHeader_def
      SubscribePacket_Validate_None ValidatePattern_None filter_levels_def PublishPacket_Validate_def
      ValidateTopic_None topic_string_def plain_level_def ValidUTF8String_def lit_def)

lemma order_dispatch:
  "dispatch_locked c (SubscribeP order_subscribed) = (Inr (Some (SubackP ((new_SubackPacket (zeroHeader Suback 0))
     \<lparr>suback_MessageID := 5, ReturnCodes := [0]\<rparr>)), None), c\<lparr>subs := AList.update (lit ''a/b'') 0 (subs c)\<rparr>)"
  "dispatch_locked c (PublishP order_published) = (Inr (None, Some order_published), c)"
  using order_valid
  by (simp_all add: dispatch_locked_def dispatch_subscribe_def dispatch_publish_def)
    (simp_all add: order_subscribe_def zeroHeader_def)

abbreviation order_sock_at :: "bytes \<Rightarrow> ControlPacket list \<Rightarrow> sock" where
  "order_sock_at bs cps \<equiv> \<lparr>input = buffer bs, packets = cps, outcomes = [], sockTimeout = 0, sockClosed = False\<rparr>"

lemma order_handshake:
  "handshake (order_sock_at (encode sample_connect @ rest) []) =
    (Some (new_client (order_sock_at rest [connack_accepted]) []), order_sock_at rest [connack_accepted])"
proof -
  have "recv (SetTimeOut d (order_sock_at (encode sample_connect @ rest) [])) =
      (Inr (as_received sample_connect), SetTimeOut d (order_sock_at rest []))" for d
    by (simp add: recv_def SetTimeOut_def buffer_reads sample_connect_sendable)
  then show ?thesis
    by (simp add: handshake_def as_received_def sample_connect_def Send_def new_ConnectPacket_def
        ConnectPacket_Validate_def ValidUTF8String_def lit_def Let_def connack_accepted_def SetTimeOut_def)
qed

abbreviation order_before :: "event list" where
  "order_before \<equiv> [Silent, Silent, Received 0 (SubscribeP order_subscribed), Silent,
     Received 0 (PublishP order_published)]"

lemma order_run:
  "\<exists>s c. run init_system order_before s \<and> phases s 0 = Some (Publishing order_published) \<and>
    clients (broker s) = [0] \<and> heap (broker s) 0 = Some c \<and> subs c = [(lit ''a/b'', 0)] \<and>
    outcomes (c_sock c) = [] \<and> \<not> sockClosed (c_sock c)"
proof -
  let ?bs0 = "encode (SubscribeP order_subscribe) @ encode (PublishP order_publish)"
  let ?sk0 = "order_sock_at ?bs0 [connack_accepted]"
  let ?sk1 = "order_sock_at (encode (PublishP order_publish)) [connack_accepted]"
  let ?c0 = "new_client ?sk0 []"
  let ?s0 = "set_phase 0 (Connecting order_sock) init_system"
  let ?s1 = "handle_connect 0 order_sock ?s0"
  let ?suback = "SubackP ((new_SubackPacket (zeroHeader Suback 0))\<lparr>suback_MessageID := 5, ReturnCodes := [0]\<rparr>)"
  let ?c1 = "?c0\<lparr>c_sock := ?sk1, subs := [(lit ''a/b'', 0)]\<rparr>"
  let ?c2 = "?c1\<lparr>c_sock := ?sk1\<lparr>packets := [connack_accepted, ?suback]\<rparr>\<rparr>"
  let ?c3 = "?c2\<lparr>c_sock := (c_sock ?c2)\<lparr>input := buffer []\<rparr>\<rparr>"
  let ?s2 = "set_phase 0 (next_phase None) (set_client 0 ?c2 ?s1)"
  let ?s3 = "handle_receive 0 ?c2 ?s2"
  have s1: "phases ?s1 0 = Some Running" "heap (broker ?s1) 0 = Some ?c0" "clients (broker ?s1) = [0]"
    by (simp_all add: handle_connect_def order_sock_def order_handshake register_def init_system_def NewBroker_def)
  have r0: "run init_system ([] @ [Silent]) ?s0"
    by (rule run.step [OF run.start lstep.accept]) (simp_all add: init_system_def NewBroker_def order_sock_def)
  have r1: "run init_system (([] @ [Silent]) @ [Silent]) ?s1"
    by (rule run.step [OF r0 lstep.connect]) simp
  have r2: "run init_system ((([] @ [Silent]) @ [Silent]) @ [Received 0 (SubscribeP order_subscribed), Silent]) ?s2"
    by (rule run_receive [OF r1 s1(1,2), where c' = ?c1 and sk = ?sk1 and ack = ?suback])
      (simp_all add: recv_def new_client_def buffer_reads order_sendable order_received
        order_dispatch reply_def Send_def)
  have recv: "recv (c_sock ?c2) = (Inr (PublishP order_published), c_sock ?c3)"
    by (simp add: recv_def buffer_reads_last order_sendable order_received)
  then have s3: "?s3 = set_phase 0 (Publishing order_published) (set_client 0 ?c3 ?s2)"
    by (simp add: handle_receive_def order_dispatch next_phase_def)
  have "lstep (Received 0 (PublishP order_published)) ?s2 ?s3"
    by (rule lstep.received [where sk = "c_sock ?c3"]) (simp_all only: recv, simp_all add: next_phase_def)
  from run.step [OF r2 this] have "run init_system order_before ?s3" by simp
  moreover have "phases ?s3 0 = Some (Publishing order_published)" "clients (broker ?s3) = [0]"
    "heap (broker ?s3) 0 = Some ?c3"
    unfolding s3 by (simp_all add: s1(3))
  ultimately show ?thesis by (intro exI [of _ ?s3] exI [of _ ?c3]) (simp add: new_client_def)
qed

lemma order_visit:
  "deliver_locked order_published c = (Some (outgoing order_published 0 0), c)" if "subs c = [(lit ''a/b'', 0)]"
  using that by (simp add: deliver_locked_def order_publish_def sample_message_def MatchFilter_plain plain_level_def lit_def)

lemma order_delivers:
  "\<exists>s. delivers 0 0 (order_before @ [Handed 0 order_published, Silent, Silent])
     [(order_published, outgoing order_published 0 0)] s"
proof -
  obtain s c where r: "run init_system order_before s" and
    s: "phases s 0 = Some (Publishing order_published)" "clients (broker s) = [0]" "heap (broker s) 0 = Some c"
      "subs c = [(lit ''a/b'', 0)]" "outcomes (c_sock c) = []" "\<not> sockClosed (c_sock c)"
    using order_run by blast
  let ?out = "outgoing order_published 0 0"
  let ?s1 = "set_phase 0 (Delivering order_published [0]) s"
  let ?s2 = "set_phase 0 (Sending order_published 0 ?out []) (set_client 0 c ?s1)"
  let ?s3 = "handle_send 0 order_published 0 ?out [] c ?s2"
  obtain outs where d: "delivers 0 0 order_before outs s" using delivers_run r by blast
  from in_order_subseq [OF in_order_run [OF d]] have "outs = []" by (cases outs) simp_all
  with d have d0: "delivers 0 0 order_before [] s" by simp
  have 1: "lstep (Handed 0 order_published) s ?s1"
    by (rule lstep.handed) (simp_all add: s)
  have d1: "delivers 0 0 (order_before @ [Handed 0 order_published]) [] ?s1"
    using delivers.step [OF d0 1] s(1) by (simp add: delivered_in_def)
  have "handle_visit 0 order_published 0 [] c ?s1 = ?s2"
    by (simp add: handle_visit_def order_visit s(4))
  with lstep.visit [of ?s1 0 order_published 0 "[]" c] have 2: "lstep Silent ?s1 ?s2" by (simp add: s(3))
  have d2: "delivers 0 0 ((order_before @ [Handed 0 order_published]) @ [Silent]) [] ?s2"
    using delivers.step [OF d1 2] by (simp add: delivered_in_def)
  have 3: "lstep Silent ?s2 ?s3" by (rule lstep.send) simp_all
  have "delivered_in 0 0 ?s2 ?s3 = [(order_published, ?out)]"
    using s(5,6) by (simp add: delivered_in_def handle_send_def Send_def)
  with delivers.step [OF d2 3] show ?thesis by auto
qed

theorem ordered_delivery_witness:
  "\<exists>bs pkts r'. read_packets maxPacketSize (length pkts) (buffer bs) = (Inr pkts, r') \<and> data r' = [] \<and>
     subseq [as_received (PublishP (outgoing order_published 0 0))] pkts \<and>
     subseq [order_published] (quick_in [SubscribeP order_subscribed, PublishP order_published])"
proof -
  obtain s where "delivers 0 0 (order_before @ [Handed 0 order_published, Silent, Silent])
     [(order_published, outgoing order_published 0 0)] s" using order_delivers by blast
  note o = ordered_delivery [OF this]
  let ?bs = "concat (map encode (packets_of s 0))"
  have "data (buffer ?bs) = ?bs" by simp
  with o obtain pkts r' where "read_packets maxPacketSize (length pkts) (buffer ?bs) = (Inr pkts, r')" "data r' = []"
    "subseq (map (as_received \<circ> PublishP \<circ> snd) [(order_published, outgoing order_published 0 0)]) pkts"
    by blast
  moreover have "subseq [order_published] (quick_in [SubscribeP order_subscribed, PublishP order_published])"
    using o by (simp add: quick_def zeroHeader_def)
  ultimately show ?thesis by (intro exI [of _ ?bs] exI [of _ pkts] exI [of _ r']) simp
qed

end
