(* ===== verification/BufferPools.thy ===== *)
theory BufferPools
  imports Codec
begin

text \<open>
  The pools of buffers: \<^verbatim>\<open>bodyPool\<close>, in whose buffers every \<^verbatim>\<open>WriteTo\<close> builds its packet
  (\<^verbatim>\<open>packets/mqtt/packets.go\<close>), and \<^verbatim>\<open>bufPool\<close> of the WebSocket socket (\<^verbatim>\<open>transports/ws/socket.go\<close>).
  The rest of the development takes every body to be a fresh one. Here the buffers are objects
  in a store, which writers running side by side take from a pool, fill, hand on and put back,
  and it is shown that nobody can tell the difference. The interface \<open>buffer_pool\<close> is
  what that needs of taking a buffer and of putting it back.
\<close>

section \<open>Buffers in a store\<close>

record pooled_buffer =
  contents :: bytes
  capacity :: nat

text \<open>
  The store, its first free address, the addresses in the pool, and who holds which buffer.
\<close>

record buffers =
  store :: "nat \<Rightarrow> pooled_buffer"
  lim :: nat
  pool :: "nat list"
  held :: "nat \<Rightarrow> nat option"

definition no_buffers :: buffers where
  "no_buffers = \<lparr>store = (\<lambda>_. \<lparr>contents = [], capacity = 0\<rparr>), lim = 0, pool = [], held = (\<lambda>_. None)\<rparr>"

text \<open>
  \<^verbatim>\<open>sync.Pool\<close>: \<^verbatim>\<open>Get\<close> removes any of its buffers, or makes a new one, as it chooses. A
  \<^verbatim>\<open>bytes.Buffer\<close> keeps its array on \<^verbatim>\<open>Reset\<close>, and \<open>grow\<close> is the capacity of the new array when a
  \<^verbatim>\<open>Write\<close> does not fit.
\<close>

definition pool_Get :: "nat option \<Rightarrow> buffers \<Rightarrow> nat \<times> buffers" where
  "pool_Get choice st =
     (let new = (lim st, st\<lparr>lim := Suc (lim st), store := (store st)(lim st := \<lparr>contents = [], capacity = 0\<rparr>)\<rparr>)
      in case choice of
        None \<Rightarrow> new
      | Some k \<Rightarrow> (if k < length (pool st)
          then (pool st ! k, st\<lparr>pool := take k (pool st) @ drop (Suc k) (pool st)\<rparr>) else new))"

definition buf_Reset :: "nat \<Rightarrow> buffers \<Rightarrow> buffers" where
  "buf_Reset a st = st\<lparr>store := (store st)(a := (store st a)\<lparr>contents := []\<rparr>)\<rparr>"

definition buf_Write :: "(nat \<Rightarrow> nat \<Rightarrow> nat) \<Rightarrow> nat \<Rightarrow> bytes \<Rightarrow> buffers \<Rightarrow> buffers" where
  "buf_Write grow a bs st =
     (let b = store st a; n = length (contents b) + length bs
      in st\<lparr>store := (store st)(a :=
        \<lparr>contents = contents b @ bs, capacity = (if n \<le> capacity b then capacity b else grow (capacity b) n)\<rparr>)\<rparr>)"

definition pool_Put :: "nat \<Rightarrow> buffers \<Rightarrow> buffers" where
  "pool_Put a st = st\<lparr>pool := a # pool st\<rparr>"

section \<open>The two pools\<close>

definition newBody_pooled :: "(nat \<Rightarrow> nat \<Rightarrow> nat) \<Rightarrow> nat option \<Rightarrow> buffers \<Rightarrow> nat \<times> buffers" where
  "newBody_pooled grow choice st = (case pool_Get choice st of (buf, st) \<Rightarrow>
     (let st = buf_Reset buf st;
          st = buf_Write grow buf headerPad st
      in (buf, st)))"

definition putBody :: "nat \<Rightarrow> buffers \<Rightarrow> buffers" where
  "putBody buf st = (if capacity (store st buf) > 64 * 1024 then st else pool_Put buf st)"

text \<open>\<^verbatim>\<open>Send\<close> of the WebSocket socket takes a buffer and resets it.\<close>

definition ws_getBuf :: "nat option \<Rightarrow> buffers \<Rightarrow> nat \<times> buffers" where
  "ws_getBuf choice st = (case pool_Get choice st of (buf, st) \<Rightarrow> (buf, buf_Reset buf st))"

definition ws_putBuf :: "nat \<Rightarrow> buffers \<Rightarrow> buffers" where
  "ws_putBuf buf st = (if capacity (store st buf) > 64 * 1024 then st else pool_Put buf st)"

section \<open>Writers side by side\<close>

text \<open>
  What a writer does with its buffer: get one, append, hand the contents on, which may leave
  anything in their place (the header is encoded in place, and a client's frame is masked in
  place), and put it back when it returns. \<open>Collect\<close> is the garbage collector, which may take any
  buffer out of the pool.
\<close>

datatype buf_act = GetBuf "nat option" | Append bytes | HandOn bytes | PutBuf

datatype pool_event = By nat buf_act | Collect nat

definition own :: "nat \<Rightarrow> pool_event list \<Rightarrow> buf_act list" where
  "own u evs = List.map_filter (\<lambda>ev. case ev of By v act \<Rightarrow> if v = u then Some act else None
     | Collect k \<Rightarrow> None) evs"

lemma own_simps [simp]:
  "own u [] = []" "own u (By v act # evs) = (if v = u then act # own u evs else own u evs)"
  "own u (Collect k # evs) = own u evs"
  by (simp_all add: own_def map_filter_simps)

text \<open>One event; a writer that holds no buffer cannot use one, and one that does gets no other.\<close>

fun pool_step :: "(nat option \<Rightarrow> buffers \<Rightarrow> nat \<times> buffers) \<Rightarrow> (nat \<Rightarrow> buffers \<Rightarrow> buffers) \<Rightarrow>
    (nat \<Rightarrow> nat \<Rightarrow> nat) \<Rightarrow> pool_event \<Rightarrow> buffers \<Rightarrow> ((nat \<times> bytes) list \<times> buffers) option" where
  "pool_step get put grow (By u (GetBuf choice)) st = (case held st u of
      Some a \<Rightarrow> None
    | None \<Rightarrow> (case get choice st of (a, st') \<Rightarrow> Some ([], st'\<lparr>held := (held st')(u := Some a)\<rparr>)))"
| "pool_step get put grow (By u (Append bs)) st = (case held st u of
      None \<Rightarrow> None | Some a \<Rightarrow> Some ([], buf_Write grow a bs st))"
| "pool_step get put grow (By u (HandOn left)) st = (case held st u of
      None \<Rightarrow> None
    | Some a \<Rightarrow> Some ([(u, contents (store st a))],
        st\<lparr>store := (store st)(a := (store st a)\<lparr>contents := left\<rparr>)\<rparr>))"
| "pool_step get put grow (By u PutBuf) st = (case held st u of
      None \<Rightarrow> None
    | Some a \<Rightarrow> Some ([], (put a st)\<lparr>held := (held st)(u := None)\<rparr>))"
| "pool_step get put grow (Collect k) st =
     Some ([], st\<lparr>pool := take k (pool st) @ drop (Suc k) (pool st)\<rparr>)"

text \<open>A run, with what was handed on by whom.\<close>

primrec pool_run :: "(nat option \<Rightarrow> buffers \<Rightarrow> nat \<times> buffers) \<Rightarrow> (nat \<Rightarrow> buffers \<Rightarrow> buffers) \<Rightarrow>
    (nat \<Rightarrow> nat \<Rightarrow> nat) \<Rightarrow> pool_event list \<Rightarrow> buffers \<Rightarrow> ((nat \<times> bytes) list \<times> buffers) option" where
  "pool_run get put grow [] st = Some ([], st)"
| "pool_run get put grow (ev # evs) st = (case pool_step get put grow ev st of
      None \<Rightarrow> None
    | Some (out, st') \<Rightarrow> (case pool_run get put grow evs st' of
        None \<Rightarrow> None | Some (outs, st'') \<Rightarrow> Some (out @ outs, st'')))"

lemma pool_run_Cons:
  assumes "pool_run get put grow (ev # evs) st = Some (outs, st')"
  obtains out st1 outs1 where "pool_step get put grow ev st = Some (out, st1)"
    "pool_run get put grow evs st1 = Some (outs1, st')" "outs = out @ outs1"
  using assms by (auto split: option.splits)

definition handed_on :: "nat \<Rightarrow> (nat \<times> bytes) list \<Rightarrow> bytes list" where
  "handed_on u outs = map snd (filter (\<lambda>(v, b). v = u) outs)"

lemma handed_on_simps [simp]:
  "handed_on u [] = []" "handed_on u ((v, b) # outs) = (if v = u then b # handed_on u outs else handed_on u outs)"
  "handed_on u (outs @ outs') = handed_on u outs @ handed_on u outs'"
  by (simp_all add: handed_on_def)

text \<open>The specification: a writer alone, to whom every buffer is a fresh one.\<close>

fun alone_step :: "bytes \<Rightarrow> buf_act \<Rightarrow> bytes option \<Rightarrow> (bytes list \<times> bytes option) option" where
  "alone_step pad (GetBuf choice) None = Some ([], Some pad)"
| "alone_step pad (Append bs) (Some b) = Some ([], Some (b @ bs))"
| "alone_step pad (HandOn left) (Some b) = Some ([b], Some left)"
| "alone_step pad PutBuf (Some b) = Some ([], None)"
| "alone_step pad _ _ = None"

primrec alone_run :: "bytes \<Rightarrow> buf_act list \<Rightarrow> bytes option \<Rightarrow> (bytes list \<times> bytes option) option" where
  "alone_run pad [] b = Some ([], b)"
| "alone_run pad (act # acts) b = (case alone_step pad act b of
      None \<Rightarrow> None
    | Some (out, b') \<Rightarrow> (case alone_run pad acts b' of
        None \<Rightarrow> None | Some (outs, b'') \<Rightarrow> Some (out @ outs, b'')))"

section \<open>Pooling cannot be observed\<close>

text \<open>
  Every buffer has one owner: the pool, or the writer that holds it. What a writer sees is the
  contents of its own.
\<close>

definition buffers_ok :: "buffers \<Rightarrow> bool" where
  "buffers_ok st \<longleftrightarrow> distinct (pool st) \<and>
     (\<forall>a \<in> set (pool st). a < lim st \<and> capacity (store st a) \<le> 64 * 1024) \<and>
     (\<forall>u a. held st u = Some a \<longrightarrow> a < lim st \<and> a \<notin> set (pool st) \<and>
        (\<forall>v. held st v = Some a \<longrightarrow> v = u))"

definition view :: "buffers \<Rightarrow> nat \<Rightarrow> bytes option" where
  "view st u = map_option (\<lambda>a. contents (store st a)) (held st u)"

lemma no_buffers_ok [simp]: "buffers_ok no_buffers" "view no_buffers u = None"
  by (simp_all add: buffers_ok_def no_buffers_def view_def)

lemma buffers_okD:
  assumes "buffers_ok st" and "held st u = Some a"
  shows "a < lim st" "a \<notin> set (pool st)" "held st v = Some a \<Longrightarrow> v = u"
  using assms by (auto simp: buffers_ok_def)

lemma without:
  assumes "distinct xs"
  shows "distinct (take k xs @ drop (Suc k) xs)" and "set (take k xs @ drop (Suc k) xs) \<subseteq> set xs"
    and "k < length xs \<Longrightarrow> xs ! k \<notin> set (take k xs @ drop (Suc k) xs)"
proof -
  have xs: "xs = take k xs @ xs ! k # drop (Suc k) xs" if "k < length xs"
    using that by (rule id_take_nth_drop)
  show "distinct (take k xs @ drop (Suc k) xs)"
  proof (cases "k < length xs")
    case True
    with assms xs have "distinct (take k xs @ xs ! k # drop (Suc k) xs)" by metis
    then show ?thesis by simp
  qed (use assms in simp)
  show "set (take k xs @ drop (Suc k) xs) \<subseteq> set xs"
    by (auto dest: in_set_takeD in_set_dropD)
  assume "k < length xs"
  with assms xs have "distinct (take k xs @ xs ! k # drop (Suc k) xs)" by metis
  then show "xs ! k \<notin> set (take k xs @ drop (Suc k) xs)" by simp
qed

text \<open>A write to one's own buffer.\<close>

lemma own_write:
  assumes "buffers_ok st" and "held st u = Some a"
  shows "buffers_ok (st\<lparr>store := (store st)(a := b)\<rparr>)"
    and "view (st\<lparr>store := (store st)(a := b)\<rparr>) v = (if v = u then Some (contents b) else view st v)"
  using assms buffers_okD(3) [OF assms]
  by (auto simp: buffers_ok_def view_def map_option_case split: option.split)

text \<open>What \<^verbatim>\<open>Get\<close> returns nobody holds.\<close>

lemma pool_Get_fresh:
  assumes "buffers_ok st" and "pool_Get choice st = (a, st1)"
  shows "a < lim st1 \<and> a \<notin> set (pool st1) \<and> (\<forall>v. held st1 v \<noteq> Some a) \<and> held st1 = held st \<and>
    lim st \<le> lim st1 \<and> set (pool st1) \<subseteq> set (pool st) \<and> distinct (pool st1) \<and>
    (\<forall>x. x \<noteq> a \<longrightarrow> store st1 x = store st x)"
proof (cases "\<exists>k. choice = Some k \<and> k < length (pool st)")
  case True
  then obtain k where k: "choice = Some k" "k < length (pool st)" by blast
  then have "pool st ! k \<in> set (pool st)" by simp
  then have "held st v \<noteq> Some (pool st ! k)" for v using buffers_okD(2) [OF assms(1)] by blast
  moreover have "distinct (pool st)" using assms(1) by (simp add: buffers_ok_def)
  ultimately show ?thesis
    using k assms without [of "pool st" k] by (auto simp: pool_Get_def buffers_ok_def Let_def)
next
  case False
  then have "a = lim st" "st1 = st\<lparr>lim := Suc (lim st), store := (store st)(lim st := \<lparr>contents = [], capacity = 0\<rparr>)\<rparr>"
    using assms(2) by (auto simp: pool_Get_def Let_def split: option.splits if_splits)
  with assms(1) show ?thesis by (auto simp: buffers_ok_def)
qed

lemma pool_Get_ok:
  fixes b :: pooled_buffer
  assumes ok: "buffers_ok st" and none: "held st u = None" and get: "pool_Get choice st = (a, st1)"
  shows "buffers_ok (st1\<lparr>store := (store st1)(a := b), held := (held st1)(u := Some a)\<rparr>)"
    and "view (st1\<lparr>store := (store st1)(a := b), held := (held st1)(u := Some a)\<rparr>) v =
      (if v = u then Some (contents b) else view st v)"
proof -
  note a = pool_Get_fresh [OF ok get]
  have st: "store st1 x = store st x" if "held st w = Some x" for w x
    using a that by metis
  have "capacity (store st x) \<le> 64 * 1024 \<and> x < lim st1 \<and> x \<noteq> a" if "x \<in> set (pool st1)" for x
    using a ok that by (metis (no_types, lifting) buffers_ok_def order_less_le_trans subsetD)
  moreover have "x < lim st1 \<and> x \<notin> set (pool st1) \<and> x \<noteq> a \<and> (\<forall>w'. held st w' = Some x \<longrightarrow> w' = w)"
    if "held st w = Some x" for w x
    using a buffers_okD [OF ok that] that by (metis order_less_le_trans subsetD)
  ultimately show "buffers_ok (st1\<lparr>store := (store st1)(a := b), held := (held st1)(u := Some a)\<rparr>)"
    using a none by (auto simp: buffers_ok_def)
  show "view (st1\<lparr>store := (store st1)(a := b), held := (held st1)(u := Some a)\<rparr>) v =
      (if v = u then Some (contents b) else view st v)"
    using a st by (auto simp: view_def map_option_case split: option.split)
qed

section \<open>The interface of a pool\<close>

text \<open>
  What the writers rely on: the buffer they get comes from the pool and holds \<open>pad\<close>, and putting
  one back gives it to the pool, or to nobody, and never a large one to the pool.
\<close>

locale buffer_pool =
  fixes get :: "nat option \<Rightarrow> buffers \<Rightarrow> nat \<times> buffers"
    and put :: "nat \<Rightarrow> buffers \<Rightarrow> buffers"
    and pad :: bytes
  assumes get: "pool_Get choice st = (a, st1) \<Longrightarrow>
      \<exists>b. get choice st = (a, st1\<lparr>store := (store st1)(a := b)\<rparr>) \<and> contents b = pad"
    and put: "put a st = st \<or> put a st = pool_Put a st \<and> capacity (store st a) \<le> 64 * 1024"
begin

text \<open>One step of a writer looks to it as if it were alone, and to the others as nothing.\<close>

lemma step_alone:
  assumes ok: "buffers_ok st" and step: "pool_step get put grow (By u act) st = Some (out, st')"
  shows "buffers_ok st' \<and> alone_step pad act (view st u) = Some (handed_on u out, view st' u) \<and>
    (\<forall>v. v \<noteq> u \<longrightarrow> view st' v = view st v \<and> handed_on v out = [])"
proof (cases "held st u")
  case None
  with step obtain choice where act: "act = GetBuf choice" by (cases act) auto
  obtain a st1 where a: "pool_Get choice st = (a, st1)" by fastforce
  with get obtain b where "get choice st = (a, st1\<lparr>store := (store st1)(a := b)\<rparr>)" "contents b = pad" by blast
  with step act None pool_Get_ok [OF ok None a, of b] show ?thesis by (auto simp: view_def)
next
  case (Some a)
  note mine = own_write [OF ok Some]
  show ?thesis
  proof (cases act)
    case PutBuf
    have "buffers_ok ((put a st)\<lparr>held := (held st)(u := None)\<rparr>)"
      using put [of a st] ok buffers_okD [OF ok] Some
      by (auto simp: buffers_ok_def pool_Put_def)
    moreover have "view ((put a st)\<lparr>held := (held st)(u := None)\<rparr>) v = (if v = u then None else view st v)" for v
      using put [of a st] by (auto simp: view_def pool_Put_def)
    ultimately show ?thesis using step PutBuf Some by (auto simp: view_def [of st u])
  qed (use step Some mine in \<open>auto simp: buf_Write_def Let_def view_def [of st u] split: if_splits\<close>)
qed

lemma collect_unseen:
  assumes ok: "buffers_ok st" and "pool_step get put grow (Collect k) st = Some (out, st')"
  shows "buffers_ok st' \<and> (\<forall>v. view st' v = view st v) \<and> out = []"
proof -
  from assms(2) have st': "out = []" "st' = st\<lparr>pool := take k (pool st) @ drop (Suc k) (pool st)\<rparr>"
    by auto
  have "buffers_ok (st\<lparr>pool := xs\<rparr>)" if "distinct xs" "set xs \<subseteq> set (pool st)" for xs
    using ok that by (auto simp: buffers_ok_def)
  moreover have "distinct (pool st)" using ok by (simp add: buffers_ok_def)
  ultimately have "buffers_ok st'"
    using without(1,2) [of "pool st" k] unfolding st'(2) by blast
  with st' show ?thesis by (simp add: view_def)
qed

text \<open>A whole run, seen by one of the writers.\<close>

lemma run_alone:
  assumes "pool_run get put grow evs st = Some (outs, st')" and "buffers_ok st"
  shows "buffers_ok st' \<and> alone_run pad (own u evs) (view st u) = Some (handed_on u outs, view st' u)"
  using assms
proof (induction evs arbitrary: st outs)
  case (Cons ev evs)
  from Cons.prems(1) obtain out st1 outs1 where s: "pool_step get put grow ev st = Some (out, st1)"
    "pool_run get put grow evs st1 = Some (outs1, st')" "outs = out @ outs1" by (rule pool_run_Cons)
  show ?case
  proof (cases ev)
    case (By v act)
    with step_alone [OF Cons.prems(2)] s(1) Cons.IH [OF s(2)] s(3) show ?thesis
      by (cases "v = u") auto
  next
    case (Collect k)
    with collect_unseen [OF Cons.prems(2)] s(1) Cons.IH [OF s(2)] s(3) show ?thesis by auto
  qed
qed simp

text \<open>Nobody waits for a buffer: what every writer can do alone can be done in any order.\<close>

lemma run_possible:
  assumes "buffers_ok st" and "\<And>u. alone_run pad (own u evs) (view st u) \<noteq> None"
  shows "pool_run get put grow evs st \<noteq> None"
  using assms
proof (induction evs arbitrary: st)
  case (Cons ev evs)
  show ?case
  proof (cases ev)
    case (By v act)
    have "pool_step get put grow ev st \<noteq> None"
      using Cons.prems(2) [of v] By
      by (cases act; cases "held st v") (auto simp: view_def split: prod.splits)
    then obtain out st1 where s: "pool_step get put grow ev st = Some (out, st1)" by auto
    note one = step_alone [OF Cons.prems(1) s [unfolded By]]
    have "alone_run pad (own u evs) (view st1 u) \<noteq> None" for u
      using Cons.prems(2) [of u] one By by (cases "u = v") (auto split: option.splits)
    with Cons.IH [of st1] one s show ?thesis by auto
  next
    case (Collect k)
    then obtain out st1 where s: "pool_step get put grow ev st = Some (out, st1)" by auto
    with collect_unseen [OF Cons.prems(1)] Cons.IH [of st1] Cons.prems(2) Collect show ?thesis by auto
  qed
qed simp

end

interpretation mqtt: buffer_pool "newBody_pooled grow" putBody headerPad
proof
  fix choice st a st1
  assume "pool_Get choice st = (a, st1)"
  then show "\<exists>b. newBody_pooled grow choice st = (a, st1\<lparr>store := (store st1)(a := b)\<rparr>) \<and> contents b = headerPad"
    by (auto simp: newBody_pooled_def buf_Reset_def buf_Write_def Let_def)
qed (auto simp: putBody_def)

interpretation ws_frames: buffer_pool ws_getBuf ws_putBuf "[]"
proof
  fix choice st a st1
  assume "pool_Get choice st = (a, st1)"
  then show "\<exists>b. ws_getBuf choice st = (a, st1\<lparr>store := (store st1)(a := b)\<rparr>) \<and> contents b = []"
    by (auto simp: ws_getBuf_def buf_Reset_def)
qed (auto simp: ws_putBuf_def)

section \<open>Packets written side by side\<close>

text \<open>
  A \<^verbatim>\<open>WriteTo\<close>: it takes a buffer, appends its fields, hands the body to \<^verbatim>\<open>writePacket\<close> and puts it
  back as it returns.
\<close>

definition write_round :: "nat option \<Rightarrow> bytes list \<Rightarrow> bytes \<Rightarrow> buf_act list" where
  "write_round choice parts left = GetBuf choice # map Append parts @ [HandOn left, PutBuf]"

lemma alone_run_append:
  "alone_run pad (acts @ acts') b = (case alone_run pad acts b of
     None \<Rightarrow> None
   | Some (outs, b') \<Rightarrow> (case alone_run pad acts' b' of
       None \<Rightarrow> None | Some (outs', b'') \<Rightarrow> Some (outs @ outs', b'')))"
  by (induction acts arbitrary: b) (auto split: option.splits)

lemma alone_appends:
  "alone_run pad (map Append parts) (Some b) = Some ([], Some (b @ concat parts))"
  by (induction parts arbitrary: b) simp_all

lemma alone_round: "alone_run pad (write_round choice parts left) None = Some ([pad @ concat parts], None)"
  by (simp add: write_round_def alone_run_append alone_appends)

text \<open>The rounds of a writer, one for each of its packets.\<close>

definition writes_packet :: "ControlPacket \<Rightarrow> buf_act list \<Rightarrow> bool" where
  "writes_packet cp acts \<longleftrightarrow> (\<exists>choice parts left. acts = write_round choice parts left \<and>
     concat parts = control_content cp)"

lemma writes_packet_round: "concat parts = control_content cp \<Longrightarrow> writes_packet cp (write_round choice parts left)"
  by (auto simp: writes_packet_def)

lemma alone_rounds:
  assumes "list_all2 writes_packet cps rounds"
  shows "alone_run pad (concat rounds) None = Some (map (\<lambda>cp. pad @ control_content cp) cps, None)"
  using assms
  by (induction rule: list_all2_induct) (auto simp: writes_packet_def alone_run_append alone_round)

lemma writePacket_WriteTo:
  assumes "sendable m cp"
  shows "writePacket w (fixedHeader cp) (headerPad @ control_content cp) = WriteTo cp w"
proof -
  have "int (length (control_content cp)) \<le> MaxRemainingLength" "Qos (fixedHeader cp) \<le> 2"
    using assms header_ok_qos by (auto simp: sendable_def clampLimit_def split: if_splits)
  from writePacket_eq [OF this, of w "[]"] show ?thesis
    by (simp add: WriteTo_encode [OF assms] encode_def frame_def newBody_def)
qed

text \<open>
  C33: pooled buffers. Let any number of writers build packets side by side in the buffers of
  \<^verbatim>\<open>bodyPool\<close>, interleaved in any way, with the pool handing out, making and dropping buffers as it
  likes and every buffer coming back in any state. If a writer writes the packets \<open>cps\<close>, then what
  it hands to \<^verbatim>\<open>writePacket\<close> makes each of them come out as if its body were a fresh buffer, so
  that nothing of another packet gets into it; and no buffer in the pool has more than 64 KiB.
\<close>

theorem pooled_bodies:
  assumes "pool_run (newBody_pooled grow) putBody grow evs no_buffers = Some (outs, st)"
    and "own u evs = concat rounds" and "list_all2 writes_packet cps rounds"
    and "\<forall>cp \<in> set cps. sendable m cp"
  shows "list_all2 (\<lambda>cp body. \<forall>w. writePacket w (fixedHeader cp) body = WriteTo cp w) cps (handed_on u outs) \<and>
    (\<forall>buf \<in> set (pool st). capacity (store st buf) \<le> 64 * 1024)"
proof -
  note alone = mqtt.run_alone [OF assms(1) no_buffers_ok(1), of u]
  have "handed_on u outs = map (\<lambda>cp. headerPad @ control_content cp) cps"
    using alone alone_rounds [OF assms(3)] by (simp add: assms(2))
  moreover have "list_all2 (\<lambda>cp body. \<forall>w. writePacket w (fixedHeader cp) body = WriteTo cp w) cps
      (map (\<lambda>cp. headerPad @ control_content cp) cps)"
    using assms(4) by (auto simp: list_all2_map2 intro!: list_all2_all_nthI writePacket_WriteTo dest: nth_mem)
  ultimately show ?thesis using alone by (simp add: buffers_ok_def)
qed

text \<open>The second packet of writer 1 is built in a buffer that another writer has left dirty.\<close>

definition sample_puback :: "uint16 \<Rightarrow> ControlPacket" where
  "sample_puback i = PubackP \<lparr>puback_FixedHeader = zeroHeader Puback 0, puback_MessageID = i\<rparr>"

lemma sample_puback_sendable: "sendable 0 (sample_puback i)"
  by (simp add: sendable_def sample_puback_def control_wf_def header_ok_def zeroHeader_def
      clampLimit_def MaxRemainingLength_def uint16_bytes_def)

definition sample_events :: "pool_event list" where
  "sample_events =
     [By 1 (GetBuf None), By 2 (GetBuf (Some 0)), By 1 (Append (uint16_bytes 7)), By 2 (Append [1, 2, 3]),
      By 1 (HandOn [9]), By 2 (HandOn [9, 9]), By 1 PutBuf, By 2 PutBuf, Collect 1,
      By 1 (GetBuf (Some 0)), By 1 (Append (uint16_bytes 8)), By 1 (HandOn []), By 1 PutBuf]"

theorem pooled_bodies_witness:
  "\<exists>outs st. pool_run (newBody_pooled (\<lambda>c n. 2 * c + n)) putBody (\<lambda>c n. 2 * c + n) sample_events
       no_buffers = Some (outs, st) \<and>
     list_all2 (\<lambda>cp body. \<forall>w. writePacket w (fixedHeader cp) body = WriteTo cp w)
       [sample_puback 7, sample_puback 8] (handed_on 1 outs)"
proof -
  let ?grow = "\<lambda>c n. 2 * c + n"
  have "alone_run headerPad (own u sample_events) (view no_buffers u) \<noteq> None" for u
    by (cases "u = 1"; cases "u = 2") (simp_all add: sample_events_def)
  then have "pool_run (newBody_pooled ?grow) putBody ?grow sample_events no_buffers \<noteq> None"
    by (rule mqtt.run_possible [OF no_buffers_ok(1)])
  then obtain outs st where "pool_run (newBody_pooled ?grow) putBody ?grow sample_events no_buffers = Some (outs, st)"
    by auto
  moreover have "own 1 sample_events = concat [write_round None [uint16_bytes 7] [9], write_round (Some 0) [uint16_bytes 8] []]"
    by (simp add: sample_events_def write_round_def)
  moreover have "list_all2 writes_packet [sample_puback 7, sample_puback 8]
      [write_round None [uint16_bytes 7] [9], write_round (Some 0) [uint16_bytes 8] []]"
    by (simp add: writes_packet_round sample_puback_def)
  moreover have "\<forall>cp \<in> set [sample_puback 7, sample_puback 8]. sendable 0 cp"
    using sample_puback_sendable by simp
  ultimately show ?thesis
    using pooled_bodies [of ?grow sample_events outs st 1] by blast
qed

text \<open>The same for the frames of the WebSocket sockets, which share \<^verbatim>\<open>bufPool\<close>.\<close>

theorem pooled_frames:
  assumes "pool_run ws_getBuf ws_putBuf grow evs no_buffers = Some (outs, st)"
    and "own u evs = concat (map (\<lambda>(choice, parts, left). write_round choice parts left) rounds)"
  shows "handed_on u outs = map (\<lambda>(choice, parts, left). concat parts) rounds \<and>
    (\<forall>buf \<in> set (pool st). capacity (store st buf) \<le> 64 * 1024)"
proof -
  have "alone_run [] (concat (map (\<lambda>(choice, parts, left). write_round choice parts left) rounds)) None =
      Some (map (\<lambda>(choice, parts, left). concat parts) rounds, None)"
    by (induction rounds) (auto simp: alone_run_append alone_round)
  then show ?thesis
    using ws_frames.run_alone [OF assms(1) no_buffers_ok(1), of u] by (simp add: assms(2) buffers_ok_def)
qed

end
