(* ===== verification/TcpTransport.thy ===== *)
theory TcpTransport
  imports TcpSocket Options
begin

text \<open>
  The TCP transport and listener (\<^verbatim>\<open>transports/tcp/transport.go\<close>, \<^verbatim>\<open>listener.go\<close>). Dialling
  and listening themselves are done by package \<^verbatim>\<open>net\<close> and \<^verbatim>\<open>crypto/tls\<close>: the model says which
  of their functions is called with which arguments and takes the outcome as a parameter.
\<close>

section \<open>The transport\<close>

record transport =
  t_opts :: Options
  t_network :: gostring

definition NewTransport :: "gostring \<Rightarrow> Option list \<Rightarrow> transport" where
  "NewTransport network opts =
     (let options = apply_options opts zeroOptions;
          network = (if network = [] then lit ''tcp'' else network)
      in \<lparr>t_opts = options, t_network = network\<rparr>)"

definition transport_String :: "transport \<Rightarrow> gostring" where
  "transport_String t = t_network t"

definition transport_Options :: "transport \<Rightarrow> Options" where
  "transport_Options t = t_opts t"

datatype dial_call =
    DialWithDialer gostring gostring int "tls_config option"
  | DialTimeout gostring gostring int

definition transport_Dial ::
    "(dial_call \<Rightarrow> error + conn) \<Rightarrow> transport \<Rightarrow> gostring \<Rightarrow> DialOption list \<Rightarrow> error + tcpSocket" where
  "transport_Dial net t addr opts =
     (let dopts = apply_options opts defaultDialOptions
      in andThen
        (if o_Secure (t_opts t) \<or> o_TLSConfig (t_opts t) \<noteq> None
         then net (DialWithDialer (t_network t) addr (d_Timeout dopts) (o_TLSConfig (t_opts t)))
         else net (DialTimeout (t_network t) addr (d_Timeout dopts)))
        (\<lambda>c. Inr (newSocket c (o_Timeout (t_opts t)))))"

datatype listen_call = ListenTLS gostring gostring tls_config | ListenPlain gostring gostring

record 'l listener =
  l_listener :: 'l
  l_timeout :: int

definition transport_Listen ::
    "(listen_call \<Rightarrow> error + 'l) \<Rightarrow> transport \<Rightarrow> gostring \<Rightarrow> error + 'l listener" where
  "transport_Listen net t addr =
     andThen
       (if o_Secure (t_opts t) \<or> o_TLSConfig (t_opts t) \<noteq> None
        then (case o_TLSConfig (t_opts t) of
            None \<Rightarrow> Inl (NewError (lit ''['' @ transport_String t @ lit ''] no tlsConfig''))
          | Some cfg \<Rightarrow> net (ListenTLS (t_network t) addr cfg))
        else net (ListenPlain (t_network t) addr))
       (\<lambda>l. Inr \<lparr>l_listener = l, l_timeout = o_Timeout (t_opts t)\<rparr>)"

section \<open>The accept loop\<close>

text \<open>
  What the calls of the underlying \<^verbatim>\<open>Accept\<close> return, in order, and what the loop does: start a
  handler on a socket, or sleep. Without further results the loop waits (\<open>None\<close>).
\<close>

datatype accept_result = AcceptConn conn | AcceptError error bool

datatype accept_event = Handle tcpSocket | Sleep int

definition nextDelay :: "int \<Rightarrow> int" where
  "nextDelay tempDelay =
     (let d = (if tempDelay = 0 then 5 * millisecond_ns else tempDelay * 2)
      in if d > 1 * second_ns then 1 * second_ns else d)"

fun listener_Accept ::
    "int \<Rightarrow> int \<Rightarrow> accept_result list \<Rightarrow> accept_event list \<times> error option" where
  "listener_Accept timeout tempDelay [] = ([], None)"
| "listener_Accept timeout tempDelay (AcceptConn c # rs) =
     (case listener_Accept timeout 0 rs of (es, e) \<Rightarrow> (Handle (newSocket c timeout) # es, e))"
| "listener_Accept timeout tempDelay (AcceptError err temporary # rs) =
     (if errors_Is err ErrClosed then ([], Some err)
      else if temporary
      then (case listener_Accept timeout (nextDelay tempDelay) rs of (es, e) \<Rightarrow>
        (Sleep (nextDelay tempDelay) # es, e))
      else ([], Some err))"

text \<open>
  The goroutine of a connection: the handler, given as the state it leaves the socket in and
  whether it panics. It owns the socket unless it panics; then the socket is closed.
\<close>

definition accept_handler :: "(tcpSocket \<Rightarrow> bool \<times> tcpSocket) \<Rightarrow> tcpSocket \<Rightarrow> tcpSocket" where
  "accept_handler fn sock = (case fn sock of (panics, sock') \<Rightarrow>
     if panics then snd (tcpSocket_Close sock') else sock')"

text \<open>\<^verbatim>\<open>Addr\<close> and \<^verbatim>\<open>Close\<close> of the listener are those of the underlying one.\<close>

definition listener_Addr :: "('l \<Rightarrow> gostring) \<Rightarrow> 'l listener \<Rightarrow> gostring" where
  "listener_Addr addr l = addr (l_listener l)"

definition listener_Close :: "('l \<Rightarrow> error option) \<Rightarrow> 'l listener \<Rightarrow> error option" where
  "listener_Close close l = close (l_listener l)"

section \<open>Facts\<close>

lemma listener_Accept_Handle:
  "Handle t \<in> set (fst (listener_Accept timeout d rs)) \<Longrightarrow> \<exists>c. AcceptConn c \<in> set rs \<and> t = newSocket c timeout"
  by (induction timeout d rs rule: listener_Accept.induct) (auto split: prod.splits if_splits)

lemma nextDelay_bounds:
  "0 \<le> d \<Longrightarrow> d = 0 \<or> 5 * millisecond_ns \<le> d \<Longrightarrow>
     5 * millisecond_ns \<le> nextDelay d \<and> nextDelay d \<le> second_ns"
  by (auto simp: nextDelay_def Let_def millisecond_ns_def second_ns_def)

text \<open>The delay after \<open>k\<close> earlier failures in a row.\<close>

definition backoff :: "nat \<Rightarrow> int" where
  "backoff k = min second_ns (5 * millisecond_ns * 2 ^ k)"

lemma nextDelay_backoff: "nextDelay (backoff k) = backoff (Suc k)"
proof -
  have "backoff k \<noteq> 0"
    by (simp add: backoff_def min_def second_ns_def millisecond_ns_def)
  then show ?thesis
    by (auto simp: nextDelay_def backoff_def Let_def min_def second_ns_def millisecond_ns_def)
qed

lemma nextDelay_zero: "nextDelay 0 = backoff 0"
  by (simp add: nextDelay_def backoff_def second_ns_def millisecond_ns_def)

text \<open>A row of temporary errors: the loop goes on, with these sleeps.\<close>

lemma Accept_temporary_aux:
  assumes "\<forall>err \<in> set errs. \<not> errors_Is err ErrClosed" and "nextDelay d = backoff k"
  shows "listener_Accept timeout d (map (\<lambda>err. AcceptError err True) errs @ AcceptConn c # rs) =
    (case listener_Accept timeout 0 rs of (es, e) \<Rightarrow>
      (map (\<lambda>j. Sleep (backoff (k + j))) [0..<length errs] @ Handle (newSocket c timeout) # es, e))"
  using assms
proof (induction errs arbitrary: d k)
  case (Cons err errs)
  then have "listener_Accept timeout (nextDelay d)
      (map (\<lambda>err. AcceptError err True) errs @ AcceptConn c # rs) =
    (case listener_Accept timeout 0 rs of (es, e) \<Rightarrow>
      (map (\<lambda>j. Sleep (backoff (Suc k + j))) [0..<length errs] @ Handle (newSocket c timeout) # es, e))"
    by (intro Cons.IH) (simp_all add: nextDelay_backoff)
  moreover have "map (\<lambda>j. Sleep (backoff (k + j))) [0..<length (err # errs)] =
      Sleep (backoff k) # map (\<lambda>j. Sleep (backoff (Suc k + j))) [0..<length errs]"
    by (simp add: upt_conv_Cons map_Suc_upt [symmetric] del: upt_Suc)
  ultimately show ?case
    using Cons.prems by (simp split: prod.splits)
qed (simp split: prod.splits)

lemma Accept_sleeps:
  "0 \<le> d \<Longrightarrow> d = 0 \<or> 5 * millisecond_ns \<le> d \<Longrightarrow> Sleep n \<in> set (fst (listener_Accept timeout d rs)) \<Longrightarrow>
     5 * millisecond_ns \<le> n \<and> n \<le> second_ns"
proof (induction timeout d rs rule: listener_Accept.induct)
  case (3 timeout d err temporary rs)
  have b: "5 * millisecond_ns \<le> nextDelay d \<and> nextDelay d \<le> second_ns"
    using 3 nextDelay_bounds by blast
  then have "0 \<le> nextDelay d" by (simp add: millisecond_ns_def)
  with 3 b show ?case by (auto split: if_splits prod.splits)
qed (auto split: prod.splits)

section \<open>Properties\<close>

text \<open>
  C26: the accept loop survives temporary errors. A row of them makes the loop sleep 5 ms, then
  twice as long each time up to one second, and serve the next connection; no sleep is ever
  outside these bounds.
\<close>

theorem Accept_backoff:
  assumes "\<forall>err \<in> set errs. \<not> errors_Is err ErrClosed"
  shows "listener_Accept timeout 0 (map (\<lambda>err. AcceptError err True) errs @ AcceptConn c # rs) =
      (case listener_Accept timeout 0 rs of (es, e) \<Rightarrow>
        (map (\<lambda>j. Sleep (min second_ns (5 * millisecond_ns * 2 ^ j))) [0..<length errs] @
          Handle (newSocket c timeout) # es, e)) \<and>
    (\<forall>n. Sleep n \<in> set (fst (listener_Accept timeout 0 rs)) \<longrightarrow>
      5 * millisecond_ns \<le> n \<and> n \<le> second_ns)"
  using Accept_temporary_aux [OF assms nextDelay_zero, of timeout c rs] Accept_sleeps [of 0]
  by (simp add: backoff_def)

theorem Accept_backoff_witness:
  "listener_Accept 0 0 [AcceptError EOF True, AcceptError EOF True, AcceptConn sample_conn] =
     ([Sleep 5000000, Sleep 10000000, Handle (newSocket sample_conn 0)], None)"
  using Accept_backoff [of "[EOF, EOF]" 0 sample_conn "[]"]
  by (simp add: second_ns_def millisecond_ns_def min_def upt_rec del: listener_Accept.simps(3))



end
