(* ===== verification/QuicTransport.thy ===== *)
theory QuicTransport
  imports QuicSocket
begin

text \<open>
  The QUIC transport and listener (\<^verbatim>\<open>transports/quic/transport.go\<close>, \<^verbatim>\<open>listener.go\<close>). The
  functions of \<^verbatim>\<open>quic-go\<close> they call are parameters; connections (\<open>'c\<close>), streams (\<open>'st\<close>) and
  listeners (\<open>'l\<close>) are opaque.
\<close>

section \<open>Configurations\<close>

definition DefaultALPN :: gostring where
  "DefaultALPN = lit ''xtransport''"

definition defaultIdleTimeout :: int where
  "defaultIdleTimeout = 2 * minute_ns"

text \<open>Of a \<^verbatim>\<open>quic.Config\<close>, the fields that are set.\<close>

record quic_config =
  MaxIdleTimeout :: int
  KeepAlivePeriod :: int

definition quicConfig :: "int \<Rightarrow> bool \<Rightarrow> quic_config" where
  "quicConfig timeout server =
     (let idle = defaultIdleTimeout;
          idle = (if timeout > idle then timeout else idle);
          cfg = \<lparr>MaxIdleTimeout = idle, KeepAlivePeriod = 0\<rparr>
      in if \<not> server then cfg\<lparr>KeepAlivePeriod := 30 * second_ns\<rparr> else cfg)"

text \<open>A nil configuration is the zero one with the default protocol.\<close>

definition withALPN :: "tls_config option \<Rightarrow> tls_config" where
  "withALPN c = (case c of
      None \<Rightarrow> \<lparr>NextProtos = [DefaultALPN], tls_other = 0\<rparr>
    | Some c \<Rightarrow> if length (NextProtos c) = 0 then c\<lparr>NextProtos := [DefaultALPN]\<rparr> else c)"

section \<open>The transport\<close>

record quicTransport =
  qt_opts :: Options

definition quic_NewTransport :: "Option list \<Rightarrow> quicTransport" where
  "quic_NewTransport opts = \<lparr>qt_opts = apply_options opts zeroOptions\<rparr>"

definition quicTransport_String :: "quicTransport \<Rightarrow> gostring" where
  "quicTransport_String t = lit ''quic''"

definition quicTransport_Options :: "quicTransport \<Rightarrow> Options" where
  "quicTransport_Options t = qt_opts t"

text \<open>
  \<^verbatim>\<open>Dial\<close>, with \<^verbatim>\<open>quic.DialAddr\<close> and \<^verbatim>\<open>OpenStreamSync\<close> as parameters that get the timeout of
  their context. The second component lists the connections it closes again.
\<close>

definition quicTransport_Dial ::
    "(int \<Rightarrow> gostring \<Rightarrow> tls_config \<Rightarrow> quic_config \<Rightarrow> error + 'c) \<Rightarrow> (int \<Rightarrow> 'c \<Rightarrow> error + 'st) \<Rightarrow>
     quicTransport \<Rightarrow> gostring \<Rightarrow> DialOption list \<Rightarrow> (error + ('c, 'st) quicSocket) \<times> 'c list" where
  "quicTransport_Dial dialAddr openStream t addr opts =
     (let dopts = apply_options opts defaultDialOptions;
          tlsConf = withALPN (o_TLSConfig (qt_opts t))
      in case dialAddr (d_Timeout dopts) addr tlsConf (quicConfig (o_Timeout (qt_opts t)) False) of
        Inl err \<Rightarrow> (Inl err, [])
      | Inr c \<Rightarrow>
          (case openStream (d_Timeout dopts) c of
            Inl err \<Rightarrow> (Inl err, [c])
          | Inr stream \<Rightarrow> (Inr (quic_newSocket c stream (o_Timeout (qt_opts t))), [])))"

record 'l quicListener =
  ql_l :: 'l
  ql_timeout :: int
  ql_cancelled :: bool

definition quicTransport_Listen ::
    "(gostring \<Rightarrow> tls_config \<Rightarrow> quic_config \<Rightarrow> error + 'l) \<Rightarrow> quicTransport \<Rightarrow> gostring \<Rightarrow>
     error + 'l quicListener" where
  "quicTransport_Listen listenAddr t addr =
     (if o_TLSConfig (qt_opts t) = None
      then Inl (NewError (lit ''['' @ quicTransport_String t @ lit ''] no tlsConfig''))
      else andThen
        (listenAddr addr (withALPN (o_TLSConfig (qt_opts t))) (quicConfig (o_Timeout (qt_opts t)) True))
        (\<lambda>l. Inr \<lparr>ql_l = l, ql_timeout = o_Timeout (qt_opts t), ql_cancelled = False\<rparr>))"

definition quicListener_Addr :: "('l \<Rightarrow> gostring) \<Rightarrow> 'l quicListener \<Rightarrow> gostring" where
  "quicListener_Addr addr q = addr (ql_l q)"

definition quicListener_Close :: "('l \<Rightarrow> error option) \<Rightarrow> 'l quicListener \<Rightarrow> error option \<times> 'l quicListener" where
  "quicListener_Close close q = (close (ql_l q), q\<lparr>ql_cancelled := True\<rparr>)"

section \<open>The accept loop\<close>

text \<open>
  What becomes of an accepted connection: a handler runs on a socket over its first stream, or
  it is closed because no stream came. The parameter is \<^verbatim>\<open>AcceptStream\<close> with the time it may wait.
\<close>

datatype ('c, 'st) served = Handled "('c, 'st) quicSocket" | Dropped 'c

definition serve_conn :: "(int \<Rightarrow> 'c \<Rightarrow> error + 'st) \<Rightarrow> int \<Rightarrow> 'c \<Rightarrow> ('c, 'st) served" where
  "serve_conn acceptStream timeout c =
     (let wait = timeout;
          wait = (if wait \<le> 0 then minute_ns else wait)
      in case acceptStream wait c of
        Inl err \<Rightarrow> Dropped c
      | Inr stream \<Rightarrow> Handled (quic_newSocket c stream timeout))"

text \<open>The goroutine's handler owns the socket unless it panics; then the socket is closed.\<close>

definition quic_handler ::
    "'st stream_ops \<Rightarrow> int \<Rightarrow> (('c, 'st) quicSocket \<Rightarrow> bool \<times> ('c, 'st) quicSocket) \<Rightarrow>
     ('c, 'st) quicSocket \<Rightarrow> ('c, 'st) quicSocket" where
  "quic_handler q now fn sock = (case fn sock of (panics, sock') \<Rightarrow>
     if panics then snd (quicSocket_Close q now sock') else sock')"

text \<open>The results of the listener's \<^verbatim>\<open>Accept\<close>, in order; without further ones the loop waits.\<close>

fun quicListener_Accept ::
    "(int \<Rightarrow> 'c \<Rightarrow> error + 'st) \<Rightarrow> int \<Rightarrow> (error + 'c) list \<Rightarrow> ('c, 'st) served list \<times> error option" where
  "quicListener_Accept acceptStream timeout [] = ([], None)"
| "quicListener_Accept acceptStream timeout (Inl err # rs) = ([], Some err)"
| "quicListener_Accept acceptStream timeout (Inr c # rs) =
     (case quicListener_Accept acceptStream timeout rs of (evs, err) \<Rightarrow>
        (serve_conn acceptStream timeout c # evs, err))"

section \<open>Facts\<close>

fun served_conn :: "('c, 'st) served \<Rightarrow> 'c" where
  "served_conn (Handled t) = q_conn t"
| "served_conn (Dropped c) = c"

lemma quicListener_Accept_Handled:
  "Handled t \<in> set (fst (quicListener_Accept acceptStream timeout rs)) \<Longrightarrow>
    \<exists>c stream. Inr c \<in> set rs \<and> t = quic_newSocket c stream timeout"
  by (induction acceptStream timeout rs rule: quicListener_Accept.induct)
    (auto simp: serve_conn_def Let_def split: prod.splits sum.splits if_splits)

lemma served_conn_serve_conn [simp]: "served_conn (serve_conn acceptStream timeout c) = c"
  by (simp add: serve_conn_def Let_def quic_newSocket_def split: sum.split)

lemma quicListener_Accept_eq:
  "quicListener_Accept acceptStream timeout (map Inr cs @ Inl err # rs) =
     (map (serve_conn acceptStream timeout) cs, Some err)"
  by (induction cs) simp_all

lemma withALPN_simps:
  "NextProtos (withALPN c) \<noteq> []" "withALPN (Some (withALPN c)) = withALPN c"
  "NextProtos c' \<noteq> [] \<Longrightarrow> withALPN (Some c') = c'" "tls_other (withALPN (Some c')) = tls_other c'"
  by (auto simp: withALPN_def split: option.split)

lemma withALPN_rest: "withALPN (Some c) = c\<lparr>NextProtos := NextProtos (withALPN (Some c))\<rparr>"
  by (simp add: withALPN_def)

section \<open>Properties\<close>

text \<open>
  C37: configurations over QUIC. If a listener starts, then it and every dialler built from the
  same options use the same TLS configuration, which names a protocol and differs from the one
  given at most in that, and the same idle timeout, at least two minutes and at least the
  timeout of the options; only the dialler sends keep-alives, more often than the idle timeout.
  Without a TLS configuration no listener starts.
\<close>

theorem quic_agreement:
  assumes "quicTransport_Listen listenAddr (quic_NewTransport opts) laddr = Inr l"
  shows "\<exists>given cfg idle keep l'. o_TLSConfig (apply_options opts zeroOptions) = Some given \<and>
    listenAddr laddr cfg \<lparr>MaxIdleTimeout = idle, KeepAlivePeriod = 0\<rparr> = Inr l' \<and> ql_l l = l' \<and>
    NextProtos cfg \<noteq> [] \<and> cfg = given\<lparr>NextProtos := NextProtos cfg\<rparr> \<and>
    (NextProtos given \<noteq> [] \<longrightarrow> cfg = given) \<and>
    idle \<ge> 2 * minute_ns \<and> idle \<ge> o_Timeout (apply_options opts zeroOptions) \<and>
    0 < keep \<and> keep < idle \<and>
    (\<forall>dialAddr openStream addr dopts. \<exists>d.
      quicTransport_Dial dialAddr openStream (quic_NewTransport opts) addr dopts =
        (case dialAddr d addr cfg \<lparr>MaxIdleTimeout = idle, KeepAlivePeriod = keep\<rparr> of
           Inl err \<Rightarrow> (Inl err, [])
         | Inr c \<Rightarrow> (case openStream d c of
             Inl err \<Rightarrow> (Inl err, [c])
           | Inr st \<Rightarrow> (Inr (quic_newSocket c st (o_Timeout (apply_options opts zeroOptions))), []))))"
proof -
  let ?o = "apply_options opts zeroOptions"
  let ?idle = "max (2 * minute_ns) (o_Timeout ?o)"
  have cfg: "quicConfig (o_Timeout ?o) True = \<lparr>MaxIdleTimeout = ?idle, KeepAlivePeriod = 0\<rparr>"
    "quicConfig (o_Timeout ?o) False = \<lparr>MaxIdleTimeout = ?idle, KeepAlivePeriod = 30 * second_ns\<rparr>"
    by (auto simp: quicConfig_def defaultIdleTimeout_def Let_def)
  from assms obtain given l' where given: "o_TLSConfig ?o = Some given"
    and l: "listenAddr laddr (withALPN (Some given)) \<lparr>MaxIdleTimeout = ?idle, KeepAlivePeriod = 0\<rparr> = Inr l'"
    "ql_l l = l'"
    by (auto simp: quicTransport_Listen_def quic_NewTransport_def cfg andThen_Inr_conv split: if_splits)
  have keep: "0 < 30 * second_ns" "30 * second_ns < ?idle"
    by (simp_all add: minute_ns_def second_ns_def)
  have dial: "\<exists>d. quicTransport_Dial dialAddr openStream (quic_NewTransport opts) addr dopts =
      (case dialAddr d addr (withALPN (Some given))
          \<lparr>MaxIdleTimeout = ?idle, KeepAlivePeriod = 30 * second_ns\<rparr> of
         Inl err \<Rightarrow> (Inl err, [])
       | Inr c \<Rightarrow> (case openStream d c of
           Inl err \<Rightarrow> (Inl err, [c])
         | Inr st \<Rightarrow> (Inr (quic_newSocket c st (o_Timeout ?o)), [])))" for dialAddr openStream addr dopts
    by (intro exI [of _ "d_Timeout (apply_options dopts defaultDialOptions)"])
      (simp add: quicTransport_Dial_def quic_NewTransport_def given cfg Let_def cong: sum.case_cong)
  show ?thesis
    by (intro exI [of _ given] exI [of _ "withALPN (Some given)"] exI [of _ ?idle]
        exI [of _ "30 * second_ns"] exI [of _ l'] conjI allI impI given l keep dial withALPN_rest
        withALPN_simps(1)) (simp_all add: withALPN_simps)
qed

theorem quic_agreement_witness:
  "\<exists>(cfg :: tls_config) idle d. NextProtos cfg \<noteq> [] \<and> 2 * minute_ns \<le> idle \<and>
     quicTransport_Dial (\<lambda>_ _ _ _. Inr (3 :: nat)) (\<lambda>_ _. Inr (4 :: nat))
       (quic_NewTransport [TLSConfig (Some sample_tls)]) [] [] = (Inr (quic_newSocket 3 4 d), [])"
proof -
  have "quicTransport_Listen (\<lambda>_ _ _. Inr ()) (quic_NewTransport [TLSConfig (Some sample_tls)]) [] =
      Inr \<lparr>ql_l = (), ql_timeout = 0, ql_cancelled = False\<rparr>"
    by (simp add: quicTransport_Listen_def quic_NewTransport_def zeroOptions_def TLSConfig_def)
  from quic_agreement [OF this] obtain cfg idle keep where
    c: "NextProtos cfg \<noteq> []" "2 * minute_ns \<le> idle" and
    dial: "\<And>dialAddr openStream addr dopts. \<exists>d. quicTransport_Dial dialAddr openStream
        (quic_NewTransport [TLSConfig (Some sample_tls)]) addr dopts =
      (case dialAddr d addr cfg \<lparr>MaxIdleTimeout = idle, KeepAlivePeriod = keep\<rparr> of
         Inl err \<Rightarrow> (Inl err, [])
       | Inr c \<Rightarrow> (case openStream d c of
           Inl err \<Rightarrow> (Inl err, [c])
         | Inr st \<Rightarrow> (Inr (quic_newSocket (c :: nat) (st :: nat) (o_Timeout
             (apply_options [TLSConfig (Some sample_tls)] zeroOptions))), [])))"
    by blast
  from dial [of "\<lambda>_ _ _ _. Inr 3" "\<lambda>_ _. Inr 4" "[]" "[]"] c show ?thesis by auto
qed

text \<open>
  C29: no connection is lost over QUIC. A dial that fails has closed the connection it opened, if
  any, and one that succeeds returns a socket on it. Every connection a listener accepts before
  its \<^verbatim>\<open>Accept\<close> fails is either handled, on a socket of its own, or closed because no stream
  came within the timeout (a minute if there is none); none holds up another.
\<close>

theorem quic_connections:
  "(case quicTransport_Dial dialAddr openStream t addr opts of
      (Inr sock, closed) \<Rightarrow> closed = [] \<and> (\<exists>d cfg k. dialAddr d addr cfg k = Inr (q_conn sock))
    | (Inl err, closed) \<Rightarrow> (\<exists>d cfg k. dialAddr d addr cfg k = Inl err \<and> closed = [] \<or>
        (\<exists>c. dialAddr d addr cfg k = Inr c \<and> openStream d c = Inl err \<and> closed = [c]))) \<and>
   (case quicListener_Accept acceptStream timeout (map Inr cs @ Inl e # rs) of
      (evs, res) \<Rightarrow> res = Some e \<and> map served_conn evs = cs \<and>
        evs = map (\<lambda>c. case acceptStream (if timeout > 0 then timeout else minute_ns) c of
            Inl _ \<Rightarrow> Dropped c
          | Inr st \<Rightarrow> Handled (quic_newSocket c st timeout)) cs)"
proof -
  have "case quicTransport_Dial dialAddr openStream t addr opts of
      (Inr sock, closed) \<Rightarrow> closed = [] \<and> (\<exists>d cfg k. dialAddr d addr cfg k = Inr (q_conn sock))
    | (Inl err, closed) \<Rightarrow> (\<exists>d cfg k. dialAddr d addr cfg k = Inl err \<and> closed = [] \<or>
        (\<exists>c. dialAddr d addr cfg k = Inr c \<and> openStream d c = Inl err \<and> closed = [c]))"
    by (auto simp: quicTransport_Dial_def Let_def quic_newSocket_def split: sum.split)
  moreover have "serve_conn acceptStream timeout =
      (\<lambda>c. case acceptStream (if timeout > 0 then timeout else minute_ns) c of
         Inl _ \<Rightarrow> Dropped c | Inr st \<Rightarrow> Handled (quic_newSocket c st timeout))"
    by (simp add: serve_conn_def Let_def fun_eq_iff not_less [symmetric])
  moreover have "map served_conn (map (serve_conn acceptStream timeout) cs) = cs"
    by (simp add: comp_def)
  ultimately show ?thesis
    by (simp add: quicListener_Accept_eq)
qed

end
