(* ===== verification/WsTransport.thy ===== *)
theory WsTransport
  imports WsSocket
begin

text \<open>
  The WebSocket transport and listener (\<^verbatim>\<open>transports/ws/transport.go\<close>, \<^verbatim>\<open>listener.go\<close>). The
  dialler and the upgrader of \<^verbatim>\<open>gobwas/ws\<close> are parameters, as are listening, TLS wrapping and
  serving HTTP, which package \<^verbatim>\<open>net\<close>, \<^verbatim>\<open>crypto/tls\<close> and \<^verbatim>\<open>net/http\<close> do.
\<close>

section \<open>Subprotocols\<close>

definition SessionKeySubprotocol :: gostring where
  "SessionKeySubprotocol = lit ''ws:subprotocol''"

definition Subprotocols :: "gostring list \<Rightarrow> Option" where
  "Subprotocols protos opt =
     (let ctx = (case o_Context opt of None \<Rightarrow> context_Background | Some ctx \<Rightarrow> ctx)
      in opt\<lparr>o_Context := Some (context_WithValue ctx subprotocolsKey (StringSlice protos))\<rparr>)"

record wsTransport =
  wt_opts :: Options
  wt_pattern :: gostring

definition wsTransport_subprotocols :: "wsTransport \<Rightarrow> gostring list" where
  "wsTransport_subprotocols t = (case o_Context (wt_opts t) of
      None \<Rightarrow> []
    | Some ctx \<Rightarrow> (case context_Value ctx subprotocolsKey of
        Some (StringSlice protos) \<Rightarrow> protos
      | _ \<Rightarrow> []))"

section \<open>The transport\<close>

definition ws_NewTransport :: "gostring \<Rightarrow> Option list \<Rightarrow> wsTransport" where
  "ws_NewTransport pattern opts =
     (let options = apply_options opts zeroOptions;
          pattern = (if pattern = [] then lit ''/'' else pattern)
      in \<lparr>wt_opts = options, wt_pattern = pattern\<rparr>)"

definition wsTransport_String :: "wsTransport \<Rightarrow> gostring" where
  "wsTransport_String t =
     (if o_Secure (wt_opts t) \<or> o_TLSConfig (wt_opts t) \<noteq> None then lit ''wss'' else lit ''ws'')"

definition wsTransport_Options :: "wsTransport \<Rightarrow> Options" where
  "wsTransport_Options t = wt_opts t"

text \<open>\<^verbatim>\<open>strings.Contains\<close>.\<close>

fun Contains :: "gostring \<Rightarrow> gostring \<Rightarrow> bool" where
  "Contains [] p = (p = [])"
| "Contains (x # s) p = (take (length p) (x # s) = p \<or> Contains s p)"

definition wsTransport_url :: "wsTransport \<Rightarrow> gostring \<Rightarrow> gostring" where
  "wsTransport_url t addr =
     (if \<not> Contains addr (lit ''://'')
      then (let scheme = lit ''ws'';
                scheme = (if o_Secure (wt_opts t) \<or> o_TLSConfig (wt_opts t) \<noteq> None
                          then lit ''wss'' else scheme)
            in scheme @ lit ''://'' @ addr @ wt_pattern t)
      else addr)"

record ws_dialer =
  wd_Timeout :: int
  wd_TLSConfig :: "tls_config option"
  wd_Protocols :: "gostring list"

text \<open>The bytes left in a buffered reader after the handshake; \<open>None\<close> for a nil reader.\<close>

definition handshake_extra :: "bytes option \<Rightarrow> bytes option" where
  "handshake_extra br = (case br of
      None \<Rightarrow> None
    | Some buffered \<Rightarrow> if length buffered > 0 then Some (take (length buffered) buffered) else None)"

definition wsTransport_Dial ::
    "int \<Rightarrow> (ws_dialer \<Rightarrow> gostring \<Rightarrow> error + conn \<times> bytes option) \<Rightarrow> wsTransport \<Rightarrow> gostring \<Rightarrow>
     DialOption list \<Rightarrow> error + wsSocket" where
  "wsTransport_Dial now dial t addr opts =
     (let dopts = apply_options opts defaultDialOptions;
          dialer = \<lparr>wd_Timeout = d_Timeout dopts, wd_TLSConfig = o_TLSConfig (wt_opts t),
            wd_Protocols = wsTransport_subprotocols t\<rparr>
      in andThen (dial dialer (wsTransport_url t addr)) (\<lambda>(c, br).
           Inr (ws_newSocket now c (handshake_extra br) (o_Timeout (wt_opts t)) True)))"

section \<open>The listener\<close>

record 'l wsListener =
  wl_ln :: 'l
  wl_timeout :: int
  wl_protocols :: "gostring list"
  wl_pattern :: gostring
  wl_serving :: bool

text \<open>\<^verbatim>\<open>Listen\<close>; the second component lists the listeners it closes again.\<close>

definition wsTransport_Listen ::
    "(gostring \<Rightarrow> error + 'l) \<Rightarrow> ('l \<Rightarrow> tls_config \<Rightarrow> 'l) \<Rightarrow> wsTransport \<Rightarrow> gostring \<Rightarrow>
     (error + 'l wsListener) \<times> 'l list" where
  "wsTransport_Listen listen newTLS t addr = (case listen addr of
      Inl err \<Rightarrow> (Inl err, [])
    | Inr ln \<Rightarrow>
        (let listener = (\<lambda>ln. \<lparr>wl_ln = ln, wl_timeout = o_Timeout (wt_opts t),
               wl_protocols = wsTransport_subprotocols t, wl_pattern = wt_pattern t, wl_serving = False\<rparr>)
         in if o_Secure (wt_opts t) \<or> o_TLSConfig (wt_opts t) \<noteq> None
            then (case o_TLSConfig (wt_opts t) of
                None \<Rightarrow> (Inl (NewError (lit ''[ws] no tlsConfig'')), [ln])
              | Some cfg \<Rightarrow> (Inr (listener (newTLS ln cfg)), []))
            else (Inr (listener ln), [])))"

definition wsListener_Addr :: "('l \<Rightarrow> gostring) \<Rightarrow> 'l wsListener \<Rightarrow> gostring" where
  "wsListener_Addr addr l = addr (wl_ln l)"

text \<open>\<^verbatim>\<open>Close\<close>, given the results of closing the server and the listener.\<close>

definition wsListener_Close :: "error option \<Rightarrow> error option \<Rightarrow> error option" where
  "wsListener_Close serverErr lnErr = (case lnErr of
      Some cerr \<Rightarrow> if \<not> errors_Is cerr ErrClosed \<and> serverErr = None then Some cerr else serverErr
    | None \<Rightarrow> serverErr)"

text \<open>\<^verbatim>\<open>Accept\<close> stores the handler and serves.\<close>

definition wsListener_Accept :: "('l \<Rightarrow> error) \<Rightarrow> 'l wsListener \<Rightarrow> error \<times> 'l wsListener" where
  "wsListener_Accept serve l = (serve (wl_ln l), l\<lparr>wl_serving := True\<rparr>)"

fun accepts_protocol :: "gostring list \<Rightarrow> gostring \<Rightarrow> bool" where
  "accepts_protocol [] p = False"
| "accepts_protocol (a # protocols) p = (if p = a then True else accepts_protocol protocols p)"

text \<open>
  What becomes of a request: refused because nobody accepts yet, failed (with the hijacked
  connection, if any, closed), or served on a socket. The upgrader gets the selection function,
  if any, and returns an error with or without a connection, or the connection, the buffered
  reader and the negotiated protocol.
\<close>

datatype served_request = Unavailable | UpgradeFailed "conn option" | Served wsSocket

definition wsListener_serveWS ::
    "int \<Rightarrow> ((gostring \<Rightarrow> bool) option \<Rightarrow> error \<times> conn option + conn \<times> bytes option \<times> gostring) \<Rightarrow>
     'l wsListener \<Rightarrow> served_request" where
  "wsListener_serveWS now upgrade l =
     (if \<not> wl_serving l then Unavailable
      else (let protocol = (if length (wl_protocols l) > 0 then Some (accepts_protocol (wl_protocols l)) else None)
            in case upgrade protocol of
              Inl (err, c) \<Rightarrow> UpgradeFailed (map_option (\<lambda>c. c\<lparr>connOpen := False\<rparr>) c)
            | Inr (c, rw, hs) \<Rightarrow>
                (let sock = ws_newSocket now c (handshake_extra rw) (wl_timeout l) False
                 in Served (sock\<lparr>w_session := Set SessionKeySubprotocol (StringVal hs) (w_session sock)\<rparr>))))"

text \<open>The handler owns the socket unless it panics; then the socket is closed.\<close>

definition ws_handler :: "(wsSocket \<Rightarrow> bool \<times> wsSocket) \<Rightarrow> wsSocket \<Rightarrow> wsSocket" where
  "ws_handler fn sock = (case fn sock of (panics, sock') \<Rightarrow>
     if panics then snd (wsSocket_Close sock') else sock')"

section \<open>Facts\<close>

lemma accepts_protocol_iff: "accepts_protocol protocols p \<longleftrightarrow> p \<in> set protocols"
  by (induction protocols) simp_all

lemma subprotocols_last:
  "wsTransport_subprotocols (ws_NewTransport pattern (opts @ [Subprotocols protos])) = protos"
  by (simp add: wsTransport_subprotocols_def ws_NewTransport_def apply_options_append Subprotocols_def
      context_WithValue_def context_Value_def Let_def)

lemma data_handshake_extra:
  "data (w_src (ws_newSocket now c (handshake_extra br) timeout client)) =
     (case br of None \<Rightarrow> [] | Some bs \<Rightarrow> bs) @ data (incoming c)"
  by (auto simp: ws_newSocket_def handshake_extra_def wsSocket_armReadDeadline_def data_def Let_def
      split: option.split)

text \<open>The scheme of a dialled address and TLS at the listener go together, as \<^verbatim>\<open>String\<close> says.\<close>

lemma ws_tls_agreement:
  assumes "wsTransport_Listen listen newTLS t laddr = (Inr l, closed)"
  shows "\<exists>ln. listen laddr = Inr ln \<and> closed = [] \<and>
    (if wsTransport_String t = lit ''wss''
     then (\<exists>cfg. o_TLSConfig (wt_opts t) = Some cfg \<and> wl_ln l = newTLS ln cfg) else wl_ln l = ln) \<and>
    (\<not> Contains addr (lit ''://'') \<longrightarrow>
       wsTransport_url t addr = wsTransport_String t @ lit ''://'' @ addr @ wt_pattern t)"
  using assms
  by (auto simp: wsTransport_Listen_def wsTransport_String_def wsTransport_url_def Let_def lit_def
      split: sum.splits option.splits if_splits)

section \<open>Properties\<close>

text \<open>
  C40: the handshake over WebSocket. A listener built with \<^verbatim>\<open>Subprotocols\<close> and serving, whose
  upgrader selects the first protocol offered that its selection function accepts, records in the
  session of the socket the first offered protocol that was configured, or the empty string if
  there is none; the bytes the client sent right behind the handshake come first in what the
  frame reader reads, and none is lost; and the socket writes unmasked frames.
\<close>

theorem ws_upgrade:
  assumes "wsTransport_Listen listen newTLS (ws_NewTransport pattern (opts @ [Subprotocols protos])) laddr =
      (Inr l, closed)" and "protos \<noteq> []"
    and "\<And>sel. upgrade (Some sel) =
      Inr (c, br, case find sel offered of None \<Rightarrow> [] | Some p \<Rightarrow> p)"
    and "wsListener_serveWS now upgrade (snd (wsListener_Accept serve l)) = Served sock"
  shows "GetString SessionKeySubprotocol (w_session sock) =
      (case find (\<lambda>p. p \<in> set protos) offered of None \<Rightarrow> [] | Some p \<Rightarrow> p) \<and>
    data (w_src sock) = (case br of None \<Rightarrow> [] | Some bs \<Rightarrow> bs) @ data (incoming c) \<and> \<not> w_client sock"
proof -
  have "wl_protocols l = protos"
    using assms(1) subprotocols_last [of pattern opts protos]
    by (auto simp: wsTransport_Listen_def Let_def split: sum.splits option.splits if_splits)
  then have sock: "sock = (ws_newSocket now c (handshake_extra br) (wl_timeout l) False)
      \<lparr>w_session := Set SessionKeySubprotocol
        (StringVal (case find (\<lambda>p. p \<in> set protos) offered of None \<Rightarrow> [] | Some p \<Rightarrow> p))
        (w_session (ws_newSocket now c (handshake_extra br) (wl_timeout l) False))\<rparr>"
    using assms(2-4)
    by (simp add: wsListener_serveWS_def wsListener_Accept_def accepts_protocol_iff [abs_def] Let_def)
  show ?thesis
    using data_handshake_extra [of now c br "wl_timeout l" False]
    by (simp add: sock GetString_def typed_Set) (simp add: ws_newSocket_def Let_def)
qed

definition sample_upgrade ::
    "(gostring \<Rightarrow> bool) option \<Rightarrow> error \<times> conn option + conn \<times> bytes option \<times> gostring" where
  "sample_upgrade sel = Inr (sample_ws_conn [], Some [1, 2], case sel of
      None \<Rightarrow> []
    | Some f \<Rightarrow> (case find f [lit ''x'', lit ''mqtt''] of None \<Rightarrow> [] | Some p \<Rightarrow> p))"

theorem ws_upgrade_witness:
  "\<exists>sock :: wsSocket. GetString SessionKeySubprotocol (w_session sock) = lit ''mqtt'' \<and> data (w_src sock) = [1, 2]"
proof -
  let ?t = "ws_NewTransport [] ([] @ [Subprotocols [lit ''mqtt'']])"
  let ?l = "\<lparr>wl_ln = (), wl_timeout = 0, wl_protocols = wsTransport_subprotocols ?t,
    wl_pattern = lit ''/'', wl_serving = False\<rparr>"
  have l: "wsTransport_Listen (\<lambda>_. Inr ()) (\<lambda>l _. l) ?t [] = (Inr ?l, [])"
    by (simp add: wsTransport_Listen_def ws_NewTransport_def Subprotocols_def zeroOptions_def Let_def)
  obtain sock where s: "wsListener_serveWS 0 sample_upgrade (snd (wsListener_Accept (\<lambda>_. EOF) ?l)) = Served sock"
    by (simp add: wsListener_serveWS_def wsListener_Accept_def sample_upgrade_def Let_def)
  have "GetString SessionKeySubprotocol (w_session sock) = (case find (\<lambda>p. p \<in> set [lit ''mqtt''])
        [lit ''x'', lit ''mqtt''] of None \<Rightarrow> [] | Some p \<Rightarrow> p) \<and>
      data (w_src sock) = (case Some [1, 2] of None \<Rightarrow> [] | Some bs \<Rightarrow> bs) @
        data (incoming (sample_ws_conn [])) \<and> \<not> w_client sock"
    by (rule ws_upgrade [OF l _ _ s]) (simp_all add: sample_upgrade_def)
  then have "GetString SessionKeySubprotocol (w_session sock) = lit ''mqtt'' \<and> data (w_src sock) = [1, 2]"
    by (simp add: lit_def sample_ws_conn_def)
  then show ?thesis by blast
qed

end
