(* ===== verification/Transports.thy ===== *)
theory Transports
  imports TcpTransport QuicTransport WsTransport
begin

text \<open>
  The interfaces \<^verbatim>\<open>Transport\<close> and \<^verbatim>\<open>Listener\<close> (\<^verbatim>\<open>transport.go\<close>, \<^verbatim>\<open>listener.go\<close>) as records of their
  methods, which take the value behind the interface as first argument, and what a program that is
  given some transport can rely on: the locale \<open>transport_interface\<close>, which the three transports keep.
\<close>

section \<open>The interfaces\<close>

record ListenOptions =
  lo_Context :: "go_context option"

type_synonym ListenOption = "ListenOptions \<Rightarrow> ListenOptions"

text \<open>
  The handler that \<^verbatim>\<open>Accept\<close> is given is a function from a socket to whether it panics and the socket it
  leaves. \<^verbatim>\<open>Accept\<close> yields the sockets of the connections it has accepted, after their handlers,
  and the error it returns, if it does.
\<close>

record ('l, 's) Listener =
  ls_Addr :: "'l \<Rightarrow> gostring"
  ls_Close :: "'l \<Rightarrow> error option \<times> 'l"
  ls_Accept :: "('s \<Rightarrow> bool \<times> 's) \<Rightarrow> 'l \<Rightarrow> ('s list \<times> error option) \<times> 'l"

record ('t, 'l, 's) Transport =
  tr_Options :: "'t \<Rightarrow> Options"
  tr_Dial :: "'t \<Rightarrow> gostring \<Rightarrow> DialOption list \<Rightarrow> error + 's"
  tr_Listen :: "'t \<Rightarrow> gostring \<Rightarrow> ListenOption list \<Rightarrow> error + 'l"
  tr_String :: "'t \<Rightarrow> gostring"

text \<open>
  A new transport has the options it is given; the timeout among them is that of every socket it
  dials or accepts; \<^verbatim>\<open>Listen\<close> is never in plaintext where TLS was asked for; and a handler owns its
  socket unless it panics, in which case the listener has closed it.
\<close>

locale transport_interface =
  fixes new :: "Option list \<Rightarrow> 't"
    and T :: "('t, 'l, 's) Transport"
    and L :: "('l, 's) Listener"
    and timeout :: "'s \<Rightarrow> int"
    and session :: "'s \<Rightarrow> Context"
    and is_closed :: "'s \<Rightarrow> bool"
  assumes options: "tr_Options T (new opts) = apply_options opts zeroOptions"
    and dialled: "tr_Dial T t addr dopts = Inr s \<Longrightarrow>
      timeout s = o_Timeout (tr_Options T t) \<and> session s = NewSession \<and> \<not> is_closed s"
    and no_plaintext: "o_Secure (tr_Options T t) \<Longrightarrow> o_TLSConfig (tr_Options T t) = None \<Longrightarrow>
      tr_Listen T t addr lopts \<noteq> Inr l"
    and accepted_socket: "tr_Listen T t addr lopts = Inr l \<Longrightarrow> ls_Accept L fn l = ((ss, err), l') \<Longrightarrow>
      s \<in> set ss \<Longrightarrow> \<exists>s0. timeout s0 = o_Timeout (tr_Options T t) \<and> \<not> is_closed s0 \<and>
        (fst (fn s0) \<longrightarrow> is_closed s) \<and> (\<not> fst (fn s0) \<longrightarrow> s = snd (fn s0))"
begin

text \<open>Of several timeouts the last one counts, on both ends.\<close>

lemma last_timeout:
  assumes "tr_Dial T (new (opts @ [Timeout d])) addr dopts = Inr s"
  shows "timeout s = d"
  using dialled [OF assms] by (simp add: options apply_options_append Timeout_def)

lemma ends_agree:
  assumes "tr_Dial T (new opts) addr dopts = Inr s"
    and "tr_Listen T (new opts') addr' lopts = Inr l" and "ls_Accept L fn l = ((ss, err), l')"
    and "o_Timeout (apply_options opts zeroOptions) = o_Timeout (apply_options opts' zeroOptions)"
    and "\<And>s. \<not> fst (fn s) \<and> timeout (snd (fn s)) = timeout s"
  shows "\<forall>s' \<in> set ss. timeout s' = timeout s"
  using dialled [OF assms(1)] accepted_socket [OF assms(2,3)] assms(4,5) by (fastforce simp: options)

lemma secure_listener:
  assumes "tr_Listen T (new opts) addr lopts = Inr l" and "o_Secure (apply_options opts zeroOptions)"
  shows "o_TLSConfig (apply_options opts zeroOptions) \<noteq> None"
  using no_plaintext [of "new opts"] assms by (auto simp: options)

lemma panicking_handler:
  assumes "tr_Listen T t addr lopts = Inr l" and "ls_Accept L fn l = ((ss, err), l')" and "\<And>s. fst (fn s)"
  shows "\<forall>s \<in> set ss. is_closed s"
  using accepted_socket [OF assms(1,2)] assms(3) by blast

end

section \<open>The three transports\<close>

definition tcp_Transport ::
    "(dial_call \<Rightarrow> error + conn) \<Rightarrow> (listen_call \<Rightarrow> error + 'l) \<Rightarrow> (transport, 'l listener, tcpSocket) Transport" where
  "tcp_Transport net listen = \<lparr>tr_Options = transport_Options, tr_Dial = transport_Dial net,
     tr_Listen = (\<lambda>t addr opts. transport_Listen listen t addr), tr_String = transport_String\<rparr>"

definition tcp_Listener ::
    "('l \<Rightarrow> gostring) \<Rightarrow> ('l \<Rightarrow> error option) \<Rightarrow> ('l \<Rightarrow> accept_result list) \<Rightarrow> ('l listener, tcpSocket) Listener" where
  "tcp_Listener addr close arrivals = \<lparr>ls_Addr = listener_Addr addr, ls_Close = (\<lambda>l. (listener_Close close l, l)),
     ls_Accept = (\<lambda>fn l. case listener_Accept (l_timeout l) 0 (arrivals (l_listener l)) of (evs, err) \<Rightarrow>
       ((List.map_filter (\<lambda>ev. case ev of Handle s \<Rightarrow> Some (accept_handler fn s) | Sleep d \<Rightarrow> None) evs, err), l))\<rparr>"

definition quic_Transport ::
    "(int \<Rightarrow> gostring \<Rightarrow> tls_config \<Rightarrow> quic_config \<Rightarrow> error + 'c) \<Rightarrow> (int \<Rightarrow> 'c \<Rightarrow> error + 'st) \<Rightarrow>
     (gostring \<Rightarrow> tls_config \<Rightarrow> quic_config \<Rightarrow> error + 'l) \<Rightarrow>
     (quicTransport, 'l quicListener, ('c, 'st) quicSocket) Transport" where
  "quic_Transport dialAddr openStream listenAddr = \<lparr>tr_Options = quicTransport_Options,
     tr_Dial = (\<lambda>t addr opts. fst (quicTransport_Dial dialAddr openStream t addr opts)),
     tr_Listen = (\<lambda>t addr opts. quicTransport_Listen listenAddr t addr), tr_String = quicTransport_String\<rparr>"

definition quic_Listener ::
    "'st stream_ops \<Rightarrow> int \<Rightarrow> (int \<Rightarrow> 'c \<Rightarrow> error + 'st) \<Rightarrow> ('l \<Rightarrow> gostring) \<Rightarrow> ('l \<Rightarrow> error option) \<Rightarrow>
     ('l \<Rightarrow> (error + 'c) list) \<Rightarrow> ('l quicListener, ('c, 'st) quicSocket) Listener" where
  "quic_Listener q now acceptStream addr close arrivals = \<lparr>ls_Addr = quicListener_Addr addr,
     ls_Close = quicListener_Close close,
     ls_Accept = (\<lambda>fn l. case quicListener_Accept acceptStream (ql_timeout l) (arrivals (ql_l l)) of (evs, err) \<Rightarrow>
       ((List.map_filter (\<lambda>ev. case ev of Handled s \<Rightarrow> Some (quic_handler q now fn s) | Dropped c \<Rightarrow> None) evs, err), l))\<rparr>"

definition ws_Transport ::
    "int \<Rightarrow> (ws_dialer \<Rightarrow> gostring \<Rightarrow> error + conn \<times> bytes option) \<Rightarrow> (gostring \<Rightarrow> error + 'l) \<Rightarrow>
     ('l \<Rightarrow> tls_config \<Rightarrow> 'l) \<Rightarrow> (wsTransport, 'l wsListener, wsSocket) Transport" where
  "ws_Transport now dial listen newTLS = \<lparr>tr_Options = wsTransport_Options, tr_Dial = wsTransport_Dial now dial,
     tr_Listen = (\<lambda>t addr opts. fst (wsTransport_Listen listen newTLS t addr)), tr_String = wsTransport_String\<rparr>"

text \<open>The requests that reach a WebSocket listener, each with the time and the result of its upgrade.\<close>

definition ws_Listener ::
    "('l \<Rightarrow> gostring) \<Rightarrow> ('l \<Rightarrow> error option) \<Rightarrow> ('l \<Rightarrow> error option) \<Rightarrow> ('l \<Rightarrow> error) \<Rightarrow>
     ('l \<Rightarrow> (int \<times> ((gostring \<Rightarrow> bool) option \<Rightarrow> error \<times> conn option + conn \<times> bytes option \<times> gostring)) list) \<Rightarrow>
     ('l wsListener, wsSocket) Listener" where
  "ws_Listener addr closeServer close serve requests = \<lparr>ls_Addr = wsListener_Addr addr,
     ls_Close = (\<lambda>l. (wsListener_Close (closeServer (wl_ln l)) (close (wl_ln l)), l)),
     ls_Accept = (\<lambda>fn l. case wsListener_Accept serve l of (err, l') \<Rightarrow>
       ((List.map_filter (\<lambda>(now, upgrade). case wsListener_serveWS now upgrade l' of
           Served s \<Rightarrow> Some (ws_handler fn s) | _ \<Rightarrow> None) (requests (wl_ln l)), Some err), l'))\<rparr>"

section \<open>They keep the interface\<close>

lemma in_map_filter: "y \<in> set (List.map_filter f xs) \<longleftrightarrow> (\<exists>x \<in> set xs. f x = Some y)"
  by (force simp: List.map_filter_def)

lemma handled_Some:
  "(case ev of Handle s \<Rightarrow> Some (f s) | Sleep d \<Rightarrow> None) = Some y \<longleftrightarrow> (\<exists>s. ev = Handle s \<and> y = f s)"
  "(case served of Handled s \<Rightarrow> Some (g s) | Dropped c \<Rightarrow> None) = Some y \<longleftrightarrow> (\<exists>s. served = Handled s \<and> y = g s)"
  "(case req of Served s \<Rightarrow> Some (h s) | _ \<Rightarrow> None) = Some y \<longleftrightarrow> (\<exists>s. req = Served s \<and> y = h s)"
  by ((cases ev; auto), (cases served; auto), (cases req; auto))

lemma closed_Close [simp]:
  "t_closed (snd (tcpSocket_Close t))" "q_closed (snd (quicSocket_Close q now u))" "w_closed (snd (wsSocket_Close w))"
  by (auto simp: tcpSocket_Close_def quicSocket_Close_def wsSocket_Close_def wsSocket_closeWithCause_def
      split: prod.split)

lemma ws_new_fields [simp]:
  "w_timeout (ws_newSocket now c extra timeout client) = timeout"
  "w_session (ws_newSocket now c extra timeout client) = NewSession"
  "\<not> w_closed (ws_newSocket now c extra timeout client)"
  by (simp_all add: ws_newSocket_def wsSocket_armReadDeadline_def Let_def split: option.split)

interpretation tcp_transport: transport_interface "NewTransport network" "tcp_Transport net listen"
    "tcp_Listener addr close arrivals" t_timeout t_session t_closed for network net listen addr close arrivals
proof
  fix t a lopts l fn ss err l' s
  assume l: "tr_Listen (tcp_Transport net listen) t a lopts = Inr l"
    and acc: "ls_Accept (tcp_Listener addr close arrivals) fn l = ((ss, err), l')" and s: "s \<in> set ss"
  from l have time: "l_timeout l = o_Timeout (transport_Options t)"
    by (auto simp: tcp_Transport_def transport_Listen_def transport_Options_def andThen_Inr_conv)
  from acc s obtain s0 where "Handle s0 \<in> set (fst (listener_Accept (l_timeout l) 0 (arrivals (l_listener l))))"
    "s = accept_handler fn s0"
    by (auto simp: tcp_Listener_def in_map_filter handled_Some split: prod.splits)
  then show "\<exists>s0. t_timeout s0 = o_Timeout (tr_Options (tcp_Transport net listen) t) \<and> \<not> t_closed s0 \<and>
      (fst (fn s0) \<longrightarrow> t_closed s) \<and> (\<not> fst (fn s0) \<longrightarrow> s = snd (fn s0))"
    using time by (intro exI [of _ s0])
      (auto dest!: listener_Accept_Handle simp: newSocket_def tcp_Transport_def accept_handler_def split: prod.splits)
qed (auto simp: tcp_Transport_def NewTransport_def transport_Options_def transport_Dial_def transport_Listen_def
    newSocket_def andThen_Inr_conv Let_def)

interpretation quic_transport: transport_interface quic_NewTransport "quic_Transport dialAddr openStream listenAddr"
    "quic_Listener q now acceptStream addr close arrivals" q_timeout q_session q_closed
    for dialAddr openStream listenAddr q now acceptStream addr close arrivals
proof
  fix t a lopts l fn ss err l' s
  assume l: "tr_Listen (quic_Transport dialAddr openStream listenAddr) t a lopts = Inr l"
    and acc: "ls_Accept (quic_Listener q now acceptStream addr close arrivals) fn l = ((ss, err), l')" and s: "s \<in> set ss"
  from l have time: "ql_timeout l = o_Timeout (quicTransport_Options t)"
    by (auto simp: quic_Transport_def quicTransport_Listen_def quicTransport_Options_def andThen_Inr_conv split: if_splits)
  from acc s obtain s0 where "Handled s0 \<in> set (fst (quicListener_Accept acceptStream (ql_timeout l) (arrivals (ql_l l))))"
    "s = quic_handler q now fn s0"
    by (auto simp: quic_Listener_def in_map_filter handled_Some split: prod.splits)
  then show "\<exists>s0. q_timeout s0 = o_Timeout (tr_Options (quic_Transport dialAddr openStream listenAddr) t) \<and>
      \<not> q_closed s0 \<and> (fst (fn s0) \<longrightarrow> q_closed s) \<and> (\<not> fst (fn s0) \<longrightarrow> s = snd (fn s0))"
    using time by (intro exI [of _ s0])
      (auto dest!: quicListener_Accept_Handled simp: quic_newSocket_def quic_Transport_def quic_handler_def split: prod.splits)
qed (auto simp: quic_Transport_def quic_NewTransport_def quicTransport_Options_def quicTransport_Dial_def
    quicTransport_Listen_def quic_newSocket_def andThen_Inr_conv Let_def split: sum.splits if_splits)

interpretation ws_transport: transport_interface "ws_NewTransport pattern" "ws_Transport now dial listen newTLS"
    "ws_Listener addr closeServer close serve requests" w_timeout w_session w_closed
    for pattern now dial listen newTLS addr closeServer close serve requests
proof
  fix t a lopts l fn ss err l' s
  assume l: "tr_Listen (ws_Transport now dial listen newTLS) t a lopts = Inr l"
    and acc: "ls_Accept (ws_Listener addr closeServer close serve requests) fn l = ((ss, err), l')" and s: "s \<in> set ss"
  from l have time: "wl_timeout l = o_Timeout (wsTransport_Options t)"
    by (auto simp: ws_Transport_def wsTransport_Listen_def wsTransport_Options_def Let_def
        split: sum.splits if_splits option.splits)
  from acc s obtain s0 now' upgrade where "wsListener_serveWS now' upgrade (l\<lparr>wl_serving := True\<rparr>) = Served s0"
    "s = ws_handler fn s0"
    by (auto simp: ws_Listener_def wsListener_Accept_def in_map_filter handled_Some)
  then show "\<exists>s0. w_timeout s0 = o_Timeout (tr_Options (ws_Transport now dial listen newTLS) t) \<and>
      \<not> w_closed s0 \<and> (fst (fn s0) \<longrightarrow> w_closed s) \<and> (\<not> fst (fn s0) \<longrightarrow> s = snd (fn s0))"
    using time by (intro exI [of _ s0])
      (auto simp: wsListener_serveWS_def ws_Transport_def ws_handler_def Let_def split: prod.splits sum.splits)
qed (auto simp: ws_Transport_def ws_NewTransport_def wsTransport_Options_def wsTransport_Dial_def
    wsTransport_Listen_def andThen_Inr_conv Let_def split: sum.splits if_splits)

text \<open>
  Whichever transport a program is given: the last \<^verbatim>\<open>Timeout\<close> among its options is the timeout of every
  socket it dials, and \<^verbatim>\<open>Listen\<close> with \<^verbatim>\<open>Secure\<close> fails without a TLS configuration.
\<close>

theorem timeout_option:
  "tr_Dial (tcp_Transport net listen) (NewTransport network (opts @ [Timeout d])) addr dopts = Inr s \<Longrightarrow> t_timeout s = d"
  "tr_Dial (quic_Transport dialAddr openStream listenAddr) (quic_NewTransport (opts @ [Timeout d])) addr dopts = Inr u \<Longrightarrow>
     q_timeout u = d"
  "tr_Dial (ws_Transport now dial wsListen newTLS) (ws_NewTransport pattern (opts @ [Timeout d])) addr dopts = Inr w \<Longrightarrow>
     w_timeout w = d"
  by (rule tcp_transport.last_timeout quic_transport.last_timeout ws_transport.last_timeout; assumption)+

theorem secure_option:
  assumes "o_Secure (apply_options opts zeroOptions)" and "o_TLSConfig (apply_options opts zeroOptions) = None"
  shows "tr_Listen (tcp_Transport net listen) (NewTransport network opts) addr lopts \<noteq> Inr l"
    and "tr_Listen (quic_Transport dialAddr openStream listenAddr) (quic_NewTransport opts) addr lopts \<noteq> Inr k"
    and "tr_Listen (ws_Transport now dial wsListen newTLS) (ws_NewTransport pattern opts) addr lopts \<noteq> Inr m"
proof -
  show "tr_Listen (tcp_Transport net listen) (NewTransport network opts) addr lopts \<noteq> Inr l"
    by (rule tcp_transport.no_plaintext) (simp_all add: assms tcp_transport.options)
  show "tr_Listen (quic_Transport dialAddr openStream listenAddr) (quic_NewTransport opts) addr lopts \<noteq> Inr k"
    by (rule quic_transport.no_plaintext) (simp_all add: assms quic_transport.options)
  show "tr_Listen (ws_Transport now dial wsListen newTLS) (ws_NewTransport pattern opts) addr lopts \<noteq> Inr m"
    by (rule ws_transport.no_plaintext) (simp_all add: assms ws_transport.options)
qed

end
