(* ===== verification/Samples.thy ===== *)
theory Samples
  imports BrokerSockets TcpTransport QuicTransport WsTransport
begin

text \<open>
  The programs of the repository that use the library: the sample servers and clients under
  \<^verbatim>\<open>transports/*/sample\<close> and the command \<^verbatim>\<open>interop/cmd/broker\<close>. Loading certificates, printing and
  waiting forever are left out. The loop of a server ends because every request takes bytes from
  the connection.
\<close>

section \<open>Requests\<close>

record p =
  p_data :: bytes

definition p_WriteTo :: "p \<Rightarrow> writer \<Rightarrow> write_result" where
  "p_WriteTo m w = Write w (p_data m)"

definition p_any :: "p \<Rightarrow> any" where
  "p_any m = ObjectV \<lparr>writerTo = Some (\<lambda>w. Some (p_WriteTo m w)), marshalBinary = None,
     marshalJSON = None, typeName = lit ''*main.p''\<rparr>"

lemma Write_any_p [simp]: "Write_any w (p_any m) = Some (Write w (p_data m))"
  by (simp add: Write_any_def p_any_def p_WriteTo_def)

text \<open>The callbacks read one byte, or three.\<close>

definition read_request :: "nat \<Rightarrow> p callback" where
  "read_request n r = (case ReadFull n r of
      (Inl err, r') \<Rightarrow> (Inr (Inl err), r')
    | (Inr bt, r') \<Rightarrow> (Inr (Inr \<lparr>p_data = bt\<rparr>), r'))"

lemma read_request_eq:
  "read_request n r = (case ReadFull n r of (res, r') \<Rightarrow> (Inr (map_sum id (\<lambda>bt. \<lparr>p_data = bt\<rparr>) res), r'))"
  by (simp add: read_request_def split: prod.split sum.split)

section \<open>The TCP server\<close>

text \<open>
  Its callback first prints \<^verbatim>\<open>sock.ConnectionState().ServerName\<close>, which dereferences a nil pointer
  while the handshake is not complete.
\<close>

definition tcp_sample_callback :: "tcpSocket \<Rightarrow> p callback" where
  "tcp_sample_callback sock r = (case tcpSocket_ConnectionState sock of
      None \<Rightarrow> (Inl (lit ''runtime error: invalid memory address or nil pointer dereference''), r)
    | Some _ \<Rightarrow> read_request 1 r)"

text \<open>The loop, with the times of the calls: \<open>clock k\<close> for the \<open>k\<close>-th.\<close>

function tcp_sample_loop :: "(nat \<Rightarrow> int) \<Rightarrow> nat \<Rightarrow> tcpSocket \<Rightarrow> p list \<times> tcpSocket" where
  "tcp_sample_loop clock k sock =
     (case tcpSocket_Recv (clock k) (Some (tcp_sample_callback sock)) sock of
        (Inl err, sock) \<Rightarrow> ([], sock)
      | (Inr request, sock) \<Rightarrow>
          (case tcp_sample_loop clock (k + 2) (snd (tcpSocket_Send (clock (k + 1)) (p_any request) sock)) of
             (requests, sock) \<Rightarrow> (request # requests, sock)))"
  by pat_completeness auto

lemma tcp_sample_Recv:
  assumes "tcpSocket_Recv now (Some (tcp_sample_callback sock)) t = (Inr request, t')"
  shows "data (incoming (t_conn t)) = p_data request @ data (incoming (t_conn t')) \<and>
    length (p_data request) = 1"
  using assms ReadFull_Inr [of 1 "incoming (t_conn t)"]
  by (auto simp: tcpSocket_Recv_def tcp_sample_callback_def read_request_def SetReadDeadline_def
      split: if_splits option.splits prod.splits sum.splits)

lemma tcpSocket_Send_incoming:
  "incoming (t_conn (snd (tcpSocket_Send now v t))) = incoming (t_conn t)"
  by (auto simp: tcpSocket_Send_def tcpSocket_Send_locked_def tcpSocket_handshake_def
      SetWriteDeadline_def tcpSocket_Close_def Let_def split: option.splits prod.splits)

termination tcp_sample_loop
  by (relation "measure (\<lambda>(clock, k, sock). length (data (incoming (t_conn sock))))")
    (auto simp: tcpSocket_Send_incoming dest!: tcp_sample_Recv [OF sym])

definition tcp_sample_handler :: "(nat \<Rightarrow> int) \<Rightarrow> tcpSocket \<Rightarrow> p list \<times> tcpSocket" where
  "tcp_sample_handler clock sock = (case tcp_sample_loop clock 0 sock of
     (requests, sock) \<Rightarrow> (requests, snd (tcpSocket_Close sock)))"

declare tcp_sample_loop.simps [simp del]

text \<open>With a handshake done and a connection that takes all that is written, the loop echoes.\<close>

definition serving :: "tcpSocket \<Rightarrow> bool" where
  "serving t \<longleftrightarrow> \<not> t_closed t \<and> connOpen (t_conn t) \<and> tlsState (t_conn t) \<noteq> None \<and>
     pendingHandshake (t_conn t) = None \<and> faults (outgoing_wire (t_conn t)) = []"

lemma serving_Recv:
  assumes "serving t" and "data (incoming (t_conn t)) = b # bs"
  obtains t' where "tcpSocket_Recv now (Some (tcp_sample_callback t)) t = (Inr \<lparr>p_data = [b]\<rparr>, t')"
    "serving t'" "data (incoming (t_conn t')) = bs" "tcp_wire t' = tcp_wire t"
proof -
  obtain r where "ReadFull 1 (incoming (t_conn t)) = (Inr [b], r)" "data r = bs"
    using ReadFull_eq(1,2) [of 1 "incoming (t_conn t)"] assms(2)
    by (cases "ReadFull 1 (incoming (t_conn t))") auto
  with assms(1) that show thesis
    by (auto simp: serving_def tcpSocket_Recv_def tcp_sample_callback_def tcpSocket_ConnectionState_def
        read_request_def SetReadDeadline_def conn_read_def)
qed

lemma serving_end:
  assumes "serving t" and "data (incoming (t_conn t)) = []"
  obtains err t' where "tcpSocket_Recv now (Some (tcp_sample_callback t)) t = (Inl err, t')"
    "tcp_wire t' = tcp_wire t"
proof -
  obtain err r where "ReadFull 1 (incoming (t_conn t)) = (Inl err, r)"
    using ReadFull_eq(1) [of 1 "incoming (t_conn t)"] assms(2)
    by (cases "ReadFull 1 (incoming (t_conn t))") auto
  with assms(1) that show thesis
    by (auto simp: serving_def tcpSocket_Recv_def tcp_sample_callback_def tcpSocket_ConnectionState_def
        read_request_def SetReadDeadline_def)
qed

lemma serving_Send:
  assumes "serving t"
  shows "serving (snd (tcpSocket_Send now (p_any m) t))"
    and "tcp_wire (snd (tcpSocket_Send now (p_any m) t)) = tcp_wire t @ p_data m"
  using assms
  by (auto simp: serving_def tcpSocket_Send_def tcpSocket_Send_locked_def tcpSocket_handshake_def
      SetWriteDeadline_def Write_no_faults sent_def Let_def)

lemma tcp_sample_echoes:
  assumes "serving t"
  shows "\<exists>t'. tcp_sample_loop clock k t = (map (\<lambda>b. \<lparr>p_data = [b]\<rparr>) (data (incoming (t_conn t))), t') \<and>
    tcp_wire t' = tcp_wire t @ data (incoming (t_conn t))"
  using assms
proof (induction "data (incoming (t_conn t))" arbitrary: t k)
  case Nil
  obtain err t' where "tcpSocket_Recv (clock k) (Some (tcp_sample_callback t)) t = (Inl err, t')"
    "tcp_wire t' = tcp_wire t"
    using serving_end [OF Nil.prems Nil.hyps [symmetric]] .
  then show ?case using Nil.hyps by (simp add: tcp_sample_loop.simps [of clock k t])
next
  case (Cons b bs)
  obtain t1 where t1: "tcpSocket_Recv (clock k) (Some (tcp_sample_callback t)) t = (Inr \<lparr>p_data = [b]\<rparr>, t1)"
    "serving t1" "data (incoming (t_conn t1)) = bs" "tcp_wire t1 = tcp_wire t"
    using serving_Recv [OF Cons.prems Cons.hyps(2) [symmetric]] .
  let ?t2 = "snd (tcpSocket_Send (clock (k + 1)) (p_any \<lparr>p_data = [b]\<rparr>) t1)"
  have "bs = data (incoming (t_conn ?t2))" by (simp add: tcpSocket_Send_incoming t1(3))
  from Cons.hyps(1) [OF this serving_Send(1) [OF t1(2)], of "k + 2"]
  obtain t' where "tcp_sample_loop clock (k + 2) ?t2 = (map (\<lambda>b. \<lparr>p_data = [b]\<rparr>) bs, t')"
    "tcp_wire t' = tcp_wire t @ [b] @ bs"
    using serving_Send(2) [OF t1(2), of "clock (k + 1)" "\<lparr>p_data = [b]\<rparr>"] t1(3,4)
    by (auto simp: tcpSocket_Send_incoming)
  with t1(1) Cons.hyps(2) show ?case
    by (simp add: tcp_sample_loop.simps [of clock k t] flip: Cons.hyps(2))
qed

section \<open>The QUIC server\<close>

text \<open>
  Whether the loop ends depends on the streams of \<^verbatim>\<open>quic-go\<close>, so not ending is the result \<open>None\<close>.
  The handler returns without closing the socket.
\<close>

partial_function (option) quic_sample_loop ::
    "'st stream_ops \<Rightarrow> (nat \<Rightarrow> int) \<Rightarrow> nat \<Rightarrow> ('c, 'st) quicSocket \<Rightarrow> (p list \<times> ('c, 'st) quicSocket) option" where
  "quic_sample_loop q clock k sock =
     (case quicSocket_Recv q (clock k) False (Some (read_request 1)) sock of
        (Inl err, sock) \<Rightarrow> Some ([], sock)
      | (Inr request, sock) \<Rightarrow> Option.bind (quic_sample_loop q clock (k + 1) sock)
          (\<lambda>(requests, sock). Some (request # requests, sock)))"

lemma quic_sample_Recv:
  assumes "reader_laws q" and "\<not> q_closed t"
  obtains (request) b bs t' where "data (s_reader q (q_stream t)) = b # bs"
    "quicSocket_Recv q now False (Some (read_request 1)) t = (Inr \<lparr>p_data = [b]\<rparr>, t')"
    "data (s_reader q (q_stream t')) = bs" "\<not> q_closed t'"
  | (finished) err t' where "data (s_reader q (q_stream t)) = []"
    "quicSocket_Recv q now False (Some (read_request 1)) t = (Inl err, t')" "\<not> q_closed t'"
proof -
  obtain st where st: "s_SetReadDeadline q (deadline now (q_timeout t)) (q_stream t) = (None, st)"
    "s_reader q st = s_reader q (q_stream t)"
    using reader_laws_simps(1) [OF assms(1)] by (metis surj_pair)
  obtain res r where r: "ReadFull 1 (s_reader q (q_stream t)) = (res, r)" by fastforce
  show thesis
  proof (cases "data (s_reader q (q_stream t))")
    case Nil
    with r ReadFull_eq(1) [of 1 "s_reader q (q_stream t)"] obtain err where "res = Inl err" by auto
    with Nil r st assms(2) show thesis
      by (intro finished [where t' = "t\<lparr>q_stream := s_read q r st\<rparr>"]) (auto simp: quicSocket_Recv_def read_request_def Let_def)
  next
    case (Cons b bs)
    with r ReadFull_eq(1,2) [of 1 "s_reader q (q_stream t)"] have "res = Inr [b]" "data r = bs" by auto
    with Cons r st assms(2) show thesis
      by (intro request [where t' = "t\<lparr>q_stream := s_read q r st\<rparr>"]) (auto simp: quicSocket_Recv_def read_request_def Let_def
          reader_laws_simps(5) [OF assms(1)])
  qed
qed

lemma quic_sample_returns:
  assumes "reader_laws q" and "\<not> q_closed t"
  shows "\<exists>t'. quic_sample_loop q clock k t =
    Some (map (\<lambda>b. \<lparr>p_data = [b]\<rparr>) (data (s_reader q (q_stream t))), t') \<and> \<not> q_closed t'"
  using assms(2)
proof (induction "data (s_reader q (q_stream t))" arbitrary: t k)
  case Nil
  from assms(1) Nil.prems show ?case
    by (cases rule: quic_sample_Recv [where now = "clock k"])
      (use Nil.hyps in \<open>auto simp: quic_sample_loop.simps [of q clock k t]\<close>)
next
  case (Cons b bs)
  from assms(1) Cons.prems show ?case
  proof (cases rule: quic_sample_Recv [where now = "clock k"])
    case (request b' bs' t')
    with Cons.hyps(2) have "bs = data (s_reader q (q_stream t'))" by simp
    from Cons.hyps(1) [OF this request(4), of "k + 1"] request show ?thesis
      by (auto simp: quic_sample_loop.simps [of q clock k t])
  qed (use Cons.hyps(2) in simp)
qed

section \<open>The WebSocket server\<close>

text \<open>Requests of three bytes, read from the pipe of the socket; the loop ends with its first error.\<close>

function ws_sample_loop :: "reader \<Rightarrow> p list \<times> error" where
  "ws_sample_loop r = (case wsSocket_Recv (Some (read_request 3)) r of
      (Inl err, r) \<Rightarrow> ([], err)
    | (Inr request, r) \<Rightarrow> (case ws_sample_loop r of (requests, err) \<Rightarrow> (request # requests, err)))"
  by pat_completeness auto

lemma ws_sample_Recv:
  "wsSocket_Recv (Some (read_request n)) r =
     (case ReadFull n r of (res, r') \<Rightarrow> (map_sum id (\<lambda>bt. \<lparr>p_data = bt\<rparr>) res, r'))"
  by (auto simp: wsSocket_Recv_def read_request_eq split: prod.split sum.split)

lemma ws_sample_Recv_Inr:
  assumes "wsSocket_Recv (Some (read_request n)) r = (Inr m, r')"
  shows "length (p_data m) = n \<and> data r = p_data m @ data r'"
  using assms ReadFull_Inr [of n r]
  by (cases "ReadFull n r"; cases "fst (ReadFull n r)") (auto simp: ws_sample_Recv)

termination ws_sample_loop
  by (relation "measure (\<lambda>r. length (data r))") (auto dest!: ws_sample_Recv_Inr [OF sym])

declare ws_sample_loop.simps [simp del]

definition ws_sample_handler :: "reader \<Rightarrow> wsSocket \<Rightarrow> (p list \<times> error) \<times> wsSocket" where
  "ws_sample_handler r sock = (ws_sample_loop r, snd (wsSocket_Close sock))"

lemma ws_sample_loop_end:
  assumes "length (data r) < 3"
  shows "ws_sample_loop r = ([], if data r \<noteq> [] \<and> final r = EOF then ErrUnexpectedEOF else final r)"
  using ReadFull_eq(1) [of 3 r] assms
  by (cases "ReadFull 3 r") (simp add: ws_sample_loop.simps [of r] ws_sample_Recv)

lemma ws_sample_loop_step:
  assumes "3 \<le> length (data r)"
  obtains r' where "data r' = drop 3 (data r)" "final r' = final r"
    "ws_sample_loop r = (case ws_sample_loop r' of (requests, err) \<Rightarrow>
      (\<lparr>p_data = take 3 (data r)\<rparr> # requests, err))"
  using ReadFull_eq [of 3 r] assms that [of "snd (ReadFull 3 r)"]
  by (cases "ReadFull 3 r") (simp add: ws_sample_loop.simps [of r] ws_sample_Recv)

lemma ws_sample_blocks:
  "ws_sample_loop r = (reqs, err) \<Longrightarrow> (\<forall>m \<in> set reqs. length (p_data m) = 3) \<and>
    (\<exists>rest. data r = concat (map p_data reqs) @ rest \<and> length rest < 3 \<and>
      err = (if rest \<noteq> [] \<and> final r = EOF then ErrUnexpectedEOF else final r))"
proof (induction "length (data r)" arbitrary: r reqs rule: less_induct)
  case less
  show ?case
  proof (cases "3 \<le> length (data r)")
    case True
    then obtain r' where r': "data r' = drop 3 (data r)" "final r' = final r"
      "ws_sample_loop r = (case ws_sample_loop r' of (requests, err) \<Rightarrow>
        (\<lparr>p_data = take 3 (data r)\<rparr> # requests, err))" by (rule ws_sample_loop_step)
    then obtain reqs' where reqs: "ws_sample_loop r' = (reqs', err)" "reqs = \<lparr>p_data = take 3 (data r)\<rparr> # reqs'"
      using less.prems by (auto split: prod.splits)
    from True r'(1) have "length (data r') < length (data r)" by simp
    from less.hyps [OF this reqs(1)] obtain rest where "drop 3 (data r) = concat (map p_data reqs') @ rest"
      "length rest < 3" "\<forall>m \<in> set reqs'. length (p_data m) = 3"
      "err = (if rest \<noteq> [] \<and> final r = EOF then ErrUnexpectedEOF else final r)"
      using r'(1,2) by auto
    with True reqs(2) show ?thesis
      by (auto intro!: exI [of _ rest]) (metis append_take_drop_id)+
  next
    case False
    then have "length (data r) < 3" by simp
    with less.prems ws_sample_loop_end show ?thesis by fastforce
  qed
qed

section \<open>The programs of the servers\<close>

text \<open>
  Each listens, exits with the error of \<^verbatim>\<open>Listen\<close> as a panic, and serves what its listener accepts.
  The configuration and what the listeners below return are parameters.
\<close>

definition tcp_sample_main ::
    "(listen_call \<Rightarrow> error + 'l) \<Rightarrow> tls_config option \<Rightarrow> ('l \<Rightarrow> accept_result list) \<Rightarrow>
     (tcpSocket \<Rightarrow> nat \<Rightarrow> int) \<Rightarrow> error + (p list \<times> tcpSocket) list" where
  "tcp_sample_main listen cfg arrivals clock =
     (let tran = NewTransport (lit ''tcp'') [Secure True, TLSConfig cfg]
      in andThen (transport_Listen listen tran (lit '':8883'')) (\<lambda>l.
        Inr (List.map_filter (\<lambda>ev. case ev of
            Handle sock \<Rightarrow> Some (tcp_sample_handler (clock sock) sock)
          | Sleep d \<Rightarrow> None) (fst (listener_Accept (l_timeout l) 0 (arrivals (l_listener l)))))))"

definition quic_sample_main ::
    "(gostring \<Rightarrow> tls_config \<Rightarrow> quic_config \<Rightarrow> error + 'l) \<Rightarrow> tls_config \<Rightarrow> ('l \<Rightarrow> (error + 'c) list) \<Rightarrow>
     (int \<Rightarrow> 'c \<Rightarrow> error + 'st) \<Rightarrow> 'st stream_ops \<Rightarrow> (('c, 'st) quicSocket \<Rightarrow> nat \<Rightarrow> int) \<Rightarrow>
     error + (p list \<times> ('c, 'st) quicSocket) option list" where
  "quic_sample_main listenAddr cfg arrivals acceptStream q clock =
     andThen (quicTransport_Listen listenAddr (quic_NewTransport [TLSConfig (Some cfg)]) (lit '':1234'')) (\<lambda>l.
       Inr (List.map_filter (\<lambda>ev. case ev of
           Handled sock \<Rightarrow> Some (quic_sample_loop q (clock sock) 0 sock)
         | Dropped c \<Rightarrow> None) (fst (quicListener_Accept acceptStream (ql_timeout l) (arrivals (ql_l l))))))"

text \<open>Of the WebSocket server, the listener it serves; a request is then served by \<open>ws_sample_handler\<close>.\<close>

definition ws_sample_main ::
    "(gostring \<Rightarrow> error + 'l) \<Rightarrow> ('l \<Rightarrow> tls_config \<Rightarrow> 'l) \<Rightarrow> ('l \<Rightarrow> error) \<Rightarrow> tls_config option \<Rightarrow>
     error + error \<times> 'l wsListener" where
  "ws_sample_main listen newTLS serve cfg =
     (let port = lit '':11444'';
          tran = ws_NewTransport (lit ''/ws'') [Secure True, TLSConfig cfg]
      in andThen (fst (wsTransport_Listen listen newTLS tran port)) (\<lambda>l. Inr (wsListener_Accept serve l)))"

text \<open>Without a configuration the two that ask for TLS panic; none listens in plaintext.\<close>

lemma sample_mains_tls:
  "tcp_sample_main listen None arrivals clock = Inl (NewError (lit ''[tcp] no tlsConfig''))"
  "tcp_sample_main listen (Some cfg) arrivals clock = Inr results \<Longrightarrow>
     \<exists>l. listen (ListenTLS (lit ''tcp'') (lit '':8883'') cfg) = Inr l"
  "ws_sample_main wsListen newTLS serve cfg' = Inr (err, l) \<Longrightarrow>
     \<exists>c ln. cfg' = Some c \<and> wsListen (lit '':11444'') = Inr ln \<and> wl_ln l = newTLS ln c \<and> wl_serving l"
  by (auto simp: tcp_sample_main_def ws_sample_main_def transport_Listen_def wsTransport_Listen_def NewTransport_def
      ws_NewTransport_def Secure_def TLSConfig_def transport_String_def wsListener_Accept_def Let_def andThen_Inr_conv
      zeroOptions_def lit_def andThen_def split: sum.splits option.splits)

section \<open>The clients\<close>

definition tcp_sample_client :: "(dial_call \<Rightarrow> error + conn) \<Rightarrow> (nat \<Rightarrow> int) \<Rightarrow> error + tcpSocket" where
  "tcp_sample_client net clock =
     andThen (transport_Dial net (NewTransport (lit ''tcp'') []) (lit ''127.0.0.1:10001'') []) (\<lambda>c.
       let c = snd (tcpSocket_Send (clock 0) (p_any \<lparr>p_data = [1, 2, 3]\<rparr>) c);
           c = snd (tcpSocket_Send (clock 1) (p_any \<lparr>p_data = [1, 2, 3]\<rparr>) c);
           c = snd (tcpSocket_Send (clock 2) (p_any \<lparr>p_data = [4, 5, 6]\<rparr>) c)
       in Inr (snd (tcpSocket_Close c)))"

definition quic_sample_client ::
    "tls_config \<Rightarrow> (int \<Rightarrow> gostring \<Rightarrow> tls_config \<Rightarrow> quic_config \<Rightarrow> error + 'c) \<Rightarrow> (int \<Rightarrow> 'c \<Rightarrow> error + 'st) \<Rightarrow>
     'st stream_ops \<Rightarrow> (nat \<Rightarrow> int) \<Rightarrow> error + ('c, 'st) quicSocket" where
  "quic_sample_client insecure dialAddr openStream q clock =
     andThen (fst (quicTransport_Dial dialAddr openStream (quic_NewTransport [TLSConfig (Some insecure)])
       (lit ''127.0.0.1:1234'') [])) (\<lambda>c.
       let c = snd (quicSocket_Send q (clock 0) (p_any \<lparr>p_data = [1, 2, 3]\<rparr>) c);
           c = snd (quicSocket_Send q (clock 1) (p_any \<lparr>p_data = [1, 2, 3]\<rparr>) c)
       in Inr (snd (quicSocket_Close q (clock 2) c)))"

section \<open>The broker command\<close>

text \<open>\<^verbatim>\<open>flag.String\<close> after \<^verbatim>\<open>flag.Parse\<close>: the value given last, or the default.\<close>

definition flag_String :: "gostring \<Rightarrow> gostring \<Rightarrow> (gostring \<times> gostring) list \<Rightarrow> gostring" where
  "flag_String name dflt args = (case find (\<lambda>(n, v). n = name) (rev args) of
      None \<Rightarrow> dflt
    | Some (n, v) \<Rightarrow> v)"

text \<open>
  \<^verbatim>\<open>main\<close> up to the point where both listeners serve the broker, or the message it exits with.
\<close>

definition broker_main ::
    "(listen_call \<Rightarrow> error + 'l) \<Rightarrow> (gostring \<Rightarrow> error + 'm) \<Rightarrow> ('m \<Rightarrow> tls_config \<Rightarrow> 'm) \<Rightarrow>
     (gostring \<times> gostring) list \<Rightarrow> (gostring \<times> error) + Broker \<times> 'l listener \<times> 'm wsListener" where
  "broker_main listen wsListen newTLS args =
     (let tcpAddr = flag_String (lit ''tcp'') (lit ''127.0.0.1:1883'') args;
          wsAddr = flag_String (lit ''ws'') (lit ''127.0.0.1:8083'') args;
          pattern = flag_String (lit ''pattern'') (lit ''/mqtt'') args;
          b = NewBroker
      in case transport_Listen listen (NewTransport (lit ''tcp'') []) tcpAddr of
        Inl err \<Rightarrow> Inl (lit ''tcp listen'', err)
      | Inr tcpL \<Rightarrow>
          (case fst (wsTransport_Listen wsListen newTLS (ws_NewTransport pattern
              [Subprotocols [lit ''mqtt'', lit ''mqttv3.1'']]) wsAddr) of
            Inl err \<Rightarrow> Inl (lit ''ws listen'', err)
          | Inr wsL \<Rightarrow> Inr (b, tcpL, wsL)))"

lemma broker_main_serves:
  assumes "broker_main listen wsListen newTLS args = Inr (b, tcpL, wsL)"
  shows "b = NewBroker \<and> l_timeout tcpL = 0 \<and>
    wl_protocols wsL = [lit ''mqtt'', lit ''mqttv3.1''] \<and> wl_timeout wsL = 0 \<and> \<not> wl_serving wsL"
  using assms
  by (auto simp: broker_main_def transport_Listen_def NewTransport_def wsTransport_Listen_def
      ws_NewTransport_def Subprotocols_def wsTransport_subprotocols_def zeroOptions_def Let_def
      andThen_Inr_conv context_Value_def context_WithValue_def context_Background_def
      split: sum.splits if_splits)

text \<open>A connection whose handshake is still to do is closed without a request.\<close>

lemma tcp_sample_unserved:
  assumes "connOpen c" and "tlsState c \<noteq> None" and "pendingHandshake c \<noteq> None"
  shows "\<exists>t'. tcp_sample_handler clock (newSocket c timeout) = ([], t') \<and> t_closed t' \<and>
    tcp_wire t' = sent (outgoing_wire c)"
proof -
  have "tcpSocket_Recv (clock 0) (Some (tcp_sample_callback (newSocket c timeout)))
      (newSocket c timeout) = (Inl (NewError (lit ''tcp: panic in recv: '' @
        lit ''runtime error: invalid memory address or nil pointer dereference'')),
      (newSocket c timeout)\<lparr>t_conn := conn_read (incoming c) (c\<lparr>readDeadline := deadline (clock 0) timeout\<rparr>)\<rparr>)"
    using assms by (simp add: tcpSocket_Recv_def tcp_sample_callback_def tcpSocket_ConnectionState_def
        newSocket_def SetReadDeadline_def split: option.split)
  then have "tcp_sample_loop clock 0 (newSocket c timeout) = ([],
      (newSocket c timeout)\<lparr>t_conn := conn_read (incoming c) (c\<lparr>readDeadline := deadline (clock 0) timeout\<rparr>)\<rparr>)"
    by (simp add: tcp_sample_loop.simps [of clock 0])
  then show ?thesis by (auto simp: tcp_sample_handler_def newSocket_def)
qed

section \<open>Properties\<close>

text \<open>
  C34: the TCP sample server on a connection from a TLS listener that takes all that is written.
  If the handshake has been done, the handler gets every byte the peer sends as a request of its
  own, sends each back, in order, and closes the socket when the stream ends. But a listener's
  connections have it still to do, and then the callback of the first \<^verbatim>\<open>Recv\<close> fails on the nil
  state: the handler closes the socket without a single request.
\<close>

theorem tcp_sample_serves:
  assumes "connOpen c" and "tlsState c \<noteq> None" and "faults (outgoing_wire c) = []"
  shows "\<exists>t'. tcp_sample_handler clock (newSocket c timeout) =
      (if pendingHandshake c = None then map (\<lambda>b. \<lparr>p_data = [b]\<rparr>) (data (incoming c)) else [], t') \<and>
    t_closed t' \<and>
    tcp_wire t' = sent (outgoing_wire c) @ (if pendingHandshake c = None then data (incoming c) else [])"
proof (cases "pendingHandshake c = None")
  case True
  with assms have "serving (newSocket c timeout)" by (simp add: serving_def newSocket_def)
  from tcp_sample_echoes [OF this, of clock 0] True show ?thesis
    by (auto simp: tcp_sample_handler_def newSocket_def)
next
  case False
  with tcp_sample_unserved [OF assms(1,2)] show ?thesis by auto
qed

text \<open>A TLS connection on which the peer has sent two bytes.\<close>

definition sample_tls_conn :: "error option option \<Rightarrow> conn" where
  "sample_tls_conn hs = sample_conn\<lparr>incoming := buffer [7, 8], pendingHandshake := hs,
     tlsState := Some \<lparr>ServerName = [], PeerCertificates = []\<rparr>\<rparr>"

theorem tcp_sample_serves_witness:
  "fst (tcp_sample_handler (\<lambda>k. 0) (newSocket (sample_tls_conn None) 0)) = [\<lparr>p_data = [7]\<rparr>, \<lparr>p_data = [8]\<rparr>] \<and>
   fst (tcp_sample_handler (\<lambda>k. 0) (newSocket (sample_tls_conn (Some None)) 0)) = []"
  using tcp_sample_serves [of "sample_tls_conn None" "\<lambda>k. 0" 0]
    tcp_sample_serves [of "sample_tls_conn (Some None)" "\<lambda>k. 0" 0]
  by (auto simp: sample_tls_conn_def sample_conn_def newBuffer_def)

text \<open>
  The whole program: on the connections of a TLS listener, which come with the handshake still to
  do, it serves nobody.
\<close>

theorem tcp_sample_main_serves_nobody:
  assumes "tcp_sample_main listen (Some cfg) arrivals clock = Inr results"
    and "\<And>l c. listen (ListenTLS (lit ''tcp'') (lit '':8883'') cfg) = Inr l \<Longrightarrow> AcceptConn c \<in> set (arrivals l) \<Longrightarrow>
      connOpen c \<and> tlsState c \<noteq> None \<and> pendingHandshake c \<noteq> None \<and> faults (outgoing_wire c) = []"
  shows "\<forall>(requests, sock) \<in> set results. requests = [] \<and> t_closed sock"
proof -
  from assms(1) obtain l where l: "listen (ListenTLS (lit ''tcp'') (lit '':8883'') cfg) = Inr l"
    "results = List.map_filter (\<lambda>ev. case ev of
        Handle sock \<Rightarrow> Some (tcp_sample_handler (clock sock) sock)
      | Sleep d \<Rightarrow> None) (fst (listener_Accept 0 0 (arrivals l)))"
    by (auto simp: tcp_sample_main_def transport_Listen_def NewTransport_def Secure_def TLSConfig_def Let_def
        andThen_Inr_conv zeroOptions_def)
  have "\<exists>t'. tcp_sample_handler (clock t) t = ([], t') \<and> t_closed t'"
    if "Handle t \<in> set (fst (listener_Accept 0 0 (arrivals l)))" for t
    using listener_Accept_Handle [OF that] assms(2) [OF l(1)] tcp_sample_unserved by blast
  then show ?thesis
    by (fastforce simp: l(2) map_filter_def split: accept_event.splits)
qed

text \<open>
  C39: the loops of the QUIC and WebSocket sample servers end. The first returns, over any stream
  that keeps the laws, with the bytes of the peer as its requests, and leaves the socket open;
  the second returns the data of its pipe in blocks of three, and the error of the stream's end,
  an unexpected one if less than a block was left.
\<close>

theorem sample_loops_end:
  assumes "reader_laws q" and "\<not> q_closed t"
  shows "(\<exists>t'. quic_sample_loop q clock k t =
      Some (map (\<lambda>b. \<lparr>p_data = [b]\<rparr>) (data (s_reader q (q_stream t))), t') \<and> \<not> q_closed t') \<and>
    (\<exists>reqs rest. ws_sample_loop r =
        (reqs, if rest \<noteq> [] \<and> final r = EOF then ErrUnexpectedEOF else final r) \<and>
      (\<forall>m \<in> set reqs. length (p_data m) = 3) \<and>
      data r = concat (map p_data reqs) @ rest \<and> length rest < 3)"
proof -
  obtain reqs err where w: "ws_sample_loop r = (reqs, err)" by fastforce
  with ws_sample_blocks [OF w] quic_sample_returns [OF assms] show ?thesis by auto
qed

theorem sample_loops_end_witness:
  "\<exists>t'. quic_sample_loop sample_stream (\<lambda>k. 0) 0 (quic_newSocket () (newBuffer, False, buffer [1, 2]) 0) =
    Some ([\<lparr>p_data = [1]\<rparr>, \<lparr>p_data = [2]\<rparr>], t')"
proof -
  have "reader_laws sample_stream" by (auto simp: reader_laws_def sample_stream_def)
  moreover have "\<not> q_closed (quic_newSocket () (newBuffer, False, buffer [1, 2]) 0)"
    by (simp add: quic_newSocket_def)
  ultimately show ?thesis
    using sample_loops_end [of sample_stream "quic_newSocket () (newBuffer, False, buffer [1, 2]) 0"
        "\<lambda>k. 0" 0 "buffer []"]
    by (auto simp: quic_newSocket_def sample_stream_def)
qed

end
