(* ===== verification/Certificates.thy ===== *)
theory Certificates
  imports Samples
begin

text \<open>
  The certificates of the sample servers: \<^verbatim>\<open>init\<close> of the TCP and the WebSocket server, which load
  them from files, and \<^verbatim>\<open>selfSignedConfig\<close> of the QUIC server, which makes one. Keys and certificates are
  opaque, and the functions of \<^verbatim>\<open>os\<close> and of the cryptographic packages are parameters that may fail.
\<close>

section \<open>Loading\<close>

datatype ClientAuthType = NoClientCert | RequireAndVerifyClientCert

record ('ca, 'cert) server_config =
  ClientCAs :: "'ca list"
  ClientAuth :: ClientAuthType
  Certificates :: "'cert list"

text \<open>
  The result is the message and the error that \<^verbatim>\<open>log.Fatalf\<close> exits with, or \<^verbatim>\<open>cfg\<close>.
  \<^verbatim>\<open>AppendCertsFromPEM\<close> adds the certificates it finds to the pool, and whether it found any is not
  looked at.
\<close>

definition tcp_sample_init ::
    "(gostring \<Rightarrow> error + bytes) \<Rightarrow> (gostring \<Rightarrow> gostring \<Rightarrow> error + 'cert) \<Rightarrow> (bytes \<Rightarrow> 'ca list) \<Rightarrow>
     (gostring \<times> error) + ('ca, 'cert) server_config" where
  "tcp_sample_init readFile loadKeyPair certsFromPEM = (case readFile (lit ''cert/ca.pem'') of
      Inl err \<Rightarrow> Inl (lit ''load cert/ca.pem'', err)
    | Inr ca \<Rightarrow> (case loadKeyPair (lit ''cert/server.pem'') (lit ''cert/server.key'') of
        Inl err \<Rightarrow> Inl (lit ''load server keypair'', err)
      | Inr serverCert \<Rightarrow>
          (let cfg = \<lparr>ClientCAs = [], ClientAuth = RequireAndVerifyClientCert, Certificates = [serverCert]\<rparr>
           in Inr (cfg\<lparr>ClientCAs := ClientCAs cfg @ certsFromPEM ca\<rparr>))))"

definition ws_sample_init ::
    "(gostring \<Rightarrow> error + bytes) \<Rightarrow> (gostring \<Rightarrow> gostring \<Rightarrow> error + 'cert) \<Rightarrow> (bytes \<Rightarrow> 'ca list) \<Rightarrow>
     (gostring \<times> error) + ('ca, 'cert) server_config" where
  "ws_sample_init readFile loadKeyPair certsFromPEM = (case readFile (lit ''cert/ca.pem'') of
      Inl err \<Rightarrow> Inl (lit ''load cert/ca.pem'', err)
    | Inr ca \<Rightarrow> (case loadKeyPair (lit ''cert/server.pem'') (lit ''cert/server.key'') of
        Inl err \<Rightarrow> Inl (lit ''load server keypair'', err)
      | Inr serverCert \<Rightarrow>
          (let cfg = \<lparr>ClientCAs = [], ClientAuth = RequireAndVerifyClientCert, Certificates = [serverCert]\<rparr>
           in Inr (cfg\<lparr>ClientCAs := ClientCAs cfg @ certsFromPEM ca\<rparr>))))"

text \<open>Either program goes on only with a certificate of its own, and asks every client for one.\<close>

lemma sample_init_Inr:
  "tcp_sample_init readFile loadKeyPair certsFromPEM = Inr cfg \<longleftrightarrow> (\<exists>ca cert.
     readFile (lit ''cert/ca.pem'') = Inr ca \<and> loadKeyPair (lit ''cert/server.pem'') (lit ''cert/server.key'') = Inr cert \<and>
     cfg = \<lparr>ClientCAs = certsFromPEM ca, ClientAuth = RequireAndVerifyClientCert, Certificates = [cert]\<rparr>)"
  "ws_sample_init readFile loadKeyPair certsFromPEM = tcp_sample_init readFile loadKeyPair certsFromPEM"
  by (auto simp: tcp_sample_init_def ws_sample_init_def Let_def split: sum.splits)

lemma tcp_sample_init_Inl:
  "tcp_sample_init readFile loadKeyPair certsFromPEM = Inl (msg, err) \<longleftrightarrow>
     readFile (lit ''cert/ca.pem'') = Inl err \<and> msg = lit ''load cert/ca.pem'' \<or>
     (\<exists>ca. readFile (lit ''cert/ca.pem'') = Inr ca) \<and>
       loadKeyPair (lit ''cert/server.pem'') (lit ''cert/server.key'') = Inl err \<and> msg = lit ''load server keypair''"
  by (auto simp: tcp_sample_init_def Let_def split: sum.splits)

text \<open>
  \<^verbatim>\<open>init\<close> runs before \<^verbatim>\<open>main\<close>, which gets the configuration; \<open>conf\<close> reads a server's configuration as a
  \<open>tls_config\<close>. A server that serves has loaded both files and listens on TLS.
\<close>

definition tcp_sample_program where
  "tcp_sample_program readFile loadKeyPair certsFromPEM conf listen arrivals clock =
     (case tcp_sample_init readFile loadKeyPair certsFromPEM of
        Inl fatal \<Rightarrow> Inl fatal
      | Inr cfg \<Rightarrow> Inr (tcp_sample_main listen (Some (conf cfg)) arrivals clock))"

theorem tcp_sample_program_serves:
  assumes "tcp_sample_program readFile loadKeyPair certsFromPEM conf listen arrivals clock = Inr (Inr results)"
  shows "\<exists>ca cert l. readFile (lit ''cert/ca.pem'') = Inr ca \<and>
    loadKeyPair (lit ''cert/server.pem'') (lit ''cert/server.key'') = Inr cert \<and>
    listen (ListenTLS (lit ''tcp'') (lit '':8883'')
      (conf \<lparr>ClientCAs = certsFromPEM ca, ClientAuth = RequireAndVerifyClientCert, Certificates = [cert]\<rparr>)) = Inr l"
  using assms by (auto simp: tcp_sample_program_def sample_init_Inr dest!: sample_mains_tls(2) split: sum.splits)

section \<open>Making\<close>

text \<open>
  Every failure panics. The template, the elliptic curve and the source of randomness are in the
  parameters; \<^verbatim>\<open>EncodeToMemory\<close> gets the type and the bytes of a block.
\<close>

definition selfSignedConfig ::
    "error + 'key \<Rightarrow> ('key \<Rightarrow> error + bytes) \<Rightarrow> ('key \<Rightarrow> error + bytes) \<Rightarrow> (gostring \<Rightarrow> bytes \<Rightarrow> bytes) \<Rightarrow>
     (bytes \<Rightarrow> bytes \<Rightarrow> error + 'cert) \<Rightarrow> error + ('ca, 'cert) server_config" where
  "selfSignedConfig generateKey createCertificate marshalKey encodeToMemory keyPair =
     andThen generateKey (\<lambda>key.
     andThen (createCertificate key) (\<lambda>certDER.
     andThen (marshalKey key) (\<lambda>keyDER.
       let certPEM = encodeToMemory (lit ''CERTIFICATE'') certDER;
           keyPEM = encodeToMemory (lit ''EC PRIVATE KEY'') keyDER
       in andThen (keyPair certPEM keyPEM) (\<lambda>cert.
         Inr \<lparr>ClientCAs = [], ClientAuth = NoClientCert, Certificates = [cert]\<rparr>))))"

text \<open>
  If a key pair can be read from the two blocks that were written, the server starts with the
  certificate made for the key, and clients need none.
\<close>

lemma selfSignedConfig_Inr:
  assumes "generateKey = Inr key" and "createCertificate key = Inr certDER" and "marshalKey key = Inr keyDER"
    and "keyPair (encodeToMemory (lit ''CERTIFICATE'') certDER) (encodeToMemory (lit ''EC PRIVATE KEY'') keyDER) = Inr cert"
  shows "selfSignedConfig generateKey createCertificate marshalKey encodeToMemory keyPair =
    Inr \<lparr>ClientCAs = [], ClientAuth = NoClientCert, Certificates = [cert]\<rparr>"
  using assms by (simp add: selfSignedConfig_def andThen_def)

end
