(* ===== verification/Spec2Isabelle.thy ===== *)
theory Spec2Isabelle
  imports BrokerOrder BufferPools Transports Certificates
begin

text \<open>
  xtransport, verified.

  The repository (\<^verbatim>\<open>src/\<close>) is a Go library of message sockets over TCP, WebSocket and QUIC, with
  a codec for MQTT 3.1.1 packets and a small broker that runs the whole stack. A socket's
  \<^verbatim>\<open>Recv\<close> hands its byte stream to a decoder, usually \<^verbatim>\<open>mqtt.ReadPacket\<close>; its \<^verbatim>\<open>Send\<close> marshals a
  value, usually a packet, with \<^verbatim>\<open>xtransport.Write\<close>. The broker reads packets from its sockets
  and sends packets to them.

  \<^bold>\<open>The model, by theory\<close>

  \<^descr> \<open>Prelude\<close>: Go bytes, strings and the part of \<^verbatim>\<open>fmt\<close> in use; lemmas on words and lists; the
    collections \<open>flat_simps\<close>, \<open>decoder_intros\<close>, \<open>wire_simps\<close>.
  \<^descr> \<open>Errors\<close>: the error values (\<^verbatim>\<open>packets/mqtt/errors.go\<close> and the sentinels of \<^verbatim>\<open>packets.go\<close>).
  \<^descr> \<open>Readers\<close>, \<open>Writers\<close>: \<^verbatim>\<open>io.Reader\<close> as the chunks its calls will return followed by its
    final error, \<^verbatim>\<open>io.Writer\<close> as the calls it accepted and the faults of its coming calls; \<^verbatim>\<open>io.ReadFull\<close>,
    \<^verbatim>\<open>io.CopyN\<close>, \<^verbatim>\<open>ReadByte\<close>, \<^verbatim>\<open>ReadFrom\<close>. Interface \<open>stream_decoder\<close>: what a decoder does depends
    on the bytes, not on the chunks.
  \<^descr> \<open>PacketFields\<close>: \<^verbatim>\<open>decodeByte\<close> to \<^verbatim>\<open>writeBytes\<close> of \<^verbatim>\<open>packets.go\<close>. Interface \<open>field_codec\<close>.
  \<^descr> \<open>FixedHeaders\<close>: the fixed header, \<^verbatim>\<open>unpack\<close>, \<^verbatim>\<open>decodeLength\<close> and the in-place encoder
    \<^verbatim>\<open>writePacket\<close>, with the plain encoding \<open>encodeLength\<close> as reference.
  \<^descr> \<open>PacketCodec\<close>: the interface \<open>packet_codec\<close> of a packet type (the Go interface
    \<^verbatim>\<open>ControlPacket\<close>) and its two simple shapes.
  \<^descr> \<open>Topics\<close>: \<^verbatim>\<open>utils.go\<close>, names, filters and UTF-8.
  \<^descr> \<open>ConnectPackets\<close>, \<open>PublishPackets\<close>, \<open>SubscribePackets\<close>, \<open>ControlPackets\<close>: the fourteen packet
    files, each struct a record and each method a definition; the sum \<open>ControlPacket\<close> with
    its methods and constructors. Each type, and the sum, interprets \<open>packet_codec\<close>.
  \<^descr> \<open>Codec\<close>: \<^verbatim>\<open>ReadPacket\<close> and \<^verbatim>\<open>ReadPacketLimit\<close>.
  \<^descr> \<open>TopicFilters\<close>, \<open>InteropBroker\<close>, \<open>BrokerSystem\<close>, \<open>BrokerRuns\<close>: \<^verbatim>\<open>interop/broker.go\<close>. \<^verbatim>\<open>MatchFilter\<close>;
    the client and broker records; the cases of \<^verbatim>\<open>dispatch\<close>, each as the part done under the
    client's lock (\<open>dispatch_locked\<close>: new state, acknowledgement, message to deliver) and the
    sends after it; \<^verbatim>\<open>deliver\<close>; the handshake; \<^verbatim>\<open>Close\<close>. \<open>BrokerSystem\<close> runs all handlers as a
    transition system: a handler's step is one receive, one acknowledgement, one locked section
    of \<^verbatim>\<open>deliver\<close> or one send, and the steps of the handlers, of accepting connections and of
    \<^verbatim>\<open>Close\<close> interleave in any way; \<open>BrokerRuns\<close> labels its steps and follows one handler
    through a run.
  \<^descr> \<open>BufferPools\<close>: the buffers that \<^verbatim>\<open>WriteTo\<close> and the WebSocket \<^verbatim>\<open>Send\<close> take from a pool and put
    back, as objects in a store with writers running side by side. Interface \<open>buffer_pool\<close>.
  \<^descr> \<open>Session\<close>, \<open>Marshal\<close>: \<^verbatim>\<open>context.go\<close> and \<^verbatim>\<open>io.go\<close>. Interface \<open>key_value_store\<close>.
  \<^descr> \<open>PacketSocket\<close>: the connection below a socket, its deadlines, the calls a socket gets as a
    sequence of \<open>op\<close>, and the interface \<open>packet_socket\<close> (\<^verbatim>\<open>socket.go\<close>) with the framing of the
    bytes written over any such sequence.
  \<^descr> \<open>Options\<close>: \<^verbatim>\<open>options.go\<close>, \<^verbatim>\<open>dial.go\<close> and the fold of options that every transport does.
  \<^descr> \<open>TcpSocket\<close>, \<open>TcpTransport\<close>: \<^verbatim>\<open>transports/tcp\<close>.
  \<^descr> \<open>QuicSocket\<close>, \<open>QuicTransport\<close>: \<^verbatim>\<open>transports/quic\<close>.
  \<^descr> \<open>WsSocket\<close>, \<open>WsTransport\<close>: \<^verbatim>\<open>transports/ws\<close>, with the read loop over the frames that arrive,
    the pipe between it and \<^verbatim>\<open>Recv\<close>, control frames and idle deadlines, and the upgrade.
  \<^descr> \<open>BrokerSockets\<close>: the sockets under the broker. The broker is verified over sockets \<open>sock\<close> whose
    results are given in advance; interface \<open>broker_socket\<close>: whatever calls a transport's socket
    gets, some \<open>sock\<close> answers them in the same way and has recorded what is on the wire.
  \<^descr> \<open>BrokerWire\<close>: the handlers use the socket of a connection by such calls only, so that what a run
    of the broker sends is on the wire of the transport's socket. \<open>BrokerOrder\<close>: the order of the
    messages from one publisher to one subscriber.
  \<^descr> \<open>Transports\<close>: the interfaces of \<^verbatim>\<open>transport.go\<close> and \<^verbatim>\<open>listener.go\<close> as records of their methods, and the
    locale \<open>transport_interface\<close> of what a program relies on, which the three transports keep.
  \<^descr> \<open>Samples\<close>, \<open>Certificates\<close>: the sample programs under \<^verbatim>\<open>transports/*/sample\<close> and
    \<^verbatim>\<open>interop/cmd/broker\<close>, and the certificates that the sample servers load or make.

  All three sockets keep \<open>packet_socket\<close>: \<open>TcpSocket\<close> interprets it, \<open>QuicSocket\<close> proves it for every
  stream with the laws below, \<open>WsSocket\<close> proves the same framing with the frames that arrive in
  between.

  \<^bold>\<open>Third-party code\<close>

  The libraries are arguments of the definitions. A stream of \<^verbatim>\<open>quic-go\<close> is a state with the
  operations of the record \<open>stream_ops\<close>; \<open>stream_laws\<close> says what the code relies on (deadlines,
  reading, closing and cancelling keep what was written, and a stream whose send side is closed
  takes no more bytes), and \<open>reader_laws\<close> what C19's QUIC half adds (setting a read deadline
  succeeds, and only reading and cancelling take bytes from a reader). \<^verbatim>\<open>gobwas/ws\<close> is the record \<open>ws_lib\<close> of its frames and of \<^verbatim>\<open>WriteFrame\<close>; \<open>ws_laws\<close>
  says that \<^verbatim>\<open>WriteFrame\<close> appends the frame's bytes, or some bytes if it fails, that a binary frame
  carries its payload, masked or not, and that a control frame
  carries no data. The results of dialling, listening, handshaking and accepting are
  arguments too. The witnesses give concrete functions for all of them.

  \<^bold>\<open>Conventions\<close>

  Bytes and the 16 and 32 bit integers are words, so shifts and wrap-around are those of the
  code; Go's \<^verbatim>\<open>int\<close> is \<open>int\<close>, as no value here comes near 64 bits. A struct method is a function
  named \<open>Struct_Method\<close> from the receiver to its results and the new receiver. An error result is
  an \<open>error option\<close> (\<open>None\<close> is nil) or the left side of a sum; a panic is \<open>None\<close> of an outer option,
  or an error where the code recovers it. \<^verbatim>\<open>Unpack\<close> that fails does not return the half filled
  packet, which its caller drops. The nil and the empty slice or map are the same value. Where a
  loop ranges over a Go map, the model takes the order as given and the theorems show that it
  does not matter. All definitions are total; the loops end by a measure (the digits left, the
  bytes left, the list left), so there is no fuel. The one loop that need not end, that of the
  QUIC sample server, is a partial function whose value \<open>None\<close> is not returning.

  \<^bold>\<open>What is shown\<close>

  \<^item> Codec (C1 to C11, here): round trips of packets and streams of packets over readers that cut
    the bytes in any way, soundness of decoding and re-encoding, the exact meaning of \<open>EOF\<close> and of
    truncation, all errors, the size limit, synchronisation, one \<^verbatim>\<open>Write\<close> per packet.
  \<^item> Broker (C12 to C23, C31 and C36, in \<open>BrokerRuns\<close>, \<open>BrokerOrder\<close>, \<open>BrokerWire\<close>, \<open>BrokerSockets\<close>,
    \<open>InteropBroker\<close>, \<open>BrokerSystem\<close>, \<open>TopicFilters\<close>): in every run, with all handlers interleaving, quality 2 messages are
    delivered once, as a refinement of a specified receiver; the messages of one publisher reach a
    subscriber in order (C16); the invariant of the reachable states; delivery, identifiers, subscriptions, matching, the handshake; that a closed broker
    comes to rest within a bound with every handler returned; that the small steps of a handler
    add up to \<^verbatim>\<open>dispatch\<close> and \<^verbatim>\<open>deliver\<close>; and, end to end, that a TCP socket used by the handlers
    carries exactly the packets the broker sent, which any client decodes in order (C23; over QUIC
    in \<open>broker_over_quic\<close>, and over WebSocket, in the data of its frames, in \<open>broker_over_ws\<close>).
    C19 and C36 put real sockets under it: a TCP socket, a QUIC socket (in \<open>quic_implements_sock\<close>)
    and a WebSocket socket, with the frames that arrive in between, are among those the broker is
    verified with.
  \<^item> Sockets (C24 for TCP, C25 and C30 for QUIC, C32, C35 and C38 for WebSocket): over any sequence
    of calls and faults the peer sees whole packets in the order sent, with a torn one at
    the very end only on a closed socket; a WebSocket session delivers the peer's packets
    however it cuts and fragments its messages, and ends a peer that sends no data; \<^verbatim>\<open>Close\<close> of a
    QUIC socket leaves the peer its grace period.
  \<^item> Transports (C26, C27, C29, C37, C40): the accept loop backs off, client and server built from
    the same options agree on TLS, ALPN and subprotocol, and no QUIC connection is left open
    unserved.
  \<^item> Sessions (C28), and pooled buffers, which no writer can tell from fresh ones (C33).
  \<^item> Sample programs (C34, C39): what the servers do with a connection, and that their loops end.

  The theorems \<open>ws_send_race\<close> and \<open>ws_empty_message_rearms\<close> record two places where the WebSocket
  socket does not do what its comments say: a \<^verbatim>\<open>Send\<close> that tore a frame gives up the write lock
  before it closes the socket, so that a waiting \<^verbatim>\<open>Send\<close> can follow with a whole frame, and an
  empty data message does re-arm the idle deadline. C34 shows that the TCP sample server, which
  prints the TLS state before the lazy handshake has run, closes every connection unserved.

  \<^bold>\<open>What is not modelled\<close>

  Logging; time as such (deadlines and delays are recorded and compared, not awaited); the HTTP
  server and its multiplexer, of which the model has the request that reaches \<^verbatim>\<open>serveWS\<close> and the
  reply; when Go runs the handler of an accepted connection; the cryptography and the file system
  behind the certificates of the samples, which are parameters; the tests of the repository.
\<close>

section \<open>Sample packets for the witnesses\<close>

definition sample_publish :: ControlPacket where
  "sample_publish = PublishP
     \<lparr>pub_FixedHeader = zeroHeader Publish 1, TopicName = lit ''a/b'', pub_MessageID = 10,
      Payload = lit ''hi''\<rparr>"

definition sample_ping :: ControlPacket where
  "sample_ping = PingreqP \<lparr>pingreq_FixedHeader = zeroHeader Pingreq 0\<rparr>"

lemma sample_sendable: "sendable 0 sample_publish" "sendable 0 sample_ping"
  by (simp_all add: sendable_def sample_publish_def sample_ping_def control_wf_def publish_wf_def
      header_ok_def zeroHeader_def publish_content_def lit_def clampLimit_def
      MaxRemainingLength_def)

lemma sample_bytes:
  "encode sample_publish = [0x32, 9, 0, 3, 97, 47, 98, 0, 10, 104, 105]"
  "encode sample_ping = [0xC0, 0]"
  by (simp_all add: encode_def frame_def sample_publish_def sample_ping_def publish_content_def
      zeroHeader_def header_byte_def boolToByte_def lit_def field_bytes_def uint16_bytes_def
      encodeLength.simps)

lemma sample_read:
  "ReadPacketLimit 0 (flat [0xC0, 0] EOF True) = (Inr sample_ping, flat [] EOF True)"
proof -
  have "as_received sample_ping = sample_ping"
    by (simp add: as_received_def sample_ping_def zeroHeader_def)
  then show ?thesis
    using ReadPacketLimit_frame [of sample_ping 0 "[]" EOF True] sample_sendable(2) sample_bytes(2)
    by (simp add: sendable_def encode_def)
qed

section \<open>Round trips over arbitrary streams\<close>

text \<open>
  C1: round trip. A packet the codec can send (fields that fit, legal header, body within the
  reader's limit) is written without error, and whatever reader delivers those bytes, cut into
  chunks in any way and followed by anything, reads the packet back (its header now holding the
  actual remaining length) and leaves exactly what follows.
\<close>

theorem write_read_roundtrip:
  assumes "sendable m cp"
  shows "\<exists>w. WriteTo cp newBuffer = Some ((length (sent w), None), w) \<and>
    (\<forall>r rest. data r = sent w @ rest \<longrightarrow>
      (\<exists>r'. ReadPacketLimit m r = (Inr (as_received cp), r') \<and> data r' = rest \<and>
        final r' = final r))"
proof -
  let ?w = "newBuffer\<lparr>calls := [encode cp]\<rparr>"
  have "WriteTo cp newBuffer = Some ((length (sent ?w), None), ?w)"
    using WriteTo_encode [OF assms] by simp
  moreover have "\<exists>r'. ReadPacketLimit m r = (Inr (as_received cp), r') \<and> data r' = rest \<and>
      final r' = final r" if "data r = sent ?w @ rest" for r rest
    using ReadPacketLimit_stream [of m cp r rest] assms that by simp
  ultimately show ?thesis by blast
qed

theorem write_read_roundtrip_witness:
  "\<exists>w. WriteTo sample_publish newBuffer = Some ((length (sent w), None), w) \<and>
    (\<forall>r rest. data r = sent w @ rest \<longrightarrow>
      (\<exists>r'. ReadPacketLimit 0 r = (Inr (as_received sample_publish), r') \<and> data r' = rest \<and>
        final r' = final r))"
  using write_read_roundtrip [OF sample_sendable(1)] by simp

text \<open>
  C2: a conversation. Any list of sendable packets written one after the other makes one
  \<^verbatim>\<open>Write\<close> per packet, and a reader of those bytes, in whatever chunks, gets the same packets
  in the same order and then the orderly end of the stream.
\<close>

theorem packet_stream_roundtrip:
  assumes "\<forall>cp \<in> set cps. sendable m cp"
  shows "\<exists>w. write_packets cps newBuffer = Some (None, w) \<and> length (calls w) = length cps \<and>
    (\<forall>r. data r = sent w \<and> final r = EOF \<longrightarrow>
      (\<exists>r'. read_packets m (length cps) r = (Inr (map as_received cps), r') \<and>
        fst (ReadPacketLimit m r') = Inl EOF))"
proof -
  have new: "faults newBuffer = []" "sent newBuffer = []" "calls newBuffer = []"
    by (simp_all add: newBuffer_def sent_def)
  obtain w where w: "write_packets cps newBuffer = Some (None, w)"
    "sent w = concat (map encode cps)" "length (calls w) = length cps"
    using write_packets_encode [OF assms new(1)] new by auto
  have "\<exists>r'. read_packets m (length cps) r = (Inr (map as_received cps), r') \<and>
      fst (ReadPacketLimit m r') = Inl EOF" if "data r = sent w \<and> final r = EOF" for r
    using read_packets_stream [OF assms, of r "[]"] that w(2) by (auto simp: ReadPacketLimit_EOF)
  with w show ?thesis by blast
qed

theorem packet_stream_roundtrip_witness:
  "\<exists>w. write_packets [sample_ping, sample_publish] newBuffer = Some (None, w) \<and>
    length (calls w) = length [sample_ping, sample_publish] \<and>
    (\<forall>r. data r = sent w \<and> final r = EOF \<longrightarrow>
      (\<exists>r'. read_packets 0 (length [sample_ping, sample_publish]) r =
          (Inr (map as_received [sample_ping, sample_publish]), r') \<and>
        fst (ReadPacketLimit 0 r') = Inl EOF))"
  by (rule packet_stream_roundtrip) (simp add: sample_sendable)

text \<open>
  C3: the result of reading a packet, and the bytes left after it, depend only on the bytes of
  the stream and on how it ends: not on how \<^verbatim>\<open>Read\<close> cuts it into chunks, nor on whether the
  reader offers \<^verbatim>\<open>ReadByte\<close>.
\<close>

theorem ReadPacketLimit_chunks:
  assumes "data r = data s" and "final r = final s"
  shows "fst (ReadPacketLimit m r) = fst (ReadPacketLimit m s) \<and>
    data (snd (ReadPacketLimit m r)) = data (snd (ReadPacketLimit m s)) \<and>
    final (snd (ReadPacketLimit m r)) = final (snd (ReadPacketLimit m s))"
  using stream_decoder.respects [OF ReadPacketLimit_decoder, of r s m] assms
  by (simp add: same_stream_def)

theorem ReadPacketLimit_chunks_witness:
  "fst (ReadPacketLimit 0 \<lparr>chunks = [[0xC0], [], [0]], final = EOF, byteReader = False\<rparr>) =
    Inr sample_ping"
  using ReadPacketLimit_chunks [of "\<lparr>chunks = [[0xC0], [], [0]], final = EOF, byteReader = False\<rparr>"
      "flat [0xC0, 0] EOF True" 0]
  by (simp add: data_def flat_def sample_read [unfolded flat_def, simplified])

section \<open>Soundness of decoding\<close>

text \<open>
  C4: what a successful read means. The packet has a legal header of its own type, the stream
  began with that header's byte, a length of one to four digits and a body of exactly that
  length within the limit, and exactly these bytes were consumed.
\<close>

theorem ReadPacketLimit_sound:
  assumes "ReadPacketLimit m r = (Inr cp, r')"
  shows "header_ok (fixedHeader cp) \<and> Type cp = kind cp \<and>
    (\<exists>ds body. data r = header_byte (fixedHeader cp) # ds @ body @ data r' \<and>
      length_digits ds \<and> length ds \<le> 4 \<and> lengthValue ds = length body \<and>
      RemainingLength (fixedHeader cp) = int (length body) \<and> int (length body) \<le> clampLimit m)"
  using assms by (rule ReadPacketLimit_Inr) (auto simp: Type_def FixedHeader_Type_def)

theorem ReadPacketLimit_sound_witness:
  "header_ok (fixedHeader sample_ping) \<and> Type sample_ping = kind sample_ping"
  using ReadPacketLimit_sound [OF sample_read] by simp

text \<open>
  C5: decoding loses nothing. A packet that was read and can be written at all (a CONNECT
  without reserved bit and with a legal will QoS, a SUBSCRIBE or UNSUBSCRIBE with a topic, any
  other packet) is written with at most as many bytes as were read, and those bytes read back
  as the very same packet.
\<close>

theorem read_write_read:
  assumes "ReadPacketLimit m r = (Inr cp, r')" and "reencodable cp"
  shows "\<exists>w. WriteTo cp newBuffer = Some ((length (sent w), None), w) \<and>
    length (sent w) \<le> length (data r) - length (data r') \<and>
    (\<forall>s. data s = sent w \<longrightarrow> fst (ReadPacketLimit m s) = Inr cp)"
proof -
  note s = ReadPacketLimit_sendable [OF assms]
  let ?w = "newBuffer\<lparr>calls := [encode cp]\<rparr>"
  have "fst (ReadPacketLimit m s) = Inr cp" if "data s = sent ?w" for s
    using ReadPacketLimit_stream [of m cp s "[]"] s that by auto
  with s WriteTo_encode [of m cp newBuffer] show ?thesis
    by (intro exI [of _ ?w]) simp
qed

theorem read_write_read_witness:
  "\<exists>w. WriteTo sample_ping newBuffer = Some ((length (sent w), None), w) \<and>
    length (sent w) \<le> length (data (flat [0xC0, 0] EOF True)) - length (data (flat [] EOF True)) \<and>
    (\<forall>s. data s = sent w \<longrightarrow> fst (ReadPacketLimit 0 s) = Inr sample_ping)"
  by (rule read_write_read [OF sample_read]) (simp add: sample_ping_def)

text \<open>
  C6: the orderly end. \<^verbatim>\<open>ReadPacketLimit\<close> returns \<open>EOF\<close> exactly when the stream ends, with
  \<open>EOF\<close>, on a packet boundary; no packet, complete or not, is mistaken for it.
\<close>

theorem ReadPacketLimit_boundary:
  "fst (ReadPacketLimit m r) = Inl EOF \<longleftrightarrow> data r = [] \<and> final r = EOF"
  by (rule ReadPacketLimit_EOF)

text \<open>
  C7: truncation. A stream that stops strictly inside the encoding of a sendable packet yields
  \<open>ErrUnexpectedEOF\<close> if it was closed, and the connection's own error otherwise; never a
  packet.
\<close>

theorem ReadPacketLimit_truncation:
  assumes "sendable m cp" and "encode cp = data r @ q" and "data r \<noteq> []" and "q \<noteq> []"
  shows "fst (ReadPacketLimit m r) =
    Inl (if final r = EOF then ErrUnexpectedEOF else final r)"
  using ReadPacketLimit_truncated_stream [OF assms] by (simp add: unexpectedEOF_def)

theorem ReadPacketLimit_truncation_witness:
  "fst (ReadPacketLimit 0 (flat [0x32, 9, 0, 3] EOF False)) = Inl ErrUnexpectedEOF"
  using ReadPacketLimit_truncation [OF sample_sendable(1), of "flat [0x32, 9, 0, 3] EOF False"
      "[97, 47, 98, 0, 10, 104, 105]"]
  by (simp add: sample_bytes)

text \<open>
  C8: the errors of \<^verbatim>\<open>ReadPacketLimit\<close> are the end of the stream (unexpected inside a packet),
  illegal fixed header flags, a malformed length, a packet over the limit, and a body that is
  too short or too long for its packet type or has reserved CONNACK flags. In particular the
  branches for an unsupported packet type and for a negative PUBLISH payload are never taken.
\<close>

theorem ReadPacketLimit_error_kinds:
  assumes "fst (ReadPacketLimit m r) = Inl e"
  shows "e = (if data r = [] then final r else unexpectedEOF (final r)) \<or> flag_error e \<or>
    e = ErrMalformedRemainingLength \<or> e = ErrPacketTooLarge \<or>
    errors_Is e ErrShortRemainingLength \<or> errors_Is e ErrTrailingBytes \<or> e = connack_flags_error"
  using ReadPacketLimit_errors [OF assms] by (simp add: content_error_def)

theorem ReadPacketLimit_error_kinds_witness:
  "flag_error (NewError (lit ''invalid mqtt flag(messagetype)'')) \<and>
   (let e = projl (fst (ReadPacketLimit 0 (flat [] EOF True)))
    in e = (if data (flat [] EOF True) = [] then EOF else ErrUnexpectedEOF) \<or> flag_error e \<or>
    e = ErrMalformedRemainingLength \<or> e = ErrPacketTooLarge \<or>
    errors_Is e ErrShortRemainingLength \<or> errors_Is e ErrTrailingBytes \<or> e = connack_flags_error)"
  using ReadPacketLimit_error_kinds [of 0 "flat [] EOF True" EOF]
  by (simp add: ReadPacketLimit_Nil flag_error_def)

text \<open>
  C9: the limit. A header whose length exceeds the reader's limit (the protocol maximum for a
  limit that is not positive or beyond it) is refused with \<open>ErrPacketTooLarge\<close>, before a
  single byte of the body is read.
\<close>

theorem ReadPacketLimit_limit:
  assumes "data r = header_byte fh # ds @ rest" and "header_ok fh" and "length_digits ds"
    and "length ds \<le> 4"
    and "int (lengthValue ds) >
      (if 0 < m \<and> m \<le> MaxRemainingLength then m else MaxRemainingLength)"
  shows "fst (ReadPacketLimit m r) = Inl ErrPacketTooLarge \<and>
    data (snd (ReadPacketLimit m r)) = rest"
proof (rule ReadPacketLimit_too_large)
  show "header_ok (header_of (header_byte fh) 0)"
    using assms(2) by (simp add: header_of_byte)
  show "int (lengthValue ds) > clampLimit m"
    using assms(5) by (auto simp: clampLimit_def split: if_splits)
qed (use assms in auto)

theorem ReadPacketLimit_limit_witness:
  "fst (ReadPacketLimit 4 (flat [0xC0, 5, 1, 2] EOF True)) = Inl ErrPacketTooLarge \<and>
   data (snd (ReadPacketLimit 4 (flat [0xC0, 5, 1, 2] EOF True))) = [1, 2]"
  using ReadPacketLimit_limit [of "flat [0xC0, 5, 1, 2] EOF True" "zeroHeader Pingreq 0" "[5]" "[1, 2]" 4]
  by (simp add: header_byte_def zeroHeader_def boolToByte_def header_ok_def MaxRemainingLength_def)

text \<open>
  C10: synchronisation. Once the announced body has arrived, exactly the packet is consumed,
  also when its content turns out to be malformed; the next read starts at the next packet.
\<close>

theorem ReadPacketLimit_in_step:
  assumes "data r = header_byte fh # ds @ body @ rest" and "header_ok fh" and "length_digits ds"
    and "length ds \<le> 4" and "lengthValue ds = length body" and "int (length body) \<le> clampLimit m"
  shows "data (snd (ReadPacketLimit m r)) = rest"
  using assms
  by (intro ReadPacketLimit_consumes [of "header_byte fh" ds body]) (simp_all add: header_of_byte)

theorem ReadPacketLimit_in_step_witness:
  "data (snd (ReadPacketLimit 0 (flat [0x40, 1, 7, 0xC0, 0] EOF True))) = [0xC0, 0]"
  using ReadPacketLimit_in_step [of "flat [0x40, 1, 7, 0xC0, 0] EOF True" "zeroHeader Puback 0"
      "[1]" "[7]" "[0xC0, 0]" 0]
  by (simp add: header_byte_def zeroHeader_def boolToByte_def header_ok_def MaxRemainingLength_def
      clampLimit_def)

section \<open>Writing\<close>

text \<open>
  C11: whatever a packet holds and whatever the writer does, \<^verbatim>\<open>WriteTo\<close> does not panic: it
  either reports an error with nothing written, or issues exactly one \<^verbatim>\<open>Write\<close>, of a complete
  frame under the packet's own header, and returns that call's result.
\<close>

theorem WriteTo_single_write:
  "(\<exists>err. WriteTo cp w = Some ((0, Some err), w)) \<or>
   (\<exists>content. int (length content) \<le> MaxRemainingLength \<and>
      WriteTo cp w = Some (Write w (frame (fixedHeader cp) content)))"
  using WriteTo_once [of w cp] by (auto simp: writes_once_def)

end
